(* ===== verification/Prelude.thy ===== *)
theory Prelude
  imports Main "HOL-Library.Word"
begin

text \<open>
  Shared vocabulary of the development: the widths of the Rust integers, the outcome of a
  Rust computation that may panic, the integer operators with their overflow behaviour in
  the two build profiles, and the lemmas on words and lists that the components share.

  A \<open>Debug\<close> build has debug assertions and overflow checks on, a \<open>Release\<close> build
  has both off (the workspace's profiles in \<^verbatim>\<open>Cargo.toml\<close> keep those
  defaults). An unchecked access outside its bounds (\<open>get_unchecked\<close>) is the fault
  \<open>Undefined\<close>: the development shows that no public operation reaches it.
  \<open>usize\<close> is the 64-bit type of the supported server targets.
\<close>

unbundle bit_operations_syntax

named_theorems to_nat \<open>rules that read words as natural numbers\<close>
named_theorems rust_ops \<open>definitions of the Rust operators used by the models\<close>

subsection \<open>Types\<close>

type_synonym u8 = "8 word"
type_synonym u32 = "32 word"
type_synonym u64 = "64 word"
type_synonym u128 = "128 word"
type_synonym usize = "64 word"
type_synonym i64 = "64 word"
type_synonym bytes = "u8 list"

datatype build = Debug | Release

datatype fault = Panic string | Undefined string

type_synonym 'a res = "fault + 'a"

text \<open>\<open>Result::and_then\<close>: the \<open>?\<close> operator and the propagation of a panic.\<close>

definition and_then :: "'e + 'a \<Rightarrow> ('a \<Rightarrow> 'e + 'b) \<Rightarrow> 'e + 'b" where
  "and_then r f = (case r of Inl e \<Rightarrow> Inl e | Inr x \<Rightarrow> f x)"

definition map_err :: "('e \<Rightarrow> 'f) \<Rightarrow> 'e + 'a \<Rightarrow> 'f + 'a" where
  "map_err f r = (case r of Inl e \<Rightarrow> Inl (f e) | Inr x \<Rightarrow> Inr x)"

definition map_ok :: "('a \<Rightarrow> 'b) \<Rightarrow> 'e + 'a \<Rightarrow> 'e + 'b" where
  "map_ok f r = (case r of Inl e \<Rightarrow> Inl e | Inr x \<Rightarrow> Inr (f x))"

definition is_ok :: "'e + 'a \<Rightarrow> bool" where
  "is_ok r = (case r of Inl _ \<Rightarrow> False | Inr _ \<Rightarrow> True)"

subsection \<open>Rust operators\<close>

definition debug_assert :: "build \<Rightarrow> bool \<Rightarrow> string \<Rightarrow> unit res" where
  "debug_assert b c msg = (if b = Debug \<and> \<not> c then Inl (Panic msg) else Inr ())"

definition rust_add :: "build \<Rightarrow> 'a::len word \<Rightarrow> 'a word \<Rightarrow> 'a word res" where
  "rust_add b x y =
     (if b = Debug \<and> 2 ^ LENGTH('a) \<le> unat x + unat y
      then Inl (Panic ''attempt to add with overflow'') else Inr (x + y))"

definition rust_sub :: "build \<Rightarrow> 'a::len word \<Rightarrow> 'a word \<Rightarrow> 'a word res" where
  "rust_sub b x y =
     (if b = Debug \<and> unat x < unat y
      then Inl (Panic ''attempt to subtract with overflow'') else Inr (x - y))"

definition saturating_sub :: "'a::len word \<Rightarrow> 'a word \<Rightarrow> 'a word" where
  "saturating_sub x y = (if x < y then 0 else x - y)"

definition saturating_mul :: "'a::len word \<Rightarrow> 'a word \<Rightarrow> 'a word" where
  "saturating_mul x y = (if unat x * unat y < 2 ^ LENGTH('a) then x * y else - 1)"

definition checked_mul :: "'a::len word \<Rightarrow> 'a word \<Rightarrow> 'a word option" where
  "checked_mul x y = (if unat x * unat y < 2 ^ LENGTH('a) then Some (x * y) else None)"

text \<open>\<open>(1 << n) - 1\<close>, as the layout macros write their field masks.\<close>

definition bit_mask :: "nat \<Rightarrow> 'a::len word" where
  "bit_mask n = push_bit n 1 - 1"

declare debug_assert_def [rust_ops] rust_add_def [rust_ops] rust_sub_def [rust_ops]
  saturating_sub_def [rust_ops] saturating_mul_def [rust_ops] checked_mul_def [rust_ops]

subsection \<open>Outcomes\<close>

lemma and_then_simps [simp]:
  "and_then (Inl e) f = Inl e"
  "and_then (Inr x) f = f x"
  by (simp_all add: and_then_def)

lemma and_then_eq_Inr_iff [simp]: "and_then r f = Inr y \<longleftrightarrow> (\<exists>x. r = Inr x \<and> f x = Inr y)"
  by (cases r) simp_all

lemma and_then_eq_Inl_iff: "and_then r f = Inl e \<longleftrightarrow> r = Inl e \<or> (\<exists>x. r = Inr x \<and> f x = Inl e)"
  by (cases r) simp_all

lemma map_err_simps [simp]:
  "map_err f (Inl e) = Inl (f e)"
  "map_err f (Inr x) = Inr x"
  by (simp_all add: map_err_def)

lemma map_ok_simps [simp]:
  "map_ok f (Inl e) = Inl e"
  "map_ok f (Inr x) = Inr (f x)"
  by (simp_all add: map_ok_def)

lemma map_ok_eq_Inr_iff: "map_ok f r = Inr y \<longleftrightarrow> (\<exists>x. r = Inr x \<and> y = f x)"
  by (cases r) auto

lemma is_ok_simps [simp]:
  "\<not> is_ok (Inl e)"
  "is_ok (Inr x)"
  by (simp_all add: is_ok_def)

lemma is_ok_iff: "is_ok r \<longleftrightarrow> (\<exists>x. r = Inr x)"
  by (cases r) simp_all

lemma is_ok_map_ok [simp]: "is_ok (map_ok f r) \<longleftrightarrow> is_ok r"
  by (cases r) simp_all

lemma is_ok_and_then_total: "is_ok r \<Longrightarrow> (\<And>x. is_ok (f x)) \<Longrightarrow> is_ok (and_then r f)"
  by (cases r) simp_all

lemma debug_assert_True [simp]: "c \<Longrightarrow> debug_assert b c msg = Inr ()"
  by (simp add: debug_assert_def)

lemma debug_assert_Release [simp]: "debug_assert Release c msg = Inr ()"
  by (simp add: debug_assert_def)

lemma rust_add_Release [simp]: "rust_add Release x y = Inr (x + y)"
  by (simp add: rust_add_def)

lemma rust_add_no_overflow:
  fixes x y :: "'a::len word"
  shows "unat x + unat y < 2 ^ LENGTH('a) \<Longrightarrow> rust_add b x y = Inr (x + y)"
  by (simp add: rust_add_def)

lemma rust_sub_no_underflow [simp]: "y \<le> x \<Longrightarrow> rust_sub b x y = Inr (x - y)"
  by (simp add: rust_sub_def word_le_nat_alt)

subsection \<open>Words as natural numbers\<close>

lemma unat_take_bit [to_nat]: "unat (take_bit n (x :: 'a::len word)) = unat x mod 2 ^ n"
  by (simp add: unsigned_take_bit_eq flip: take_bit_eq_mod)

lemma unat_drop_bit [to_nat]: "unat (drop_bit n (x :: 'a::len word)) = unat x div 2 ^ n"
  by (simp add: unat_drop_bit_eq flip: drop_bit_eq_div)

lemma unat_push_bit_small [to_nat]:
  fixes x :: "'a::len word"
  assumes "unat x * 2 ^ n < 2 ^ LENGTH('a)"
  shows "unat (push_bit n x) = unat x * 2 ^ n"
  using assms
  by (simp only: unsigned_push_bit_eq) (simp add: push_bit_eq_mult take_bit_eq_mod)

lemma bit_mask_eq_mask: "bit_mask n = (mask n :: 'a::len word)"
  by (simp add: bit_mask_def mask_eq_exp_minus_1 push_bit_eq_mult)

lemma and_bit_mask [simp]: "x AND bit_mask n = take_bit n (x :: 'a::len word)"
  by (simp add: bit_mask_eq_mask take_bit_eq_mask)

lemma unat_bit_mask:
  assumes "n \<le> LENGTH('a::len)"
  shows "unat (bit_mask n :: 'a word) = 2 ^ n - 1"
proof -
  have "bit_mask n = (take_bit n (- 1) :: 'a word)"
    by (simp add: bit_mask_eq_mask)
  then have "unat (bit_mask n :: 'a word) = (2 ^ LENGTH('a) - 1) mod 2 ^ n"
    by (simp only: unat_take_bit unsigned_minus_1_eq_mask) (simp add: mask_eq_exp_minus_1)
  also have "(2 ^ LENGTH('a) - 1) mod 2 ^ n = (2 ^ n - 1 :: nat)"
    using assms by (metis mask_eq_exp_minus_1 min.absorb2 min.commute take_bit_eq_mod take_bit_of_mask)
  finally show ?thesis .
qed

lemma le_bit_mask_iff:
  fixes x :: "'a::len word"
  assumes "n \<le> LENGTH('a)"
  shows "x \<le> bit_mask n \<longleftrightarrow> unat x < 2 ^ n"
proof -
  have "(0 :: nat) < 2 ^ n" by simp
  then have "unat x \<le> 2 ^ n - 1 \<longleftrightarrow> unat x < 2 ^ n" by linarith
  then show ?thesis
    using assms by (simp add: word_le_nat_alt unat_bit_mask)
qed

lemma take_bit_below:
  fixes x :: "'a::len word"
  shows "unat x < 2 ^ n \<Longrightarrow> take_bit n x = x"
  by (rule word_unat_eq_iff [THEN iffD2]) (simp add: unat_take_bit)

lemma bit_mask_eq_take_bit: "(bit_mask n :: 'a::len word) = take_bit n (- 1)"
  by (simp add: bit_mask_eq_mask)

lemma unat_minus_1_mod:
  assumes "n \<le> LENGTH('a::len)"
  shows "unat (- 1 :: 'a word) mod 2 ^ n = 2 ^ n - 1"
  using unat_bit_mask [OF assms] by (simp only: bit_mask_eq_take_bit unat_take_bit)

lemma no_high_bits_iff:
  fixes x :: "'a::len word"
  shows "x AND NOT (bit_mask n) = 0 \<longleftrightarrow> unat x < 2 ^ n"
proof -
  have "x AND NOT (bit_mask n) = 0 \<longleftrightarrow> take_bit n x = x"
    unfolding bit_mask_eq_mask take_bit_eq_mask by (auto simp: bit_eq_iff bit_simps)
  then show ?thesis
    by (simp add: word_unat_eq_iff unat_take_bit)
      (metis mod_less mod_less_divisor zero_less_numeral zero_less_power)
qed

text \<open>Two words that use disjoint bit ranges are joined by \<open>OR\<close> without carries.\<close>

lemma unat_or_disjoint:
  fixes x y :: "'a::len word"
  assumes "2 ^ n dvd unat x" and "unat y < 2 ^ n"
  shows "unat (x OR y) = unat x + unat y"
proof -
  have "bit (unat x) k \<Longrightarrow> \<not> bit (unat y) k" for k
  proof -
    assume bx: "bit (unat x) k"
    have "take_bit n (unat x) = 0"
      using assms(1) by (simp add: take_bit_eq_0_iff)
    with bx have "n \<le> k"
      by (metis bit_0_eq bit_take_bit_iff bot_apply bot_bool_def not_le)
    moreover have "take_bit n (unat y) = unat y"
      using assms(2) by (simp add: take_bit_nat_eq_self)
    ultimately show "\<not> bit (unat y) k"
      by (metis bit_take_bit_iff not_le)
  qed
  then have "unat x AND unat y = 0"
    by (auto simp: bit_eq_iff bit_and_iff)
  then have "unat x OR unat y = unat x + unat y"
    by (simp add: disjunctive_add_eq_or)
  then show ?thesis by (simp add: unsigned_or_eq)
qed

text \<open>A field of \<open>n\<close> bits placed at bit \<open>p\<close>, and two adjacent fields joined.\<close>

lemma unat_place_field [to_nat]:
  fixes x :: "'a::len word"
  assumes "n + p \<le> LENGTH('a)"
  shows "unat (push_bit p (take_bit n x)) = unat x mod 2 ^ n * 2 ^ p"
proof -
  have "unat x mod 2 ^ n < 2 ^ n" by simp
  then have "unat x mod 2 ^ n * 2 ^ p < 2 ^ n * 2 ^ p"
    by (rule mult_strict_right_mono) simp
  also have "\<dots> \<le> 2 ^ LENGTH('a)"
    using assms by (simp flip: power_add)
  finally show ?thesis
    by (simp add: unat_push_bit_small unat_take_bit)
qed

lemma unat_join_fields:
  fixes x y :: "'a::len word"
  assumes "n + p \<le> LENGTH('a)" and "unat y < 2 ^ p"
  shows "unat (push_bit p (take_bit n x) OR y) = unat x mod 2 ^ n * 2 ^ p + unat y"
  using assms by (subst unat_or_disjoint [where n = p]) (simp_all add: unat_place_field)

lemma field_below:
  fixes a b :: nat
  assumes "a < 2 ^ n" and "b < 2 ^ p"
  shows "a * 2 ^ p + b < 2 ^ (n + p)"
proof -
  from assms(1) have "Suc a \<le> 2 ^ n" by simp
  then have "Suc a * 2 ^ p \<le> 2 ^ n * 2 ^ p" by (rule mult_le_mono1)
  with assms(2) show ?thesis by (simp add: power_add)
qed

text \<open>Shifting an accumulator and or-ing in a short value appends it as a digit.\<close>

lemma push_digit:
  fixes acc v :: "'a::len word"
  assumes "unat v < 2 ^ k"
  shows "push_bit k acc OR v = word_of_nat (unat acc * 2 ^ k + unat v)"
proof -
  have "take_bit k v = v" by (rule take_bit_below [OF assms])
  then have "bit v n \<Longrightarrow> n < k" for n
    by (metis bit_take_bit_iff)
  then have "push_bit k acc AND v = 0"
    by (auto intro!: bit_word_eqI simp: bit_and_iff bit_push_bit_iff) (meson not_le)
  then have "push_bit k acc OR v = push_bit k acc + v"
    by (simp add: disjunctive_add_eq_or)
  then show ?thesis by (simp add: push_bit_eq_mult)
qed

text \<open>Numbers composed of a high part and a low part below \<open>B\<close> compare lexicographically.\<close>

lemma compose_less_iff:
  fixes h h' l l' B :: nat
  assumes "l < B" and "l' < B"
  shows "h * B + l < h' * B + l' \<longleftrightarrow> h < h' \<or> h = h' \<and> l < l'"
proof (cases h h' rule: linorder_cases)
  case less
  then have "Suc h * B \<le> h' * B" by (intro mult_le_mono1) simp
  with assms less show ?thesis by simp
next
  case greater
  then have "Suc h' * B \<le> h * B" by (intro mult_le_mono1) simp
  with assms greater show ?thesis by simp
qed simp

lemma compose_eq_iff:
  fixes h h' l l' B :: nat
  assumes "l < B" and "l' < B"
  shows "h * B + l = h' * B + l' \<longleftrightarrow> h = h' \<and> l = l'"
  using compose_less_iff [OF assms, of h h'] compose_less_iff [OF assms(2,1), of h' h]
  by (metis linorder_neq_iff)

lemma compose_div_mod:
  fixes h l B :: nat
  assumes "l < B"
  shows "(h * B + l) div B = h" and "(h * B + l) mod B = l"
  using assms by simp_all

subsection \<open>Increasing lists\<close>

lemma strict_sorted_last:
  fixes x :: "'a::linorder"
  assumes "sorted_wrt (<) (x # xs)"
  shows "x \<le> last (x # xs)" and "\<forall>y \<in> set xs. y \<le> last (x # xs)"
proof -
  have "\<forall>y \<in> set (x # xs). y \<le> last (x # xs)"
    using assms by (induction xs arbitrary: x) fastforce+
  then show "x \<le> last (x # xs)" and "\<forall>y \<in> set xs. y \<le> last (x # xs)" by simp_all
qed

end
