(* ===== verification/Positional.thy ===== *)
theory Positional
  imports Prelude "HOL-Library.List_Lexorder"
begin

text \<open>
  Positional notation with a fixed number of digits, most significant digit first. It is the
  reference against which the byte conversions (radix 256) and the Crockford codec (radix
  32) are proved; both are interpretations of the locale \<open>radix\<close>.
\<close>

fun digits :: "nat \<Rightarrow> nat \<Rightarrow> nat \<Rightarrow> nat list" where
  "digits B 0 v = []"
| "digits B (Suc n) v = digits B n (v div B) @ [v mod B]"

definition undigits :: "nat \<Rightarrow> nat list \<Rightarrow> nat" where
  "undigits B ds = foldl (\<lambda>v d. v * B + d) 0 ds"

lemma length_digits [simp]: "length (digits B n v) = n"
  by (induction n arbitrary: v) simp_all

lemma undigits_Nil [simp]: "undigits B [] = 0"
  by (simp add: undigits_def)

lemma undigits_snoc [simp]: "undigits B (ds @ [d]) = undigits B ds * B + d"
  by (simp add: undigits_def)

lemma undigits_append: "undigits B (xs @ ys) = undigits B xs * B ^ length ys + undigits B ys"
  by (induction ys rule: rev_induct) (simp_all add: algebra_simps flip: append_assoc)

lemma undigits_Cons: "undigits B (x # xs) = x * B ^ length xs + undigits B xs"
  using undigits_append [of B "[x]" xs] by (simp add: undigits_def)

locale radix =
  fixes B :: nat
  assumes base: "1 < B"
begin

lemma digits_below: "d \<in> set (digits B n v) \<Longrightarrow> d < B"
  using base by (induction n arbitrary: v) auto

lemma undigits_digits: "undigits B (digits B n v) = v mod B ^ n"
  by (induction n arbitrary: v) (simp_all add: mod_mult2_eq mult.commute)

lemma undigits_below: "\<forall>d \<in> set ds. d < B \<Longrightarrow> undigits B ds < B ^ length ds"
proof (induction ds rule: rev_induct)
  case (snoc d ds)
  then have "undigits B ds < B ^ length ds" and "d < B" by simp_all
  then have "Suc (undigits B ds) * B \<le> B ^ length ds * B" by (intro mult_le_mono1) simp
  with \<open>d < B\<close> show ?case by (simp add: mult.commute)
qed simp

lemma digits_undigits: "\<forall>d \<in> set ds. d < B \<Longrightarrow> digits B (length ds) (undigits B ds) = ds"
proof (induction ds rule: rev_induct)
  case (snoc d ds)
  then have "(undigits B ds * B + d) div B = undigits B ds" "(undigits B ds * B + d) mod B = d"
    by (simp_all add: compose_div_mod)
  with snoc.IH snoc.prems show ?case
    by (simp only: length_append_singleton digits.simps undigits_snoc) simp
qed simp

lemma undigits_inject:
  assumes "length xs = length ys" and "\<forall>d \<in> set xs. d < B" and "\<forall>d \<in> set ys. d < B"
    and "undigits B xs = undigits B ys"
  shows "xs = ys"
  using digits_undigits [OF assms(2)] digits_undigits [OF assms(3)] assms(1,4) by metis

text \<open>The lexicographic order of digit strings is the order of the numbers.\<close>

lemma undigits_less_iff:
  "length xs = length ys \<Longrightarrow> \<forall>d \<in> set xs. d < B \<Longrightarrow> \<forall>d \<in> set ys. d < B \<Longrightarrow>
     undigits B xs < undigits B ys \<longleftrightarrow> xs < ys"
proof (induction xs ys rule: list_induct2)
  case (Cons x xs y ys)
  have "undigits B xs < B ^ length xs" and "undigits B ys < B ^ length xs"
    using undigits_below [of xs] undigits_below [of ys] Cons.hyps Cons.prems by simp_all
  with Cons show ?case
    by (simp add: undigits_Cons compose_less_iff)
qed simp

lemma digits_less_iff:
  assumes "v < B ^ n" and "w < B ^ n"
  shows "digits B n v < digits B n w \<longleftrightarrow> v < w"
  using undigits_less_iff [of "digits B n v" "digits B n w"] digits_below assms
  by (simp add: undigits_digits)

end

interpretation radix256: radix 256
  by unfold_locales simp

interpretation radix32: radix 32
  by unfold_locales simp

text \<open>Lexicographic order is kept by a strictly monotone map of the elements.\<close>

lemma map_less_iff_mono:
  fixes f :: "'a::linorder \<Rightarrow> 'b::linorder"
  assumes "\<And>x y. x \<in> S \<Longrightarrow> y \<in> S \<Longrightarrow> f x < f y \<longleftrightarrow> x < y"
  shows "length xs = length ys \<Longrightarrow> set xs \<subseteq> S \<Longrightarrow> set ys \<subseteq> S \<Longrightarrow>
     map f xs < map f ys \<longleftrightarrow> xs < ys"
proof (induction xs ys rule: list_induct2)
  case (Cons x xs y ys)
  then have xy: "x \<in> S" "y \<in> S" by simp_all
  have "f x = f y \<longleftrightarrow> x = y"
    using assms [OF xy] assms [OF xy(2,1)] by (metis less_irrefl neq_iff)
  with Cons assms [OF xy] show ?case by simp
qed simp

end
