(* ===== verification/Be_Bytes.thy ===== *)
theory Be_Bytes
  imports Positional
begin

text \<open>
  The trait \<open>BeBytes\<close> of \<^verbatim>\<open>crates/ferroid/src/id/be_bytes.rs\<close>: sizes in bytes and in
  Base32 characters, and the conversion of the backing integers (\<open>u32\<close>, \<open>u64\<close>,
  \<open>u128\<close>) to and from big-endian bytes, with the little-endian conversion the gRPC
  server uses. Interface \<open>fixed_codec\<close>: a fixed-width encoding that decoding undoes,
  and what follows for a buffer packed with many items.
\<close>

subsection \<open>Sizes and conversions\<close>

definition base32_size :: "nat \<Rightarrow> nat" where
  "base32_size n = (n * 8 + 4) div 5"

definition be_SIZE :: "'a::len itself \<Rightarrow> nat" where
  "be_SIZE ty = LENGTH('a) div 8"

definition be_BASE32_SIZE :: "'a::len itself \<Rightarrow> nat" where
  "be_BASE32_SIZE ty = base32_size (be_SIZE ty)"

definition to_be_bytes :: "'a::len word \<Rightarrow> bytes" where
  "to_be_bytes x = map (\<lambda>i. ucast (drop_bit (8 * i) x)) (rev [0 ..< be_SIZE TYPE('a)])"

definition from_be_bytes :: "bytes \<Rightarrow> 'a::len word" where
  "from_be_bytes bs = foldl (\<lambda>acc b. push_bit 8 acc OR ucast b) 0 bs"

definition to_le_bytes :: "'a::len word \<Rightarrow> bytes" where
  "to_le_bytes x = map (\<lambda>i. ucast (drop_bit (8 * i) x)) [0 ..< be_SIZE TYPE('a)]"

definition from_le_bytes :: "bytes \<Rightarrow> 'a::len word" where
  "from_le_bytes bs = from_be_bytes (rev bs)"

subsection \<open>Fixed-width codecs\<close>

text \<open>Splitting a packed buffer into items of \<open>w\<close> bytes.\<close>

fun unpack :: "nat \<Rightarrow> (bytes \<Rightarrow> 'x) \<Rightarrow> nat \<Rightarrow> bytes \<Rightarrow> 'x list" where
  "unpack w dec 0 bs = []"
| "unpack w dec (Suc n) bs = dec (take w bs) # unpack w dec n (drop w bs)"

locale fixed_codec =
  fixes w :: nat and enc :: "'x \<Rightarrow> bytes" and dec :: "bytes \<Rightarrow> 'x"
  assumes enc_width: "length (enc x) = w"
    and dec_enc: "dec (enc x) = x"
begin

lemma enc_inject: "enc x = enc y \<longleftrightarrow> x = y"
  by (metis dec_enc)

lemma length_packed: "length (concat (map enc xs)) = w * length xs"
  by (induction xs) (simp_all add: enc_width)

lemma unpack_packed: "unpack w dec (length xs) (concat (map enc xs)) = xs"
  by (induction xs) (simp_all add: enc_width dec_enc)

lemma packed_inject:
  "length xs = length ys \<Longrightarrow> concat (map enc xs) = concat (map enc ys) \<longleftrightarrow> xs = ys"
  by (metis unpack_packed)

end

subsection \<open>The conversions are the radix-256 notation\<close>

lemma unat_ucast_u8: "unat (ucast x :: u8) = unat (x :: 'a::len word) mod 256"
  by (simp add: unsigned_ucast_eq take_bit_eq_mod)

lemma length_to_be_bytes [simp]: "length (to_be_bytes (x :: 'a::len word)) = be_SIZE TYPE('a)"
  by (simp add: to_be_bytes_def)

lemma digits_256_shift: "digits 256 n v = map (\<lambda>i. v div 256 ^ i mod 256) (rev [0..<n])"
proof (induction n arbitrary: v)
  case (Suc n)
  have "rev [0..<Suc n] = map Suc (rev [0..<n]) @ [0]"
    by (simp add: rev_map [symmetric] map_Suc_upt upt_conv_Cons del: upt_Suc)
  with Suc show ?case by (simp add: div_mult2_eq del: upt_Suc)
qed simp

lemma to_be_bytes_digits:
  fixes x :: "'a::len word"
  shows "map unat (to_be_bytes x) = digits 256 (be_SIZE TYPE('a)) (unat x)"
proof -
  have "(2 :: nat) ^ (8 * i) = 256 ^ i" for i by (simp add: power_mult)
  then show ?thesis
    by (simp add: to_be_bytes_def digits_256_shift comp_def unat_ucast_u8 unat_drop_bit)
qed

lemma pow_256_SIZE:
  assumes "8 dvd LENGTH('a::len)"
  shows "(256 :: nat) ^ be_SIZE TYPE('a) = 2 ^ LENGTH('a)"
  using assms by (auto simp: be_SIZE_def power_mult elim!: dvdE)

lemma undigits_to_be_bytes:
  fixes x :: "'a::len word"
  assumes "8 dvd LENGTH('a)"
  shows "undigits 256 (map unat (to_be_bytes x)) = unat x"
  by (simp add: to_be_bytes_digits radix256.undigits_digits pow_256_SIZE [OF assms])

lemma unat_u8_less [simp]: "unat (b :: u8) < 256"
  using unsigned_less [of b] by simp

lemma unat_ucast_byte:
  assumes "8 \<le> LENGTH('a::len)"
  shows "unat (ucast (b :: u8) :: 'a word) = unat b"
proof -
  have "(256 :: nat) = 2 ^ 8" by simp
  also have "\<dots> \<le> 2 ^ LENGTH('a)" using assms by (rule power_increasing) simp
  finally have "unat b < 2 ^ LENGTH('a)"
    using unat_u8_less [of b] by (rule order_less_le_trans [rotated])
  then show ?thesis by (simp add: unsigned_ucast_eq take_bit_nat_eq_self)
qed

lemma from_be_bytes_value:
  assumes "8 \<le> LENGTH('a::len)"
  shows "(from_be_bytes bs :: 'a word) = word_of_nat (undigits 256 (map unat bs))"
proof (induction bs rule: rev_induct)
  case Nil
  show ?case by (simp add: from_be_bytes_def)
next
  case (snoc b bs)
  have "(from_be_bytes (bs @ [b]) :: 'a word) = push_bit 8 (from_be_bytes bs) OR ucast b"
    by (simp add: from_be_bytes_def)
  also have "\<dots> = word_of_nat (unat (from_be_bytes bs :: 'a word) * 2 ^ 8 + unat b)"
    by (subst push_digit) (simp_all add: unat_ucast_byte [OF assms])
  also have "\<dots> = from_be_bytes bs * 256 + word_of_nat (unat b)"
    by simp
  finally show ?case
    by (simp add: snoc)
qed

lemma from_to_be_bytes:
  fixes x :: "'a::len word"
  assumes "8 \<le> LENGTH('a)" and "8 dvd LENGTH('a)"
  shows "from_be_bytes (to_be_bytes x) = x"
  by (simp add: from_be_bytes_value [OF assms(1)] undigits_to_be_bytes [OF assms(2)])

lemma to_le_bytes_eq_rev: "to_le_bytes x = rev (to_be_bytes x)"
  by (simp add: to_le_bytes_def to_be_bytes_def rev_map)

lemma from_to_le_bytes:
  fixes x :: "'a::len word"
  assumes "8 \<le> LENGTH('a)" and "8 dvd LENGTH('a)"
  shows "from_le_bytes (to_le_bytes x) = x"
  using from_to_be_bytes [OF assms] by (simp add: from_le_bytes_def to_le_bytes_eq_rev)

lemma to_from_be_bytes:
  assumes "length bs = be_SIZE TYPE('a::len)" and "8 \<le> LENGTH('a)" and "8 dvd LENGTH('a)"
  shows "to_be_bytes (from_be_bytes bs :: 'a word) = bs"
proof -
  have below: "\<forall>d \<in> set (map unat bs). d < 256" by simp
  have p: "(256 :: nat) ^ length bs = 2 ^ LENGTH('a)"
    using assms(1) pow_256_SIZE [OF assms(3)] by simp
  have "unat (from_be_bytes bs :: 'a word) = undigits 256 (map unat bs)"
    using radix256.undigits_below [OF below] p
    by (simp add: from_be_bytes_value [OF assms(2)] unat_of_nat)
  then have "map unat (to_be_bytes (from_be_bytes bs :: 'a word)) = map unat bs"
    using radix256.digits_undigits [OF below] assms(1) by (simp add: to_be_bytes_digits)
  then show ?thesis
    by (rule map_injective) (simp add: inj_def word_unat_eq_iff)
qed

text \<open>Big-endian bytes compare, byte by byte, as the integers do.\<close>

lemma to_be_bytes_less_iff:
  fixes x y :: "'a::len word"
  assumes "8 dvd LENGTH('a)"
  shows "to_be_bytes x < to_be_bytes y \<longleftrightarrow> x < y"
proof -
  have "to_be_bytes x < to_be_bytes y \<longleftrightarrow>
      map unat (to_be_bytes x) < map unat (to_be_bytes y)"
    by (rule map_less_iff_mono [where S = UNIV, symmetric]) (simp_all add: word_less_nat_alt)
  also have "\<dots> \<longleftrightarrow> x < y"
    by (simp add: to_be_bytes_digits radix256.digits_less_iff pow_256_SIZE [OF assms]
        word_less_nat_alt)
  finally show ?thesis .
qed

interpretation be64: fixed_codec 8 "to_be_bytes :: u64 \<Rightarrow> bytes" from_be_bytes
  by unfold_locales (simp_all add: from_to_be_bytes be_SIZE_def)

interpretation be128: fixed_codec 16 "to_be_bytes :: u128 \<Rightarrow> bytes" from_be_bytes
  by unfold_locales (simp_all add: from_to_be_bytes be_SIZE_def)

interpretation le64: fixed_codec 8 "to_le_bytes :: u64 \<Rightarrow> bytes" from_le_bytes
  by unfold_locales
    (simp_all add: from_le_bytes_def from_to_be_bytes to_le_bytes_eq_rev be_SIZE_def)

end
