(* ===== verification/Crockford.thy ===== *)
theory Crockford
  imports Be_Bytes
begin

text \<open>
  The Crockford Base32 codec of \<^verbatim>\<open>crates/ferroid/src/base32/crockford.rs\<close> and its
  errors (\<^verbatim>\<open>base32/error.rs\<close>). The accumulator of the encoder is a 64-bit
  \<open>usize\<close> that drops its high bits, the buffer writes are unchecked; the decoder works on
  the backing integer, four characters at a time, and postpones the search for an invalid
  byte to \<open>handle_error\<close>. Main results: the encoder writes exactly the radix-32 digits
  of its input without leaving the buffer, and the decoder is the inverse of it, with the
  first invalid byte reported. The sizes that \<open>encode_base32\<close> computes from the lengths of its
  arguments are numbers without a bound: the callers pass 4, 8 or 16 bytes.
\<close>

subsection \<open>Machine arithmetic on \<open>usize\<close> counters\<close>

definition usize_sub :: "build \<Rightarrow> nat \<Rightarrow> nat \<Rightarrow> nat res" where
  "usize_sub b x y =
     (if y \<le> x then Inr (x - y)
      else if b = Debug then Inl (Panic ''attempt to subtract with overflow'')
      else Inr (x + 2 ^ 64 - y))"

definition usize_add :: "build \<Rightarrow> nat \<Rightarrow> nat \<Rightarrow> nat res" where
  "usize_add b x y =
     (if x + y < 2 ^ 64 then Inr (x + y)
      else if b = Debug then Inl (Panic ''attempt to add with overflow'')
      else Inr (x + y - 2 ^ 64))"

definition usize_shr :: "build \<Rightarrow> usize \<Rightarrow> nat \<Rightarrow> usize res" where
  "usize_shr b x n =
     (if b = Debug \<and> 64 \<le> n then Inl (Panic ''attempt to shift right with overflow'')
      else Inr (drop_bit (n mod 64) x))"

subsection \<open>Tables\<close>

datatype 'e base32_error =
    DecodeInvalidLen nat
  | DecodeInvalidAscii u8 nat
  | DecodeOverflow 'e

definition INVALID_VALUE :: u8 where
  "INVALID_VALUE = 255"

definition BITS_PER_CHAR :: nat where
  "BITS_PER_CHAR = 5"

text \<open>\<open>*b"0123456789ABCDEFGHJKMNPQRSTVWXYZ"\<close>, as bytes.\<close>

definition ENCODE_LUT :: bytes where
  "ENCODE_LUT =
     [48, 49, 50, 51, 52, 53, 54, 55, 56, 57, 65, 66, 67, 68, 69, 70,
      71, 72, 74, 75, 77, 78, 80, 81, 82, 83, 84, 86, 87, 88, 89, 90]"

definition is_ascii_uppercase :: "u8 \<Rightarrow> bool" where
  "is_ascii_uppercase c \<longleftrightarrow> 65 \<le> c \<and> c \<le> 90"

text \<open>One round of the loop that fills the decoding table.\<close>

definition decode_lut_step :: "bytes \<Rightarrow> nat \<Rightarrow> bytes" where
  "decode_lut_step lut i =
     (let c = ENCODE_LUT ! i;
          lut = lut[unat c := word_of_nat i]
      in if is_ascii_uppercase c then lut[unat (c + 32) := word_of_nat i] else lut)"

definition DECODE_LUT :: bytes where
  "DECODE_LUT =
     (let lut = foldl decode_lut_step (replicate 256 INVALID_VALUE) [0..<32]
      in lut[79 := 0, 111 := 0, 73 := 1, 105 := 1, 76 := 1, 108 := 1])"

subsection \<open>Encoding\<close>

text \<open>The inner \<open>while bits >= BITS_PER_CHAR\<close>.\<close>

function encode_emit :: "build \<Rightarrow> usize \<Rightarrow> nat \<Rightarrow> nat \<Rightarrow> bytes \<Rightarrow> (nat \<times> nat \<times> bytes) res" where
  "encode_emit b acc bits out buf =
     (if BITS_PER_CHAR \<le> bits then
        and_then (usize_shr b acc (bits - BITS_PER_CHAR)) (\<lambda>shifted.
          if out < length buf
          then encode_emit b acc (bits - BITS_PER_CHAR) (out + 1)
                 (buf[out := ENCODE_LUT ! unat (shifted AND 0x1F)])
          else Inl (Undefined ''write outside the output buffer''))
      else Inr (bits, out, buf))"
  by pat_completeness auto
termination
  by (relation "measure (\<lambda>(b, acc, bits, out, buf). bits)") (auto simp: BITS_PER_CHAR_def)

declare encode_emit.simps [simp del]

fun encode_loop :: "build \<Rightarrow> bytes \<Rightarrow> usize \<Rightarrow> nat \<Rightarrow> nat \<Rightarrow> bytes \<Rightarrow> bytes res" where
  "encode_loop b [] acc bits out buf = Inr buf"
| "encode_loop b (c # cs) acc bits out buf =
     (let acc = push_bit 8 acc OR ucast c in
      and_then (usize_add b bits 8) (\<lambda>bits.
      and_then (encode_emit b acc bits out buf) (\<lambda>(bits, out, buf).
        encode_loop b cs acc bits out buf)))"

definition encode_base32 :: "build \<Rightarrow> bytes \<Rightarrow> bytes \<Rightarrow> bytes res" where
  "encode_base32 b input buf_slice =
     (let input_bits = length input * 8;
          output_chars = length buf_slice;
          total_bits = output_chars * BITS_PER_CHAR
      in and_then (usize_sub b total_bits input_bits) (\<lambda>bits.
           encode_loop b input 0 bits 0 buf_slice))"

subsection \<open>Decoding\<close>

definition lut_value :: "u8 \<Rightarrow> u8" where
  "lut_value c = DECODE_LUT ! unat c"

definition push_char :: "'a::len word \<Rightarrow> u8 \<Rightarrow> 'a word" where
  "push_char acc v = push_bit BITS_PER_CHAR acc OR ucast v"

fun decode_remainder :: "bytes \<Rightarrow> 'a::len word \<Rightarrow> bool \<Rightarrow> 'a word \<times> bool" where
  "decode_remainder [] acc has_error = (acc, has_error)"
| "decode_remainder (c # cs) acc has_error =
     (let v = lut_value c
      in decode_remainder cs (push_char acc v) (has_error \<or> v = INVALID_VALUE))"

text \<open>\<open>chunks_exact(4)\<close> and its remainder.\<close>

fun decode_chunks :: "bytes \<Rightarrow> 'a::len word \<Rightarrow> bool \<Rightarrow> 'a word \<times> bool" where
  "decode_chunks (b0 # b1 # b2 # b3 # rest) acc has_error =
     (let v0 = lut_value b0; v1 = lut_value b1; v2 = lut_value b2; v3 = lut_value b3;
          acc = push_char acc v0;
          acc = push_char acc v1;
          acc = push_char acc v2;
          acc = push_char acc v3
      in decode_chunks rest acc (has_error \<or> (v0 OR v1 OR v2 OR v3) = INVALID_VALUE))"
| "decode_chunks rest acc has_error = decode_remainder rest acc has_error"

fun handle_error_from :: "nat \<Rightarrow> bytes \<Rightarrow> 'e base32_error res" where
  "handle_error_from i [] = Inl (Panic ''handle_error called but no invalid byte found'')"
| "handle_error_from i (c # cs) =
     (let v = lut_value c
      in if v = INVALID_VALUE then Inr (DecodeInvalidAscii c i) else handle_error_from (i + 1) cs)"

definition handle_error :: "bytes \<Rightarrow> 'e base32_error res" where
  "handle_error bs = handle_error_from 0 bs"

definition decode_base32 :: "bytes \<Rightarrow> ('e base32_error + 'a::len word) res" where
  "decode_base32 bs =
     (case decode_chunks bs 0 False of (acc, has_error) \<Rightarrow>
        if has_error then map_ok Inl (handle_error bs) else Inr (Inr acc))"

subsection \<open>Facts about the tables\<close>

lemma length_ENCODE_LUT [simp]: "length ENCODE_LUT = 32"
  by (simp add: ENCODE_LUT_def)

lemma DECODE_LUT_eq:
  "DECODE_LUT =
     replicate 48 255 @ [0, 1, 2, 3, 4, 5, 6, 7, 8, 9] @ replicate 7 255 @
     [10, 11, 12, 13, 14, 15, 16, 17, 1, 18, 19, 1, 20, 21, 0, 22, 23, 24, 25, 26, 255, 27,
      28, 29, 30, 31] @ replicate 6 255 @
     [10, 11, 12, 13, 14, 15, 16, 17, 1, 18, 19, 1, 20, 21, 0, 22, 23, 24, 25, 26, 255, 27,
      28, 29, 30, 31] @ replicate 133 255"
  by code_simp

lemma DECODE_LUT_values: "v \<in> set DECODE_LUT \<Longrightarrow> v = INVALID_VALUE \<or> unat v < 32"
proof -
  have "\<forall>v \<in> set DECODE_LUT. v = 255 \<or> unat v < 32"
    by (simp add: DECODE_LUT_eq)
  then show "v \<in> set DECODE_LUT \<Longrightarrow> v = INVALID_VALUE \<or> unat v < 32"
    by (simp add: INVALID_VALUE_def)
qed

lemma length_DECODE_LUT [simp]: "length DECODE_LUT = 256"
  by (simp add: DECODE_LUT_eq)

lemma lut_value_cases: "lut_value c = INVALID_VALUE \<or> unat (lut_value c) < 32"
  by (rule DECODE_LUT_values) (simp add: lut_value_def)

lemma decode_encode_char: "i < 32 \<Longrightarrow> lut_value (ENCODE_LUT ! i) = word_of_nat i"
proof -
  have "\<forall>i \<in> set [0..<32]. lut_value (ENCODE_LUT ! i) = word_of_nat i"
    by code_simp
  then show "i < 32 \<Longrightarrow> lut_value (ENCODE_LUT ! i) = word_of_nat i" by simp
qed

lemma ENCODE_LUT_mono:
  "i < 32 \<Longrightarrow> j < 32 \<Longrightarrow> ENCODE_LUT ! i < ENCODE_LUT ! j \<longleftrightarrow> i < j"
proof -
  have "sorted_wrt (<) ENCODE_LUT"
    by code_simp
  then show "i < 32 \<Longrightarrow> j < 32 \<Longrightarrow> ENCODE_LUT ! i < ENCODE_LUT ! j \<longleftrightarrow> i < j"
    by (metis length_ENCODE_LUT linorder_neqE_nat order_less_asym sorted_wrt_nth_less)
qed

subsection \<open>The encoder writes the radix-32 digits\<close>

definition chars :: "nat list \<Rightarrow> bytes" where
  "chars ds = map (\<lambda>d. ENCODE_LUT ! d) ds"

lemma length_chars [simp]: "length (chars ds) = length ds"
  by (simp add: chars_def)

lemma chars_append [simp]: "chars (xs @ ys) = chars xs @ chars ys"
  by (simp add: chars_def)

lemma usize_digit:
  assumes "k + 5 \<le> 64"
  shows "unat (drop_bit k (word_of_nat v :: usize) AND 0x1F) = v div 2 ^ k mod 32"
proof -
  have m: "(0x1F :: usize) = bit_mask 5" by (simp add: bit_mask_def)
  have "unat (drop_bit k (word_of_nat v :: usize) AND 0x1F) =
      v mod 2 ^ LENGTH(64) div 2 ^ k mod 2 ^ 5"
    by (simp only: m and_bit_mask unat_take_bit unat_drop_bit unat_of_nat)
  also have "\<dots> = take_bit 5 (drop_bit k (take_bit 64 v))"
    by (simp add: take_bit_eq_mod drop_bit_eq_div)
  also have "\<dots> = take_bit 5 (drop_bit k v)"
  proof -
    have "min 5 (64 - k) = 5" using assms by simp
    then show ?thesis by (simp add: drop_bit_take_bit)
  qed
  finally show ?thesis by (simp add: take_bit_eq_mod drop_bit_eq_div)
qed

lemma usize_shr_small [simp]: "n < 64 \<Longrightarrow> usize_shr b x n = Inr (drop_bit n x)"
  by (simp add: usize_shr_def)

lemma usize_add_small [simp]: "x + y < 2 ^ 64 \<Longrightarrow> usize_add b x y = Inr (x + y)"
  by (simp add: usize_add_def)

lemma usize_sub_ok [simp]: "y \<le> x \<Longrightarrow> usize_sub b x y = Inr (x - y)"
  by (simp add: usize_sub_def)

lemma digits_32_snoc:
  assumes "5 \<le> bits"
  shows "digits 32 (Suc n) (v div 2 ^ (bits - 5)) =
    digits 32 n (v div 2 ^ bits) @ [v div 2 ^ (bits - 5) mod 32]"
proof -
  have "(2 :: nat) ^ bits = 2 ^ (bits - 5) * 32"
    using assms power_add [of "2 :: nat" "bits - 5" 5] by simp
  then show ?thesis by (simp add: div_mult2_eq)
qed

lemma encode_emit_digits:
  assumes "bits \<le> 12" and "bits div 5 \<le> length rest"
  shows "encode_emit b (word_of_nat v) bits n (chars (digits 32 n (v div 2 ^ bits)) @ rest) =
    Inr (bits mod 5, n + bits div 5,
         chars (digits 32 (n + bits div 5) (v div 2 ^ (bits mod 5))) @ drop (bits div 5) rest)"
  using assms
proof (induction bits arbitrary: n rest rule: less_induct)
  case (less bits)
  show ?case
  proof (cases "5 \<le> bits")
    case False
    then show ?thesis
      by (simp add: encode_emit.simps [of b "word_of_nat v" bits] BITS_PER_CHAR_def)
  next
    case True
    then have q: "bits div 5 = Suc ((bits - 5) div 5)" "bits mod 5 = (bits - 5) mod 5"
      by (simp_all add: le_div_geq le_mod_geq)
    with less.prems obtain r rest' where rest: "rest = r # rest'" "(bits - 5) div 5 \<le> length rest'"
      by (cases rest) auto
    let ?buf = "chars (digits 32 n (v div 2 ^ bits))"
    have upd: "(?buf @ r # rest')[n := ENCODE_LUT ! (v div 2 ^ (bits - 5) mod 32)] =
        chars (digits 32 (Suc n) (v div 2 ^ (bits - 5))) @ rest'"
      using list_update_length [of ?buf r rest'] digits_32_snoc [OF True, of n v]
      by (simp add: chars_def)
    have "encode_emit b (word_of_nat v) bits n (?buf @ rest) =
        encode_emit b (word_of_nat v) (bits - 5) (Suc n)
          (chars (digits 32 (Suc n) (v div 2 ^ (bits - 5))) @ rest')"
      using True less.prems
      by (simp add: encode_emit.simps [of b "word_of_nat v" bits] BITS_PER_CHAR_def usize_digit
          rest(1) upd del: digits.simps)
    also have "\<dots> = Inr ((bits - 5) mod 5, Suc n + (bits - 5) div 5,
         chars (digits 32 (Suc n + (bits - 5) div 5) (v div 2 ^ ((bits - 5) mod 5))) @
         drop ((bits - 5) div 5) rest')"
      using True less.prems rest by (intro less.IH) simp_all
    finally show ?thesis
      using q rest(1) by simp
  qed
qed

lemma encode_loop_digits:
  assumes "bits < 5" and "length rest = (bits + 8 * length cs) div 5"
  shows "encode_loop b cs (word_of_nat v) bits n (chars (digits 32 n (v div 2 ^ bits)) @ rest) =
    Inr (chars (digits 32 (n + length rest)
      ((v * 256 ^ length cs + undigits 256 (map unat cs)) div 2 ^ ((bits + 8 * length cs) mod 5))))"
  using assms
proof (induction cs arbitrary: v bits n rest)
  case Nil
  then show ?case by simp
next
  case (Cons c cs)
  let ?v = "v * 256 + unat c" and ?q = "(bits + 8) div 5" and ?r = "(bits + 8) mod 5"
  have acc: "push_bit 8 (word_of_nat v) OR ucast c = (word_of_nat ?v :: usize)"
    by (subst push_digit) (simp_all add: unat_ucast_byte)
  have dv: "v div 2 ^ bits = ?v div 2 ^ (bits + 8)"
  proof -
    have "(2 :: nat) ^ (bits + 8) = 256 * 2 ^ bits" by (simp add: power_add)
    then show ?thesis by (simp add: div_mult2_eq)
  qed
  have split: "(bits + 8 * length (c # cs)) div 5 = ?q + (?r + 8 * length cs) div 5"
    "(bits + 8 * length (c # cs)) mod 5 = (?r + 8 * length cs) mod 5"
    by (simp_all add: mod_simps) presburger+
  have emit: "encode_emit b (word_of_nat ?v) (bits + 8) n
      (chars (digits 32 n (v div 2 ^ bits)) @ rest) =
      Inr (?r, n + ?q, chars (digits 32 (n + ?q) (?v div 2 ^ ?r)) @ drop ?q rest)"
    using Cons.prems split(1) unfolding dv by (intro encode_emit_digits) simp_all
  have "encode_loop b (c # cs) (word_of_nat v) bits n
      (chars (digits 32 n (v div 2 ^ bits)) @ rest) =
      encode_loop b cs (word_of_nat ?v) ?r (n + ?q)
        (chars (digits 32 (n + ?q) (?v div 2 ^ ?r)) @ drop ?q rest)"
    using Cons.prems(1) by (simp add: Let_def acc emit del: of_nat_add of_nat_mult)
  also have "\<dots> = Inr (chars (digits 32 (n + ?q + length (drop ?q rest))
      ((?v * 256 ^ length cs + undigits 256 (map unat cs)) div 2 ^ ((?r + 8 * length cs) mod 5))))"
    using Cons.prems split(1) by (intro Cons.IH) simp_all
  finally show ?case
    using Cons.prems(2) split by (simp add: undigits_Cons algebra_simps)
qed

theorem encode_base32_digits:
  assumes "length buf = base32_size (length input)"
  shows "encode_base32 b input buf =
    Inr (chars (digits 32 (length buf) (undigits 256 (map unat input))))"
proof -
  let ?bits = "length buf * 5 - length input * 8"
  have le: "length input * 8 \<le> length buf * 5" and lt: "?bits < 5"
    using assms unfolding base32_size_def by linarith+
  have "encode_loop b input (word_of_nat 0) ?bits 0 (chars (digits 32 0 (0 div 2 ^ ?bits)) @ buf) =
    Inr (chars (digits 32 (0 + length buf)
      ((0 * 256 ^ length input + undigits 256 (map unat input)) div
        2 ^ ((?bits + 8 * length input) mod 5))))"
    using le lt by (intro encode_loop_digits) simp_all
  moreover have "(?bits + 8 * length input) mod 5 = 0" using le by simp
  ultimately show ?thesis
    using le by (simp add: encode_base32_def BITS_PER_CHAR_def chars_def)
qed

subsection \<open>The decoder reads them back\<close>

definition decode_digits :: "bytes \<Rightarrow> nat list" where
  "decode_digits bs = map (\<lambda>c. unat (lut_value c)) bs"

definition has_invalid :: "bytes \<Rightarrow> bool" where
  "has_invalid bs \<longleftrightarrow> (\<exists>c \<in> set bs. lut_value c = INVALID_VALUE)"

lemma decode_remainder_eq:
  "decode_remainder bs acc e =
     (foldl push_char acc (map lut_value bs), e \<or> has_invalid bs)"
  by (induction bs arbitrary: acc e) (auto simp: has_invalid_def Let_def)

lemma or_is_invalid_iff:
  assumes "\<And>v. v \<in> {v0, v1, v2, v3} \<Longrightarrow> v = INVALID_VALUE \<or> unat v < 32"
  shows "(v0 OR v1 OR v2 OR v3) = INVALID_VALUE \<longleftrightarrow>
    v0 = INVALID_VALUE \<or> v1 = INVALID_VALUE \<or> v2 = INVALID_VALUE \<or> v3 = INVALID_VALUE"
proof -
  have ones: "INVALID_VALUE = (- 1 :: u8)" by (simp add: INVALID_VALUE_def)
  have low: "\<not> bit v 5" if "v \<in> {v0, v1, v2, v3}" and "v \<noteq> INVALID_VALUE" for v
  proof -
    have "take_bit 5 v = v" using assms that by (intro take_bit_below) auto
    then show ?thesis by (metis bit_take_bit_iff less_irrefl)
  qed
  show ?thesis
  proof (cases "v0 = INVALID_VALUE \<or> v1 = INVALID_VALUE \<or> v2 = INVALID_VALUE \<or> v3 = INVALID_VALUE")
    case True
    then show ?thesis by (auto simp: ones)
  next
    case False
    then have "\<not> bit (v0 OR v1 OR v2 OR v3) 5" using low by (simp add: bit_or_iff)
    moreover have "bit (INVALID_VALUE) 5" by (simp add: INVALID_VALUE_def)
    ultimately show ?thesis using False by metis
  qed
qed

lemma decode_chunks_eq:
  "decode_chunks bs acc e = (foldl push_char acc (map lut_value bs), e \<or> has_invalid bs)"
proof (induction bs acc e rule: decode_chunks.induct)
  case (1 b0 b1 b2 b3 rest acc e)
  have "(lut_value b0 OR lut_value b1 OR lut_value b2 OR lut_value b3) = INVALID_VALUE \<longleftrightarrow>
      has_invalid [b0, b1, b2, b3]"
    by (subst or_is_invalid_iff) (use lut_value_cases in \<open>auto simp: has_invalid_def\<close>)
  with 1 show ?case by (auto simp: Let_def has_invalid_def)
qed (simp_all add: decode_remainder_eq Let_def)

lemma foldl_push_char:
  assumes "8 \<le> LENGTH('a::len)" and "\<not> has_invalid bs"
  shows "foldl push_char 0 (map lut_value bs) = (word_of_nat (undigits 32 (decode_digits bs)) :: 'a word)"
  using assms(2)
proof (induction bs rule: rev_induct)
  case Nil
  show ?case by (simp add: decode_digits_def)
next
  case (snoc c bs)
  then have "unat (lut_value c) < 32" and ok: "\<not> has_invalid bs"
    using lut_value_cases [of c] by (auto simp: has_invalid_def)
  then have "push_char acc (lut_value c) = word_of_nat (unat acc * 32 + unat (lut_value c))"
    for acc :: "'a word"
    unfolding push_char_def BITS_PER_CHAR_def
    by (subst push_digit) (simp_all only: unat_ucast_byte [OF assms(1)], simp_all)
  then show ?case
    using snoc.IH [OF ok] by (simp add: decode_digits_def)
qed

lemma handle_error_from_first:
  assumes "has_invalid bs"
  shows "\<exists>j < length bs. lut_value (bs ! j) = INVALID_VALUE \<and>
    (\<forall>k < j. lut_value (bs ! k) \<noteq> INVALID_VALUE) \<and>
    (handle_error_from i bs :: 'a base32_error res) = Inr (DecodeInvalidAscii (bs ! j) (i + j))"
  using assms
proof (induction bs arbitrary: i)
  case Nil
  then show ?case by (simp add: has_invalid_def)
next
  case (Cons c cs)
  show ?case
  proof (cases "lut_value c = INVALID_VALUE")
    case True
    then show ?thesis by (intro exI [of _ 0]) simp
  next
    case False
    with Cons.prems have "has_invalid cs" by (auto simp: has_invalid_def)
    from Cons.IH [OF this, of "i + 1"] obtain j where j: "j < length cs"
      "lut_value (cs ! j) = INVALID_VALUE" "\<forall>k < j. lut_value (cs ! k) \<noteq> INVALID_VALUE"
      "(handle_error_from (i + 1) cs :: 'a base32_error res) =
         Inr (DecodeInvalidAscii (cs ! j) (i + 1 + j))"
      by auto
    have "\<forall>k < Suc j. lut_value ((c # cs) ! k) \<noteq> INVALID_VALUE"
      using j(3) False by (simp add: All_less_Suc2)
    with False j show ?thesis by (intro exI [of _ "Suc j"]) simp
  qed
qed

lemma handle_error_is_ok: "has_invalid bs \<Longrightarrow> is_ok (handle_error bs :: 'e base32_error res)"
  using handle_error_from_first [of bs 0, where 'a = 'e] by (auto simp: handle_error_def)

lemma decode_base32_valid:
  assumes "8 \<le> LENGTH('a::len)" and "\<not> has_invalid bs"
  shows "decode_base32 bs = Inr (Inr (word_of_nat (undigits 32 (decode_digits bs)) :: 'a word))"
  using assms by (simp add: decode_base32_def decode_chunks_eq foldl_push_char)

lemma decode_base32_invalid:
  assumes "has_invalid bs"
  obtains j where "j < length bs" "lut_value (bs ! j) = INVALID_VALUE"
    "\<forall>k < j. lut_value (bs ! k) \<noteq> INVALID_VALUE"
    "decode_base32 bs = Inr (Inl (DecodeInvalidAscii (bs ! j) j) :: 'e base32_error + 'a::len word)"
proof -
  from handle_error_from_first [OF assms, of 0] obtain j where
    "j < length bs" "lut_value (bs ! j) = INVALID_VALUE"
    "\<forall>k < j. lut_value (bs ! k) \<noteq> INVALID_VALUE"
    "(handle_error bs :: 'e base32_error res) = Inr (DecodeInvalidAscii (bs ! j) j)"
    by (auto simp: handle_error_def)
  then show thesis
    using assms by (intro that [of j]) (simp_all add: decode_base32_def decode_chunks_eq)
qed

lemma chars_of_digits:
  assumes "\<forall>d \<in> set ds. d < 32"
  shows "decode_digits (chars ds) = ds" and "\<not> has_invalid (chars ds)"
proof -
  have v: "lut_value (ENCODE_LUT ! d) = word_of_nat d" "unat (word_of_nat d :: u8) = d"
    if "d < 32" for d
    using that by (simp_all add: decode_encode_char unat_of_nat)
  then show "decode_digits (chars ds) = ds"
    using assms by (auto simp: decode_digits_def chars_def intro!: map_idI)
  have "word_of_nat d \<noteq> INVALID_VALUE" if "d < 32" for d
  proof
    assume "word_of_nat d = INVALID_VALUE"
    then have "unat (word_of_nat d :: u8) = 255" by (simp add: INVALID_VALUE_def)
    with v(2) [OF that] that show False by simp
  qed
  then show "\<not> has_invalid (chars ds)"
    using assms v by (auto simp: has_invalid_def chars_def)
qed

subsection \<open>Reference decoder\<close>

text \<open>
  The published alphabet, one character at a time: case is ignored, \<open>O\<close> reads as zero,
  \<open>I\<close> and \<open>L\<close> read as one, \<open>U\<close> is not a digit. The reference scanner goes left
  to right and stops at the first bad byte.
\<close>

definition crockford_table :: "(u8 \<times> u8) list" where
  "crockford_table =
     [(48, 0), (49, 1), (50, 2), (51, 3), (52, 4), (53, 5), (54, 6), (55, 7), (56, 8), (57, 9),
      (65, 10), (66, 11), (67, 12), (68, 13), (69, 14), (70, 15), (71, 16), (72, 17), (74, 18),
      (75, 19), (77, 20), (78, 21), (80, 22), (81, 23), (82, 24), (83, 25), (84, 26), (86, 27),
      (87, 28), (88, 29), (89, 30), (90, 31)]"

definition crockford_value :: "u8 \<Rightarrow> u8 option" where
  "crockford_value c =
     (let u = (if 97 \<le> c \<and> c \<le> 122 then c - 32 else c);
          u = (if u = 79 then 48 else if u = 73 \<or> u = 76 then 49 else u)
      in map_of crockford_table u)"

fun crockford_scan :: "nat \<Rightarrow> bytes \<Rightarrow> nat \<Rightarrow> (u8 \<times> nat) + nat" where
  "crockford_scan i [] acc = Inr acc"
| "crockford_scan i (c # cs) acc =
     (case crockford_value c of
        None \<Rightarrow> Inl (c, i)
      | Some d \<Rightarrow> crockford_scan (i + 1) cs (acc * 32 + unat d))"

lemma DECODE_LUT_crockford:
  "DECODE_LUT = map (\<lambda>i. case crockford_value (word_of_int i) of
      None \<Rightarrow> INVALID_VALUE | Some d \<Rightarrow> d) [0..255]"
  unfolding DECODE_LUT_eq by code_simp

lemma lut_value_crockford:
  "lut_value c = (case crockford_value c of None \<Rightarrow> INVALID_VALUE | Some d \<Rightarrow> d)"
proof -
  have c: "unat c < 256" by (rule unat_u8_less)
  then have "[0..255] ! unat c = int (unat c)" by (subst nth_upto) linarith+
  with c show ?thesis by (simp add: lut_value_def DECODE_LUT_crockford)
qed

lemma crockford_value_below: "crockford_value c = Some d \<Longrightarrow> unat d < 32"
proof -
  have "\<forall>(c, d) \<in> set crockford_table. d < 32" by code_simp
  then show "crockford_value c = Some d \<Longrightarrow> unat d < 32"
    unfolding crockford_value_def Let_def
    by (auto dest!: map_of_SomeD simp: word_less_nat_alt)
qed

lemma lut_value_Some:
  assumes "crockford_value c = Some d"
  shows "lut_value c = d" and "lut_value c \<noteq> INVALID_VALUE"
  using assms crockford_value_below [OF assms]
  by (auto simp: lut_value_crockford INVALID_VALUE_def)

lemma lut_value_None: "crockford_value c = None \<Longrightarrow> lut_value c = INVALID_VALUE"
  by (simp add: lut_value_crockford)

lemma crockford_scan_valid:
  "\<not> has_invalid bs \<Longrightarrow>
     crockford_scan i bs acc = Inr (acc * 32 ^ length bs + undigits 32 (decode_digits bs))"
proof (induction bs arbitrary: i acc)
  case (Cons c cs)
  then obtain d where d: "crockford_value c = Some d"
    by (cases "crockford_value c") (auto simp: has_invalid_def lut_value_None)
  have "\<not> has_invalid cs" using Cons.prems by (simp add: has_invalid_def)
  with d Cons.IH show ?case
    by (simp add: decode_digits_def undigits_Cons lut_value_Some(1) algebra_simps)
qed (simp add: decode_digits_def)

lemma crockford_scan_invalid:
  "has_invalid bs \<Longrightarrow> \<exists>c j. crockford_scan i bs acc = Inl (c, j) \<and>
     (handle_error_from i bs :: 'e base32_error res) = Inr (DecodeInvalidAscii c j)"
proof (induction bs arbitrary: i acc)
  case (Cons c cs)
  show ?case
  proof (cases "crockford_value c")
    case None
    then show ?thesis by (simp add: lut_value_None)
  next
    case (Some d)
    with Cons.prems have "has_invalid cs" by (simp add: has_invalid_def lut_value_Some(2))
    with Cons.IH Some show ?thesis by (simp add: lut_value_Some(2))
  qed
qed (simp add: has_invalid_def)

lemma decode_base32_scan:
  assumes "8 \<le> LENGTH('a::len)"
  shows "decode_base32 bs = (Inr (case crockford_scan 0 bs 0 of
      Inl (c, i) \<Rightarrow> Inl (DecodeInvalidAscii c i)
    | Inr v \<Rightarrow> Inr (word_of_nat v)) :: ('e base32_error + 'a word) res)"
proof (cases "has_invalid bs")
  case True
  from crockford_scan_invalid [OF this, of 0 0, where 'e = 'e] obtain c j where
    "crockford_scan 0 bs 0 = Inl (c, j)"
    "(handle_error_from 0 bs :: 'e base32_error res) = Inr (DecodeInvalidAscii c j)"
    by blast
  with True show ?thesis by (simp add: decode_base32_def decode_chunks_eq handle_error_def)
next
  case False
  then show ?thesis
    by (simp add: decode_base32_valid [OF assms] crockford_scan_valid)
qed

subsection \<open>Properties\<close>

text \<open>C10: \<open>encode_base32\<close> into a buffer of \<open>base32_size\<close> bytes never panics and never
  writes outside the buffer, in either build, although its 64-bit accumulator drops its high
  bits: the buffer holds the radix-32 digits of the big-endian number in the Crockford alphabet,
  whatever it held before.\<close>

theorem encode_base32_is_radix_32:
  assumes "length buf = base32_size (length input)"
  shows "encode_base32 b input buf =
    Inr (map (\<lambda>d. ENCODE_LUT ! d) (digits 32 (length buf) (undigits 256 (map unat input))))"
  using encode_base32_digits [OF assms] by (simp add: chars_def)

theorem encode_base32_is_radix_32_witness:
  "encode_base32 Debug [255, 255] [0, 0, 0, 0] =
    Inr [ENCODE_LUT ! 1, ENCODE_LUT ! 31, ENCODE_LUT ! 31, ENCODE_LUT ! 31]"
proof -
  have "length [0, 0, 0, 0 :: u8] = base32_size (length [255, 255 :: u8])" by code_simp
  moreover have "digits 32 (length [0, 0, 0, 0 :: u8]) (undigits 256 (map unat [255, 255 :: u8])) =
      [1, 31, 31, 31]"
    by (simp add: undigits_Cons)
  ultimately show ?thesis
    using encode_base32_is_radix_32 [of "[0, 0, 0, 0]" "[255, 255]" Debug] by simp
qed

text \<open>C5: \<open>decode_base32\<close>, which works through a table four bytes at a time and looks for
  an invalid byte only at the end, agrees on every input with the reference scanner: it reports
  the first byte outside the alphabet and its index, or returns the value of the digits reduced
  to the width of the backing integer. \<open>handle_error\<close> never reaches its \<open>unreachable!\<close>.\<close>

theorem decode_base32_eq_reference:
  assumes "8 \<le> LENGTH('a::len)"
  shows "decode_base32 bs = (Inr (case crockford_scan 0 bs 0 of
      Inl (c, i) \<Rightarrow> Inl (DecodeInvalidAscii c i)
    | Inr v \<Rightarrow> Inr (word_of_nat v)) :: ('e base32_error + 'a word) res)"
  using assms by (rule decode_base32_scan)

theorem decode_base32_eq_reference_witness:
  "decode_base32 [79, 108, 122, 85, 33] =
     (Inr (Inl (DecodeInvalidAscii 85 3)) :: (unit base32_error + u64) res)"
proof -
  have "crockford_value 79 = Some 0" "crockford_value 108 = Some 1"
    "crockford_value 122 = Some 31" "crockford_value 85 = None"
    by code_simp+
  then have "crockford_scan 0 [79, 108, 122, 85, 33] 0 = Inl (85, 3)" by simp
  then show ?thesis
    by (simp add: decode_base32_eq_reference [where 'a = 64])
qed

end
