(* ===== verification/Id_Interface.thy ===== *)
theory Id_Interface
  imports Prelude
begin

text \<open>
  What the rest of the program relies on about identifiers, as an interface: the order that
  \<^verbatim>\<open>derive(PartialOrd, Ord)\<close> puts on the newtype over the backing integer agrees with
  the time of the identifier first and its payload (sequence or random part) second, as
  long as both come from the same origin (machine). The generators are clients of this
  interface; the Snowflake and ULID layouts provide it. The theory also holds the
  conversions of \<^verbatim>\<open>crates/ferroid/src/id/to_u64.rs\<close>.
\<close>

subsection \<open>Conversion to 64 bits\<close>

text \<open>\<open>ToU64\<close> for the widths up to 64 bits is the lossless \<open>u64::from\<close>.\<close>

definition to_u64_from :: "'a::len word \<Rightarrow> u64" where
  "to_u64_from x = ucast x"

definition to_u64_u128 :: "u128 \<Rightarrow> u64" where
  "to_u64_u128 x = (if unat x < 2 ^ 64 then ucast x else - 1)"

lemma unat_to_u64_from:
  assumes "LENGTH('a::len) \<le> 64"
  shows "unat (to_u64_from (x :: 'a word)) = unat x"
proof -
  have "unat x < 2 ^ LENGTH('a)" by (rule unsigned_less)
  also have "\<dots> \<le> 2 ^ 64" using assms by (rule power_increasing) simp
  finally show ?thesis
    by (simp add: to_u64_from_def unsigned_ucast_eq take_bit_nat_eq_self)
qed

lemma unat_to_u64_u128: "unat (to_u64_u128 x) = min (unat x) (2 ^ 64 - 1)"
proof (cases "unat x < 2 ^ 64")
  case True
  then have "unat (ucast x :: u64) = unat x"
    by (simp add: unsigned_ucast_eq take_bit_nat_eq_self)
  with True show ?thesis by (simp add: to_u64_u128_def)
next
  case False
  then show ?thesis
    by (simp add: to_u64_u128_def unsigned_minus_1_eq_mask mask_eq_exp_minus_1)
qed

subsection \<open>Time-sorted identifiers\<close>

locale time_sorted_id =
  fixes tick :: "'id::linorder \<Rightarrow> nat"
    and payload :: "'id \<Rightarrow> nat"
    and origin :: "'id \<Rightarrow> nat"
    and valid :: "'id \<Rightarrow> bool"
  assumes order_lex:
    "valid x \<Longrightarrow> valid y \<Longrightarrow> origin x = origin y \<Longrightarrow>
       x < y \<longleftrightarrow> tick x < tick y \<or> tick x = tick y \<and> payload x < payload y"
begin

lemma later_tick_less:
  "valid x \<Longrightarrow> valid y \<Longrightarrow> origin x = origin y \<Longrightarrow> tick x < tick y \<Longrightarrow> x < y"
  by (simp add: order_lex)

lemma next_payload_less:
  "valid x \<Longrightarrow> valid y \<Longrightarrow> origin x = origin y \<Longrightarrow> tick y = tick x \<Longrightarrow>
     payload y = Suc (payload x) \<Longrightarrow> x < y"
  by (simp add: order_lex)

lemma less_imp_tick_le:
  "valid x \<Longrightarrow> valid y \<Longrightarrow> origin x = origin y \<Longrightarrow> x < y \<Longrightarrow> tick x \<le> tick y"
  by (auto simp: order_lex)

lemma fields_determine:
  assumes "valid x" and "valid y" and "origin x = origin y"
    and "tick x = tick y" and "payload x = payload y"
  shows "x = y"
proof (rule ccontr)
  assume "x \<noteq> y"
  then have "x < y \<or> y < x" by (simp add: neq_iff)
  with assms show False by (auto simp: order_lex)
qed

end

end
