(* ===== verification/Snowflake_Id.thy ===== *)
theory Snowflake_Id
  imports Id_Interface
begin

text \<open>
  The Snowflake identifiers of \<^verbatim>\<open>crates/ferroid/src/id/snowflake.rs\<close>: the macro
  \<open>define_snowflake_id!\<close>, which turns a bit layout into a newtype with constructors,
  accessors and validity tests, the default methods of the trait \<open>SnowflakeId\<close>, and the
  four layouts the crate ships. A layout is a record of the macro's four bit widths; an
  identifier is the newtype over the backing integer, ordered by it.
\<close>

subsection \<open>Layouts and identifiers\<close>

record snowflake_layout =
  reserved_bits :: nat
  timestamp_bits :: nat
  machine_bits :: nat
  sequence_bits :: nat

datatype 'ty snowflake = Snowflake (snow_to_raw: 'ty)

definition snow_from_raw :: "'ty \<Rightarrow> 'ty snowflake" where
  "snow_from_raw raw = Snowflake raw"

instantiation snowflake :: (linorder) linorder
begin

definition less_eq_snowflake :: "'a snowflake \<Rightarrow> 'a snowflake \<Rightarrow> bool" where
  "less_eq_snowflake x y \<longleftrightarrow> snow_to_raw x \<le> snow_to_raw y"

definition less_snowflake :: "'a snowflake \<Rightarrow> 'a snowflake \<Rightarrow> bool" where
  "less_snowflake x y \<longleftrightarrow> snow_to_raw x < snow_to_raw y"

instance
  by standard
    (auto simp: less_eq_snowflake_def less_snowflake_def intro: snowflake.expand)

end

text \<open>The compile-time assertion of the macro.\<close>

definition layout_assert :: "'a::len itself \<Rightarrow> snowflake_layout \<Rightarrow> bool" where
  "layout_assert ty L \<longleftrightarrow>
     reserved_bits L + timestamp_bits L + machine_bits L + sequence_bits L = LENGTH('a)"

definition SEQUENCE_SHIFT :: "snowflake_layout \<Rightarrow> nat" where
  "SEQUENCE_SHIFT L = 0"

definition MACHINE_ID_SHIFT :: "snowflake_layout \<Rightarrow> nat" where
  "MACHINE_ID_SHIFT L = SEQUENCE_SHIFT L + sequence_bits L"

definition TIMESTAMP_SHIFT :: "snowflake_layout \<Rightarrow> nat" where
  "TIMESTAMP_SHIFT L = MACHINE_ID_SHIFT L + machine_bits L"

definition RESERVED_SHIFT :: "snowflake_layout \<Rightarrow> nat" where
  "RESERVED_SHIFT L = TIMESTAMP_SHIFT L + timestamp_bits L"

definition TIMESTAMP_MASK :: "snowflake_layout \<Rightarrow> 'a::len word" where
  "TIMESTAMP_MASK L = bit_mask (timestamp_bits L)"

definition MACHINE_ID_MASK :: "snowflake_layout \<Rightarrow> 'a::len word" where
  "MACHINE_ID_MASK L = bit_mask (machine_bits L)"

definition SEQUENCE_MASK :: "snowflake_layout \<Rightarrow> 'a::len word" where
  "SEQUENCE_MASK L = bit_mask (sequence_bits L)"

definition valid_mask :: "snowflake_layout \<Rightarrow> 'a::len word" where
  "valid_mask L =
     push_bit (TIMESTAMP_SHIFT L) (TIMESTAMP_MASK L) OR
     push_bit (MACHINE_ID_SHIFT L) (MACHINE_ID_MASK L) OR
     push_bit (SEQUENCE_SHIFT L) (SEQUENCE_MASK L)"

text \<open>
  A layout the compiler accepts: the macro's assertion holds, and no constant expression
  \<open>1 << BITS\<close> or \<open>MASK << SHIFT\<close> shifts by the width of the integer or more, which
  is an error of constant evaluation.
\<close>

definition layout_wf :: "'a::len itself \<Rightarrow> snowflake_layout \<Rightarrow> bool" where
  "layout_wf ty L \<longleftrightarrow>
     layout_assert ty L \<and>
     reserved_bits L < LENGTH('a) \<and> timestamp_bits L < LENGTH('a) \<and>
     machine_bits L < LENGTH('a) \<and> sequence_bits L < LENGTH('a) \<and>
     TIMESTAMP_SHIFT L < LENGTH('a)"

subsection \<open>Methods generated by the macro\<close>

definition snow_from_components ::
  "build \<Rightarrow> snowflake_layout \<Rightarrow> 'a::len word \<Rightarrow> 'a word \<Rightarrow> 'a word \<Rightarrow> 'a word snowflake res" where
  "snow_from_components b L timestamp machine_id sequence =
     and_then (debug_assert b (timestamp \<le> TIMESTAMP_MASK L) ''timestamp overflow'') (\<lambda>_.
     and_then (debug_assert b (machine_id \<le> MACHINE_ID_MASK L) ''machine_id overflow'') (\<lambda>_.
     and_then (debug_assert b (sequence \<le> SEQUENCE_MASK L) ''sequence overflow'') (\<lambda>_.
       let t = push_bit (TIMESTAMP_SHIFT L) (timestamp AND TIMESTAMP_MASK L);
           m = push_bit (MACHINE_ID_SHIFT L) (machine_id AND MACHINE_ID_MASK L);
           s = push_bit (SEQUENCE_SHIFT L) (sequence AND SEQUENCE_MASK L)
       in Inr (Snowflake (t OR m OR s)))))"

definition snow_timestamp :: "snowflake_layout \<Rightarrow> 'a::len word snowflake \<Rightarrow> 'a word" where
  "snow_timestamp L x = drop_bit (TIMESTAMP_SHIFT L) (snow_to_raw x) AND TIMESTAMP_MASK L"

definition snow_machine_id :: "snowflake_layout \<Rightarrow> 'a::len word snowflake \<Rightarrow> 'a word" where
  "snow_machine_id L x = drop_bit (MACHINE_ID_SHIFT L) (snow_to_raw x) AND MACHINE_ID_MASK L"

definition snow_sequence :: "snowflake_layout \<Rightarrow> 'a::len word snowflake \<Rightarrow> 'a word" where
  "snow_sequence L x = drop_bit (SEQUENCE_SHIFT L) (snow_to_raw x) AND SEQUENCE_MASK L"

definition snow_max_timestamp :: "snowflake_layout \<Rightarrow> 'a::len word" where
  "snow_max_timestamp L = TIMESTAMP_MASK L"

definition snow_max_machine_id :: "snowflake_layout \<Rightarrow> 'a::len word" where
  "snow_max_machine_id L = MACHINE_ID_MASK L"

definition snow_max_sequence :: "snowflake_layout \<Rightarrow> 'a::len word" where
  "snow_max_sequence L = SEQUENCE_MASK L"

definition snow_is_valid :: "snowflake_layout \<Rightarrow> 'a::len word snowflake \<Rightarrow> bool" where
  "snow_is_valid L x \<longleftrightarrow> snow_to_raw x AND NOT (valid_mask L) = 0"

definition snow_into_valid :: "snowflake_layout \<Rightarrow> 'a::len word snowflake \<Rightarrow> 'a word snowflake" where
  "snow_into_valid L x = (let raw = snow_to_raw x AND valid_mask L in snow_from_raw raw)"

subsection \<open>Default methods of the trait\<close>

definition snow_has_sequence_room :: "snowflake_layout \<Rightarrow> 'a::len word snowflake \<Rightarrow> bool" where
  "snow_has_sequence_room L x \<longleftrightarrow> snow_sequence L x < snow_max_sequence L"

definition snow_next_sequence :: "build \<Rightarrow> snowflake_layout \<Rightarrow> 'a::len word snowflake \<Rightarrow> 'a word res" where
  "snow_next_sequence b L x = rust_add b (snow_sequence L x) 1"

definition snow_increment_sequence ::
  "build \<Rightarrow> snowflake_layout \<Rightarrow> 'a::len word snowflake \<Rightarrow> 'a word snowflake res" where
  "snow_increment_sequence b L x =
     and_then (snow_next_sequence b L x) (\<lambda>s.
       snow_from_components b L (snow_timestamp L x) (snow_machine_id L x) s)"

definition snow_rollover_to_timestamp ::
  "build \<Rightarrow> snowflake_layout \<Rightarrow> 'a::len word snowflake \<Rightarrow> 'a word \<Rightarrow> 'a word snowflake res" where
  "snow_rollover_to_timestamp b L x ts = snow_from_components b L ts (snow_machine_id L x) 0"

subsection \<open>The layouts of the crate\<close>

definition SnowflakeTwitterId :: snowflake_layout where
  "SnowflakeTwitterId =
     \<lparr>reserved_bits = 1, timestamp_bits = 41, machine_bits = 10, sequence_bits = 12\<rparr>"

definition SnowflakeDiscordId :: snowflake_layout where
  "SnowflakeDiscordId =
     \<lparr>reserved_bits = 0, timestamp_bits = 42, machine_bits = 10, sequence_bits = 12\<rparr>"

definition SnowflakeMastodonId :: snowflake_layout where
  "SnowflakeMastodonId =
     \<lparr>reserved_bits = 0, timestamp_bits = 48, machine_bits = 0, sequence_bits = 16\<rparr>"

definition SnowflakeInstagramId :: snowflake_layout where
  "SnowflakeInstagramId =
     \<lparr>reserved_bits = 0, timestamp_bits = 41, machine_bits = 13, sequence_bits = 10\<rparr>"

lemmas layout_consts = SEQUENCE_SHIFT_def MACHINE_ID_SHIFT_def TIMESTAMP_SHIFT_def
  RESERVED_SHIFT_def TIMESTAMP_MASK_def MACHINE_ID_MASK_def SEQUENCE_MASK_def

lemmas crate_layouts = SnowflakeTwitterId_def SnowflakeDiscordId_def SnowflakeMastodonId_def
  SnowflakeInstagramId_def

lemma snow_raw_simps [simp]:
  "snow_to_raw (snow_from_raw r) = r"
  "snow_from_raw (snow_to_raw x) = x"
  by (simp_all add: snow_from_raw_def)

lemma snow_eq_iff:
  fixes x y :: "'a::len word snowflake"
  shows "x = y \<longleftrightarrow> unat (snow_to_raw x) = unat (snow_to_raw y)"
  by (auto simp: word_unat_eq_iff intro: snowflake.expand)

lemma snow_less_iff:
  fixes x y :: "'a::len word snowflake"
  shows "x < y \<longleftrightarrow> unat (snow_to_raw x) < unat (snow_to_raw y)"
  by (simp add: less_snowflake_def word_less_nat_alt)

subsection \<open>Reading the fields as numbers\<close>

lemma unat_snow_timestamp [to_nat]:
  "unat (snow_timestamp L x) =
     unat (snow_to_raw x) div 2 ^ TIMESTAMP_SHIFT L mod 2 ^ timestamp_bits L"
  by (simp add: snow_timestamp_def TIMESTAMP_MASK_def unat_take_bit unat_drop_bit)

lemma unat_snow_machine_id [to_nat]:
  "unat (snow_machine_id L x) =
     unat (snow_to_raw x) div 2 ^ sequence_bits L mod 2 ^ machine_bits L"
  by (simp add: snow_machine_id_def MACHINE_ID_MASK_def MACHINE_ID_SHIFT_def
      SEQUENCE_SHIFT_def unat_take_bit unat_drop_bit)

lemma unat_snow_sequence [to_nat]:
  "unat (snow_sequence L x) = unat (snow_to_raw x) mod 2 ^ sequence_bits L"
  by (simp add: snow_sequence_def SEQUENCE_MASK_def SEQUENCE_SHIFT_def unat_take_bit)

subsection \<open>Identifiers of a well-formed layout\<close>

text \<open>The number an identifier with the given field values has.\<close>

definition snow_value :: "snowflake_layout \<Rightarrow> nat \<Rightarrow> nat \<Rightarrow> nat \<Rightarrow> nat" where
  "snow_value L t m s = (t * 2 ^ machine_bits L + m) * 2 ^ sequence_bits L + s"

locale wf_snowflake_layout =
  fixes ty :: "'a::len itself" and L :: snowflake_layout
  assumes wf: "layout_wf ty L"
begin

lemma widths:
  "timestamp_bits L + machine_bits L + sequence_bits L \<le> LENGTH('a)"
  "timestamp_bits L < LENGTH('a)" "machine_bits L < LENGTH('a)" "sequence_bits L < LENGTH('a)"
  "TIMESTAMP_SHIFT L < LENGTH('a)" "RESERVED_SHIFT L = LENGTH('a) - reserved_bits L"
  using wf by (auto simp: layout_wf_def layout_assert_def layout_consts)

lemma in_range_iff:
  fixes x :: "'a word"
  shows "x \<le> TIMESTAMP_MASK L \<longleftrightarrow> unat x < 2 ^ timestamp_bits L"
    and "x \<le> MACHINE_ID_MASK L \<longleftrightarrow> unat x < 2 ^ machine_bits L"
    and "x \<le> SEQUENCE_MASK L \<longleftrightarrow> unat x < 2 ^ sequence_bits L"
  using widths
  by (simp_all add: TIMESTAMP_MASK_def MACHINE_ID_MASK_def SEQUENCE_MASK_def le_bit_mask_iff)

lemma masks_nat:
  "unat (TIMESTAMP_MASK L :: 'a word) = 2 ^ timestamp_bits L - 1"
  "unat (MACHINE_ID_MASK L :: 'a word) = 2 ^ machine_bits L - 1"
  "unat (SEQUENCE_MASK L :: 'a word) = 2 ^ sequence_bits L - 1"
  using widths
  by (simp_all add: TIMESTAMP_MASK_def MACHINE_ID_MASK_def SEQUENCE_MASK_def unat_bit_mask)

lemma value_below:
  assumes "t < 2 ^ timestamp_bits L" "m < 2 ^ machine_bits L" "s < 2 ^ sequence_bits L"
  shows "snow_value L t m s < 2 ^ RESERVED_SHIFT L"
  using field_below [OF field_below [OF assms(1,2)] assms(3)]
  by (simp add: snow_value_def layout_consts add.commute add.left_commute)

lemma unat_packed:
  fixes t m s :: "'a word"
  shows "unat (push_bit (TIMESTAMP_SHIFT L) (take_bit (timestamp_bits L) t) OR
               push_bit (MACHINE_ID_SHIFT L) (take_bit (machine_bits L) m) OR
               push_bit (SEQUENCE_SHIFT L) (take_bit (sequence_bits L) s)) =
    snow_value L (unat t mod 2 ^ timestamp_bits L) (unat m mod 2 ^ machine_bits L)
      (unat s mod 2 ^ sequence_bits L)"
proof -
  let ?s = "take_bit (sequence_bits L) s"
  let ?ms = "push_bit (MACHINE_ID_SHIFT L) (take_bit (machine_bits L) m) OR ?s"
  have s: "unat ?s = unat s mod 2 ^ sequence_bits L" by (simp add: unat_take_bit)
  have ms: "unat ?ms = unat m mod 2 ^ machine_bits L * 2 ^ sequence_bits L
      + unat s mod 2 ^ sequence_bits L"
    using widths s by (simp add: unat_join_fields MACHINE_ID_SHIFT_def SEQUENCE_SHIFT_def)
  then have "unat ?ms < 2 ^ TIMESTAMP_SHIFT L"
    by (simp add: field_below TIMESTAMP_SHIFT_def MACHINE_ID_SHIFT_def SEQUENCE_SHIFT_def
        add.commute [of "sequence_bits L"])
  then have "unat (push_bit (TIMESTAMP_SHIFT L) (take_bit (timestamp_bits L) t) OR ?ms) =
      unat t mod 2 ^ timestamp_bits L * 2 ^ TIMESTAMP_SHIFT L + unat ?ms"
    using widths by (simp add: unat_join_fields TIMESTAMP_SHIFT_def MACHINE_ID_SHIFT_def
        SEQUENCE_SHIFT_def)
  then show ?thesis
    using ms by (simp add: or.assoc snow_value_def SEQUENCE_SHIFT_def TIMESTAMP_SHIFT_def
        MACHINE_ID_SHIFT_def power_add algebra_simps)
qed

lemma raw_from_components:
  assumes "snow_from_components b L t m s = Inr (x :: 'a word snowflake)"
  shows "unat (snow_to_raw x) =
    snow_value L (unat t mod 2 ^ timestamp_bits L) (unat m mod 2 ^ machine_bits L)
      (unat s mod 2 ^ sequence_bits L)"
  using assms
  by (auto simp: snow_from_components_def Let_def TIMESTAMP_MASK_def MACHINE_ID_MASK_def
      SEQUENCE_MASK_def unat_packed)

lemma fields_of_value:
  fixes x :: "'a word snowflake"
  assumes "unat (snow_to_raw x) = snow_value L t m s"
    and "t < 2 ^ timestamp_bits L" "m < 2 ^ machine_bits L" "s < 2 ^ sequence_bits L"
  shows "unat (snow_timestamp L x) = t" "unat (snow_machine_id L x) = m"
    "unat (snow_sequence L x) = s"
  using assms
  by (simp_all add: to_nat TIMESTAMP_SHIFT_def MACHINE_ID_SHIFT_def SEQUENCE_SHIFT_def
      power_add div_mult2_eq snow_value_def compose_div_mod)

lemma from_components_ok:
  fixes t m s :: "'a word"
  assumes "unat t < 2 ^ timestamp_bits L" "unat m < 2 ^ machine_bits L"
    "unat s < 2 ^ sequence_bits L"
  obtains x where "snow_from_components b L t m s = Inr x"
    "unat (snow_to_raw x) = snow_value L (unat t) (unat m) (unat s)"
    "snow_timestamp L x = t" "snow_machine_id L x = m" "snow_sequence L x = s"
proof -
  obtain x where x: "snow_from_components b L t m s = Inr x"
    using assms by (simp add: snow_from_components_def in_range_iff Let_def)
  moreover from raw_from_components [OF x] assms
  have v: "unat (snow_to_raw x) = snow_value L (unat t) (unat m) (unat s)" by simp
  ultimately show thesis
    using that fields_of_value [OF v] assms by (simp add: word_unat_eq_iff)
qed

lemma from_components_Release:
  fixes t m s :: "'a word"
  obtains x where "snow_from_components Release L t m s = Inr x"
  by (simp add: snow_from_components_def Let_def)

text \<open>Validity is the absence of reserved bits.\<close>

lemma unat_valid_mask: "unat (valid_mask L :: 'a word) = 2 ^ RESERVED_SHIFT L - 1"
proof -
  have "unat (valid_mask L :: 'a word) =
      snow_value L (2 ^ timestamp_bits L - 1) (2 ^ machine_bits L - 1) (2 ^ sequence_bits L - 1)"
    unfolding valid_mask_def TIMESTAMP_MASK_def MACHINE_ID_MASK_def SEQUENCE_MASK_def
      bit_mask_eq_take_bit unat_packed using widths by (simp add: unat_minus_1_mod)
  also have "\<dots> + 1 = 2 ^ RESERVED_SHIFT L"
    by (simp add: snow_value_def layout_consts power_add algebra_simps)
  finally show ?thesis by simp
qed

lemma valid_mask_eq: "valid_mask L = (bit_mask (RESERVED_SHIFT L) :: 'a word)"
  using widths by (simp add: word_unat_eq_iff unat_valid_mask unat_bit_mask)

lemma is_valid_iff:
  fixes x :: "'a word snowflake"
  shows "snow_is_valid L x \<longleftrightarrow> unat (snow_to_raw x) < 2 ^ RESERVED_SHIFT L"
  by (simp add: snow_is_valid_def valid_mask_eq no_high_bits_iff)

lemma value_of_valid:
  fixes x :: "'a word snowflake"
  assumes "snow_is_valid L x"
  shows "unat (snow_to_raw x) = snow_value L (unat (snow_timestamp L x))
     (unat (snow_machine_id L x)) (unat (snow_sequence L x))"
proof -
  let ?r = "unat (snow_to_raw x)"
  have "?r div 2 ^ TIMESTAMP_SHIFT L < 2 ^ timestamp_bits L"
    using assms by (simp add: is_valid_iff RESERVED_SHIFT_def power_add less_mult_imp_div_less
        mult.commute)
  then have "snow_value L (unat (snow_timestamp L x)) (unat (snow_machine_id L x))
      (unat (snow_sequence L x)) =
      (?r div 2 ^ sequence_bits L div 2 ^ machine_bits L * 2 ^ machine_bits L
       + ?r div 2 ^ sequence_bits L mod 2 ^ machine_bits L) * 2 ^ sequence_bits L
       + ?r mod 2 ^ sequence_bits L"
    by (simp add: snow_value_def to_nat TIMESTAMP_SHIFT_def MACHINE_ID_SHIFT_def
        SEQUENCE_SHIFT_def power_add div_mult2_eq)
  then show ?thesis by (simp only: div_mult_mod_eq)
qed

lemma field_bounds:
  fixes x :: "'a word snowflake"
  shows "unat (snow_timestamp L x) < 2 ^ timestamp_bits L"
    "unat (snow_machine_id L x) < 2 ^ machine_bits L"
    "unat (snow_sequence L x) < 2 ^ sequence_bits L"
  by (simp_all add: to_nat)

lemma from_components_valid:
  assumes "snow_from_components b L t m s = Inr (x :: 'a word snowflake)"
  shows "snow_is_valid L x"
  using raw_from_components [OF assms] by (simp add: is_valid_iff value_below)

lemma order_lex_snow:
  fixes x y :: "'a word snowflake"
  assumes "snow_is_valid L x" "snow_is_valid L y"
    and "unat (snow_machine_id L x) = unat (snow_machine_id L y)"
  shows "x < y \<longleftrightarrow> unat (snow_timestamp L x) < unat (snow_timestamp L y) \<or>
    unat (snow_timestamp L x) = unat (snow_timestamp L y) \<and>
    unat (snow_sequence L x) < unat (snow_sequence L y)"
  unfolding snow_less_iff value_of_valid [OF assms(1)] value_of_valid [OF assms(2)] snow_value_def
  using assms(3) field_bounds [of x] field_bounds [of y]
  by (auto simp: compose_less_iff)

end

text \<open>Every well-formed layout provides the interface of time-sorted identifiers.\<close>

sublocale wf_snowflake_layout \<subseteq> snow_order: time_sorted_id
  "\<lambda>x :: 'a word snowflake. unat (snow_timestamp L x)"
  "\<lambda>x. unat (snow_sequence L x)"
  "\<lambda>x. unat (snow_machine_id L x)"
  "snow_is_valid L"
  by unfold_locales (rule order_lex_snow)

context wf_snowflake_layout
begin

text \<open>The two ways a generator moves its state forward.\<close>

lemma increment_ok:
  fixes x :: "'a word snowflake"
  assumes v: "snow_is_valid L x" and room: "snow_has_sequence_room L x"
  obtains y where "snow_increment_sequence b L x = Inr y" "snow_is_valid L y"
    "snow_timestamp L y = snow_timestamp L x" "snow_machine_id L y = snow_machine_id L x"
    "unat (snow_sequence L y) = Suc (unat (snow_sequence L x))" "x < y"
proof -
  have s: "Suc (unat (snow_sequence L x)) < 2 ^ sequence_bits L"
    using room by (simp add: snow_has_sequence_room_def snow_max_sequence_def word_less_nat_alt
        masks_nat)
  also have "\<dots> \<le> 2 ^ LENGTH('a)"
    using widths by (simp add: less_imp_le)
  finally have lt: "unat (snow_sequence L x) + unat (1 :: 'a word) < 2 ^ LENGTH('a)"
    by simp
  then have n: "unat (snow_sequence L x + 1) = Suc (unat (snow_sequence L x))"
    by (simp add: unat_word_ariths)
  have nx: "snow_next_sequence b L x = Inr (snow_sequence L x + 1)"
    unfolding snow_next_sequence_def by (rule rust_add_no_overflow [OF lt])
  from from_components_ok [OF field_bounds(1,2) [of x], of "snow_sequence L x + 1" b] s n
  obtain y where y: "snow_from_components b L (snow_timestamp L x) (snow_machine_id L x)
        (snow_sequence L x + 1) = Inr y"
      "snow_timestamp L y = snow_timestamp L x" "snow_machine_id L y = snow_machine_id L x"
      "snow_sequence L y = snow_sequence L x + 1"
    by metis
  have vy: "snow_is_valid L y" by (rule from_components_valid [OF y(1)])
  have "x < y"
    using v vy y n by (intro snow_order.next_payload_less) simp_all
  with y n vy nx show thesis
    by (intro that [of y]) (simp_all add: snow_increment_sequence_def)
qed

lemma rollover_ok:
  fixes x :: "'a word snowflake"
  assumes v: "snow_is_valid L x" and later: "snow_timestamp L x < ts"
    and range: "unat ts < 2 ^ timestamp_bits L"
  obtains y where "snow_rollover_to_timestamp b L x ts = Inr y" "snow_is_valid L y"
    "snow_timestamp L y = ts" "snow_machine_id L y = snow_machine_id L x"
    "snow_sequence L y = 0" "x < y"
proof -
  from from_components_ok [OF range field_bounds(2) [of x], of 0 b]
  obtain y where y: "snow_from_components b L ts (snow_machine_id L x) 0 = Inr y"
      "snow_timestamp L y = ts" "snow_machine_id L y = snow_machine_id L x"
      "snow_sequence L y = 0"
    by (metis unsigned_0 zero_less_numeral zero_less_power)
  have vy: "snow_is_valid L y" by (rule from_components_valid [OF y(1)])
  have "x < y"
    using v vy y later by (intro snow_order.later_tick_less) (simp_all add: word_less_nat_alt)
  with y vy show thesis
    by (intro that [of y]) (simp_all add: snow_rollover_to_timestamp_def)
qed

end

text \<open>The crate's own layouts.\<close>

interpretation twitter: wf_snowflake_layout "TYPE(64)" SnowflakeTwitterId
  by unfold_locales (simp add: layout_wf_def layout_assert_def layout_consts crate_layouts)

interpretation discord: wf_snowflake_layout "TYPE(64)" SnowflakeDiscordId
  by unfold_locales (simp add: layout_wf_def layout_assert_def layout_consts crate_layouts)

interpretation mastodon: wf_snowflake_layout "TYPE(64)" SnowflakeMastodonId
  by unfold_locales (simp add: layout_wf_def layout_assert_def layout_consts crate_layouts)

interpretation instagram: wf_snowflake_layout "TYPE(64)" SnowflakeInstagramId
  by unfold_locales (simp add: layout_wf_def layout_assert_def layout_consts crate_layouts)

subsection \<open>Properties\<close>

context wf_snowflake_layout
begin

lemma from_components_of_valid:
  fixes x :: "'a word snowflake"
  assumes "snow_is_valid L x"
  shows "snow_from_components b L (snow_timestamp L x) (snow_machine_id L x) (snow_sequence L x) =
    Inr x"
proof -
  from from_components_ok [OF field_bounds [of x], of b] obtain y where
    y: "snow_from_components b L (snow_timestamp L x) (snow_machine_id L x) (snow_sequence L x) =
      Inr y"
    and v: "unat (snow_to_raw y) =
      snow_value L (unat (snow_timestamp L x)) (unat (snow_machine_id L x))
        (unat (snow_sequence L x))"
    by metis
  from v have "y = x" by (simp add: snow_eq_iff value_of_valid [OF assms])
  with y show ?thesis by simp
qed

lemma order_lex_machines:
  fixes x y :: "'a word snowflake"
  assumes "snow_is_valid L x" "snow_is_valid L y"
  shows "x < y \<longleftrightarrow>
    snow_timestamp L x < snow_timestamp L y \<or>
    snow_timestamp L x = snow_timestamp L y \<and>
      (snow_machine_id L x < snow_machine_id L y \<or>
       snow_machine_id L x = snow_machine_id L y \<and> snow_sequence L x < snow_sequence L y)"
  unfolding snow_less_iff value_of_valid [OF assms(1)] value_of_valid [OF assms(2)] snow_value_def
  using field_bounds [of x] field_bounds [of y]
  by (auto simp: compose_less_iff compose_eq_iff word_less_nat_alt word_unat_eq_iff)

lemma from_components_Debug:
  fixes t m s :: "'a word"
  shows "snow_from_components Debug L t m s =
    (if unat t \<ge> 2 ^ timestamp_bits L then Inl (Panic ''timestamp overflow'')
     else if unat m \<ge> 2 ^ machine_bits L then Inl (Panic ''machine_id overflow'')
     else if unat s \<ge> 2 ^ sequence_bits L then Inl (Panic ''sequence overflow'')
     else snow_from_components Release L t m s)"
  by (simp add: snow_from_components_def debug_assert_def in_range_iff)

lemma into_valid_raw:
  "unat (snow_to_raw (snow_into_valid L (x :: 'a word snowflake))) =
     unat (snow_to_raw x) mod 2 ^ RESERVED_SHIFT L"
  by (simp add: snow_into_valid_def valid_mask_eq unat_take_bit)

lemma into_valid_props:
  fixes x :: "'a word snowflake"
  shows "snow_is_valid L (snow_into_valid L x)"
    "snow_timestamp L (snow_into_valid L x) = snow_timestamp L x"
    "snow_machine_id L (snow_into_valid L x) = snow_machine_id L x"
    "snow_sequence L (snow_into_valid L x) = snow_sequence L x"
    "snow_is_valid L x \<longleftrightarrow> snow_into_valid L x = x"
proof -
  have field: "r mod 2 ^ (p + n + k) div 2 ^ p mod 2 ^ n = r div 2 ^ p mod 2 ^ n" for r p n k :: nat
  proof -
    have "take_bit n (drop_bit p (take_bit (p + n + k) r)) = take_bit n (drop_bit p r)"
      by (simp add: drop_bit_take_bit)
    then show ?thesis by (simp add: take_bit_eq_mod drop_bit_eq_div)
  qed
  let ?t = "timestamp_bits L" and ?m = "machine_bits L" and ?s = "sequence_bits L"
  have R: "RESERVED_SHIFT L = TIMESTAMP_SHIFT L + ?t + 0" "RESERVED_SHIFT L = ?s + ?m + ?t"
    "RESERVED_SHIFT L = 0 + ?s + (?m + ?t)"
    by (simp_all add: layout_consts)
  show "snow_timestamp L (snow_into_valid L x) = snow_timestamp L x"
    unfolding word_unat_eq_iff unat_snow_timestamp into_valid_raw R(1) by (rule field)
  show "snow_machine_id L (snow_into_valid L x) = snow_machine_id L x"
    unfolding word_unat_eq_iff unat_snow_machine_id into_valid_raw R(2) by (rule field)
  show "snow_sequence L (snow_into_valid L x) = snow_sequence L x"
    using field [of "unat (snow_to_raw x)" 0 ?s "?m + ?t"]
    unfolding word_unat_eq_iff unat_snow_sequence into_valid_raw R(3) by simp
  show "snow_is_valid L (snow_into_valid L x)"
    by (simp add: is_valid_iff into_valid_raw)
  show "snow_is_valid L x \<longleftrightarrow> snow_into_valid L x = x"
    unfolding is_valid_iff snow_eq_iff into_valid_raw
    by (metis mod_less mod_less_divisor zero_less_numeral zero_less_power)
qed

end

lemma wf_snowflake_layoutI: "layout_wf TYPE('a::len) L \<Longrightarrow> wf_snowflake_layout TYPE('a) L"
  by unfold_locales

lemma twitter_wf: "layout_wf TYPE(64) SnowflakeTwitterId"
  by (rule twitter.wf)

text \<open>C19: packing three in-range components and reading the fields back is the identity, in both
  builds, and a valid identifier is rebuilt from its own fields: \<open>from_components\<close> and the
  accessors are inverse bijections between component triples and valid identifiers.\<close>

theorem snow_components_roundtrip:
  fixes t m s :: "'a::len word"
  assumes "layout_wf TYPE('a) L"
  shows "(t \<le> snow_max_timestamp L \<and> m \<le> snow_max_machine_id L \<and> s \<le> snow_max_sequence L \<longrightarrow>
      (\<exists>x. snow_from_components b L t m s = Inr x \<and> snow_is_valid L x \<and>
        snow_timestamp L x = t \<and> snow_machine_id L x = m \<and> snow_sequence L x = s)) \<and>
    (snow_is_valid L y \<longrightarrow>
      snow_from_components b L (snow_timestamp L y) (snow_machine_id L y) (snow_sequence L y) =
        Inr (y :: 'a word snowflake))"
proof -
  note wf = wf_snowflake_layoutI [OF assms]
  have "\<exists>x. snow_from_components b L t m s = Inr x \<and> snow_is_valid L x \<and>
      snow_timestamp L x = t \<and> snow_machine_id L x = m \<and> snow_sequence L x = s"
    if "t \<le> snow_max_timestamp L" "m \<le> snow_max_machine_id L" "s \<le> snow_max_sequence L"
    using that wf_snowflake_layout.from_components_ok [OF wf, of t m s b]
      wf_snowflake_layout.from_components_valid [OF wf, of b t m s]
    by (auto simp: snow_max_timestamp_def snow_max_machine_id_def snow_max_sequence_def
        wf_snowflake_layout.in_range_iff [OF wf])
  then show ?thesis
    using wf_snowflake_layout.from_components_of_valid [OF wf, of y b] by blast
qed

theorem snow_components_roundtrip_witness:
  "(\<exists>x. snow_from_components Debug SnowflakeTwitterId 1000 2 (1 :: u64) = Inr x \<and>
      snow_is_valid SnowflakeTwitterId x \<and> snow_timestamp SnowflakeTwitterId x = 1000 \<and>
      snow_machine_id SnowflakeTwitterId x = 2 \<and> snow_sequence SnowflakeTwitterId x = 1) \<and>
   snow_from_components Debug SnowflakeTwitterId
     (snow_timestamp SnowflakeTwitterId (Snowflake (42 :: u64)))
     (snow_machine_id SnowflakeTwitterId (Snowflake 42))
     (snow_sequence SnowflakeTwitterId (Snowflake 42)) = Inr (Snowflake 42)"
proof -
  have "(1000 :: u64) \<le> snow_max_timestamp SnowflakeTwitterId"
    "(2 :: u64) \<le> snow_max_machine_id SnowflakeTwitterId"
    "(1 :: u64) \<le> snow_max_sequence SnowflakeTwitterId"
    "snow_is_valid SnowflakeTwitterId (Snowflake (42 :: u64))"
    by code_simp+
  with snow_components_roundtrip [OF twitter_wf, of 1000 2 1 Debug "Snowflake 42"]
  show ?thesis by blast
qed

text \<open>The derived order on valid identifiers is the lexicographic order of timestamp, machine
  and sequence, so identifiers sort by time first.\<close>

lemma snow_order_is_time_first:
  fixes x y :: "'a::len word snowflake"
  assumes "layout_wf TYPE('a) L" and "snow_is_valid L x" and "snow_is_valid L y"
  shows "x < y \<longleftrightarrow>
    snow_timestamp L x < snow_timestamp L y \<or>
    snow_timestamp L x = snow_timestamp L y \<and>
      (snow_machine_id L x < snow_machine_id L y \<or>
       snow_machine_id L x = snow_machine_id L y \<and> snow_sequence L x < snow_sequence L y)"
  by (rule wf_snowflake_layout.order_lex_machines [OF wf_snowflake_layoutI [OF assms(1)] assms(2,3)])

lemma snow_order_is_time_first_witness:
  "Snowflake (4194305 :: u64) < Snowflake 8388608 \<longleftrightarrow>
    snow_timestamp SnowflakeTwitterId (Snowflake (4194305 :: u64)) <
      snow_timestamp SnowflakeTwitterId (Snowflake 8388608) \<or>
    snow_timestamp SnowflakeTwitterId (Snowflake (4194305 :: u64)) =
      snow_timestamp SnowflakeTwitterId (Snowflake 8388608) \<and>
      (snow_machine_id SnowflakeTwitterId (Snowflake (4194305 :: u64)) <
         snow_machine_id SnowflakeTwitterId (Snowflake 8388608) \<or>
       snow_machine_id SnowflakeTwitterId (Snowflake (4194305 :: u64)) =
         snow_machine_id SnowflakeTwitterId (Snowflake 8388608) \<and>
       snow_sequence SnowflakeTwitterId (Snowflake (4194305 :: u64)) <
         snow_sequence SnowflakeTwitterId (Snowflake 8388608))"
  by (rule snow_order_is_time_first [OF twitter_wf]) code_simp+

text \<open>What \<open>from_components\<close> does with components that do not fit. A debug build panics
  with the message of the first offending field; a release build never panics and keeps each
  field modulo its width, so an overflowing field does not spill into its neighbours.\<close>

lemma snow_from_components_overflow:
  fixes t m s :: "'a::len word"
  assumes "layout_wf TYPE('a) L"
  shows "snow_from_components Debug L t m s =
    (if unat t \<ge> 2 ^ timestamp_bits L then Inl (Panic ''timestamp overflow'')
     else if unat m \<ge> 2 ^ machine_bits L then Inl (Panic ''machine_id overflow'')
     else if unat s \<ge> 2 ^ sequence_bits L then Inl (Panic ''sequence overflow'')
     else snow_from_components Release L t m s) \<and>
    (\<exists>x. snow_from_components Release L t m s = Inr x \<and> snow_is_valid L x \<and>
      unat (snow_timestamp L x) = unat t mod 2 ^ timestamp_bits L \<and>
      unat (snow_machine_id L x) = unat m mod 2 ^ machine_bits L \<and>
      unat (snow_sequence L x) = unat s mod 2 ^ sequence_bits L)"
proof -
  note wf = wf_snowflake_layoutI [OF assms]
  obtain x where x: "snow_from_components Release L t m s = Inr x"
    by (rule wf_snowflake_layout.from_components_Release [OF wf])
  show ?thesis
    using x wf_snowflake_layout.fields_of_value [OF wf
        wf_snowflake_layout.raw_from_components [OF wf x]]
      wf_snowflake_layout.from_components_valid [OF wf x]
      wf_snowflake_layout.from_components_Debug [OF wf, of t m s]
    by simp
qed

lemma snow_from_components_overflow_witness:
  "snow_from_components Debug SnowflakeTwitterId (0 :: u64) 1024 0 =
     Inl (Panic ''machine_id overflow'') \<and>
   (\<exists>x. snow_from_components Release SnowflakeTwitterId (0 :: u64) 1024 0 = Inr x \<and>
      unat (snow_machine_id SnowflakeTwitterId x) = 0 \<and>
      unat (snow_timestamp SnowflakeTwitterId x) = 0)"
  using snow_from_components_overflow [OF twitter_wf, of 0 1024 0]
  by (simp add: SnowflakeTwitterId_def) blast

text \<open>\<open>into_valid\<close> clears the reserved bits and nothing else: the result is valid, its three
  fields are those of the argument, and the valid identifiers are exactly its fixed points.\<close>

lemma snow_into_valid_normalises:
  fixes x :: "'a::len word snowflake"
  assumes "layout_wf TYPE('a) L"
  shows "snow_is_valid L (snow_into_valid L x) \<and>
    snow_timestamp L (snow_into_valid L x) = snow_timestamp L x \<and>
    snow_machine_id L (snow_into_valid L x) = snow_machine_id L x \<and>
    snow_sequence L (snow_into_valid L x) = snow_sequence L x \<and>
    (snow_is_valid L x \<longleftrightarrow> snow_into_valid L x = x)"
  using wf_snowflake_layout.into_valid_props [OF wf_snowflake_layoutI [OF assms]] by simp

lemma snow_into_valid_normalises_witness:
  "\<not> snow_is_valid SnowflakeTwitterId (Snowflake (- 1 :: u64)) \<and>
   snow_is_valid SnowflakeTwitterId (snow_into_valid SnowflakeTwitterId (Snowflake (- 1 :: u64))) \<and>
   snow_sequence SnowflakeTwitterId
     (snow_into_valid SnowflakeTwitterId (Snowflake (- 1 :: u64))) = 4095"
proof -
  have "snow_sequence SnowflakeTwitterId (Snowflake (- 1 :: u64)) = 4095"
    and "\<not> snow_is_valid SnowflakeTwitterId (Snowflake (- 1 :: u64))"
    by code_simp+
  with snow_into_valid_normalises [OF twitter_wf, of "Snowflake (- 1)"] show ?thesis by simp
qed

end
