(* ===== verification/Ulid_Id.thy ===== *)
theory Ulid_Id
  imports Id_Interface
begin

text \<open>
  The ULID-style identifiers of \<^verbatim>\<open>crates/ferroid/src/id/ulid.rs\<close>: the macro
  \<open>define_ulid!\<close>, the default methods of the trait \<open>UlidId\<close> and the crate's 128-bit
  \<open>ULID\<close>. A random source is a parameter \<open>rand\<close> that maps the state of the
  generator to a random integer and its next state (\<open>RandSource::rand\<close>, whose
  implementation \<open>ThreadRandom\<close> only calls the \<open>rand\<close> crate). A point in time
  (\<open>SystemTime\<close>) is its distance from the Unix epoch in nanoseconds, negative before it.
\<close>

record ulid_layout =
  u_reserved_bits :: nat
  u_timestamp_bits :: nat
  u_random_bits :: nat

datatype 'ty ulid = Ulid (ulid_to_raw: 'ty)

definition ulid_from_raw :: "'ty \<Rightarrow> 'ty ulid" where
  "ulid_from_raw raw = Ulid raw"

instantiation ulid :: (linorder) linorder
begin

definition less_eq_ulid :: "'a ulid \<Rightarrow> 'a ulid \<Rightarrow> bool" where
  "less_eq_ulid x y \<longleftrightarrow> ulid_to_raw x \<le> ulid_to_raw y"

definition less_ulid :: "'a ulid \<Rightarrow> 'a ulid \<Rightarrow> bool" where
  "less_ulid x y \<longleftrightarrow> ulid_to_raw x < ulid_to_raw y"

instance
  by standard (auto simp: less_eq_ulid_def less_ulid_def intro: ulid.expand)

end

subsection \<open>Layout constants\<close>

definition ulid_layout_assert :: "'a::len itself \<Rightarrow> ulid_layout \<Rightarrow> bool" where
  "ulid_layout_assert ty L \<longleftrightarrow>
     u_reserved_bits L + u_timestamp_bits L + u_random_bits L = LENGTH('a)"

definition U_RANDOM_SHIFT :: "ulid_layout \<Rightarrow> nat" where
  "U_RANDOM_SHIFT L = 0"

definition U_TIMESTAMP_SHIFT :: "ulid_layout \<Rightarrow> nat" where
  "U_TIMESTAMP_SHIFT L = U_RANDOM_SHIFT L + u_random_bits L"

definition U_RESERVED_SHIFT :: "ulid_layout \<Rightarrow> nat" where
  "U_RESERVED_SHIFT L = U_TIMESTAMP_SHIFT L + u_timestamp_bits L"

definition U_TIMESTAMP_MASK :: "ulid_layout \<Rightarrow> 'a::len word" where
  "U_TIMESTAMP_MASK L = bit_mask (u_timestamp_bits L)"

definition U_RANDOM_MASK :: "ulid_layout \<Rightarrow> 'a::len word" where
  "U_RANDOM_MASK L = bit_mask (u_random_bits L)"

definition ulid_valid_mask :: "ulid_layout \<Rightarrow> 'a::len word" where
  "ulid_valid_mask L =
     push_bit (U_TIMESTAMP_SHIFT L) (U_TIMESTAMP_MASK L) OR
     push_bit (U_RANDOM_SHIFT L) (U_RANDOM_MASK L)"

definition ulid_layout_wf :: "'a::len itself \<Rightarrow> ulid_layout \<Rightarrow> bool" where
  "ulid_layout_wf ty L \<longleftrightarrow>
     ulid_layout_assert ty L \<and>
     u_reserved_bits L < LENGTH('a) \<and> u_timestamp_bits L < LENGTH('a) \<and>
     u_random_bits L < LENGTH('a)"

subsection \<open>Methods generated by the macro\<close>

definition ulid_from_components ::
  "build \<Rightarrow> ulid_layout \<Rightarrow> 'a::len word \<Rightarrow> 'a word \<Rightarrow> 'a word ulid res" where
  "ulid_from_components b L timestamp random =
     and_then (debug_assert b (timestamp \<le> U_TIMESTAMP_MASK L) ''timestamp overflow'') (\<lambda>_.
       let t = push_bit (U_TIMESTAMP_SHIFT L) (timestamp AND U_TIMESTAMP_MASK L);
           r = push_bit (U_RANDOM_SHIFT L) (random AND U_RANDOM_MASK L)
       in Inr (Ulid (t OR r)))"

definition ulid_timestamp :: "ulid_layout \<Rightarrow> 'a::len word ulid \<Rightarrow> 'a word" where
  "ulid_timestamp L x = drop_bit (U_TIMESTAMP_SHIFT L) (ulid_to_raw x) AND U_TIMESTAMP_MASK L"

definition ulid_random :: "ulid_layout \<Rightarrow> 'a::len word ulid \<Rightarrow> 'a word" where
  "ulid_random L x = drop_bit (U_RANDOM_SHIFT L) (ulid_to_raw x) AND U_RANDOM_MASK L"

definition ulid_max_timestamp :: "ulid_layout \<Rightarrow> 'a::len word" where
  "ulid_max_timestamp L = U_TIMESTAMP_MASK L"

definition ulid_max_random :: "ulid_layout \<Rightarrow> 'a::len word" where
  "ulid_max_random L = U_RANDOM_MASK L"

definition ulid_is_valid_id :: "ulid_layout \<Rightarrow> 'a::len word ulid \<Rightarrow> bool" where
  "ulid_is_valid_id L x \<longleftrightarrow> ulid_to_raw x AND NOT (ulid_valid_mask L) = 0"

definition ulid_into_valid :: "ulid_layout \<Rightarrow> 'a::len word ulid \<Rightarrow> 'a word ulid" where
  "ulid_into_valid L x = (let raw = ulid_to_raw x AND ulid_valid_mask L in ulid_from_raw raw)"

definition ulid_from_timestamp_and_rand ::
  "('r \<Rightarrow> 'a::len word \<times> 'r) \<Rightarrow> build \<Rightarrow> ulid_layout \<Rightarrow> 'a word \<Rightarrow> 'r \<Rightarrow>
     ('a word ulid \<times> 'r) res" where
  "ulid_from_timestamp_and_rand rand b L timestamp rng =
     (let (random, rng') = rand rng
      in map_ok (\<lambda>x. (x, rng')) (ulid_from_components b L timestamp random))"

text \<open>\<open>duration_since(UNIX_EPOCH).unwrap_or(ZERO).as_millis()\<close>\<close>

definition millis_since_epoch :: "int \<Rightarrow> nat" where
  "millis_since_epoch datetime = nat (if datetime < 0 then 0 else datetime) div 1000000"

definition ulid_from_datetime_and_rand ::
  "('r \<Rightarrow> u128 \<times> 'r) \<Rightarrow> build \<Rightarrow> ulid_layout \<Rightarrow> int \<Rightarrow> 'r \<Rightarrow> (u128 ulid \<times> 'r) res" where
  "ulid_from_datetime_and_rand rand b L datetime rng =
     (let timestamp = word_of_nat (millis_since_epoch datetime);
          (random, rng') = rand rng
      in map_ok (\<lambda>x. (x, rng')) (ulid_from_components b L timestamp random))"

text \<open>
  The variants on the thread's own random source take it as \<open>thread_rand\<close>, and \<open>now\<close>
  takes the system clock \<open>system_now\<close> (nanoseconds since the epoch and the next state).
\<close>

definition ulid_from_timestamp ::
  "('r \<Rightarrow> 'a::len word \<times> 'r) \<Rightarrow> build \<Rightarrow> ulid_layout \<Rightarrow> 'a word \<Rightarrow> 'r \<Rightarrow>
     ('a word ulid \<times> 'r) res" where
  "ulid_from_timestamp thread_rand b L timestamp rng =
     ulid_from_timestamp_and_rand thread_rand b L timestamp rng"

definition ulid_from_datetime ::
  "('r \<Rightarrow> u128 \<times> 'r) \<Rightarrow> build \<Rightarrow> ulid_layout \<Rightarrow> int \<Rightarrow> 'r \<Rightarrow> (u128 ulid \<times> 'r) res" where
  "ulid_from_datetime thread_rand b L datetime rng =
     ulid_from_datetime_and_rand thread_rand b L datetime rng"

definition ulid_now ::
  "('t \<Rightarrow> int \<times> 't) \<Rightarrow> ('r \<Rightarrow> u128 \<times> 'r) \<Rightarrow> build \<Rightarrow> ulid_layout \<Rightarrow> 't \<Rightarrow> 'r \<Rightarrow>
     ((u128 ulid \<times> 'r) res \<times> 't)" where
  "ulid_now system_now thread_rand b L t rng =
     (let (datetime, t') = system_now t in (ulid_from_datetime thread_rand b L datetime rng, t'))"

text \<open>\<open>UNIX_EPOCH + Duration::from_millis(self.timestamp() as u64)\<close>, in nanoseconds.\<close>

definition ulid_datetime :: "ulid_layout \<Rightarrow> 'a::len word ulid \<Rightarrow> int" where
  "ulid_datetime L x = int (unat (ucast (ulid_timestamp L x) :: u64)) * 1000000"

subsection \<open>Default methods of the trait\<close>

definition ulid_has_random_room :: "ulid_layout \<Rightarrow> 'a::len word ulid \<Rightarrow> bool" where
  "ulid_has_random_room L x \<longleftrightarrow> ulid_random L x < ulid_max_random L"

definition ulid_next_random :: "build \<Rightarrow> ulid_layout \<Rightarrow> 'a::len word ulid \<Rightarrow> 'a word res" where
  "ulid_next_random b L x = rust_add b (ulid_random L x) 1"

definition ulid_increment_random ::
  "build \<Rightarrow> ulid_layout \<Rightarrow> 'a::len word ulid \<Rightarrow> 'a word ulid res" where
  "ulid_increment_random b L x =
     and_then (ulid_next_random b L x) (\<lambda>r. ulid_from_components b L (ulid_timestamp L x) r)"

definition ulid_rollover_to_timestamp ::
  "build \<Rightarrow> ulid_layout \<Rightarrow> 'a::len word ulid \<Rightarrow> 'a word \<Rightarrow> 'a word \<Rightarrow> 'a word ulid res" where
  "ulid_rollover_to_timestamp b L x ts rand = ulid_from_components b L ts rand"

definition ULID :: ulid_layout where
  "ULID = \<lparr>u_reserved_bits = 0, u_timestamp_bits = 48, u_random_bits = 80\<rparr>"

lemmas ulid_consts = U_RANDOM_SHIFT_def U_TIMESTAMP_SHIFT_def U_RESERVED_SHIFT_def
  U_TIMESTAMP_MASK_def U_RANDOM_MASK_def

lemma ulid_raw_simps [simp]:
  "ulid_to_raw (ulid_from_raw r) = r"
  "ulid_from_raw (ulid_to_raw x) = x"
  by (simp_all add: ulid_from_raw_def)

lemma ulid_less_iff:
  fixes x y :: "'a::len word ulid"
  shows "x < y \<longleftrightarrow> unat (ulid_to_raw x) < unat (ulid_to_raw y)"
  by (simp add: less_ulid_def word_less_nat_alt)

lemma unat_ulid_timestamp [to_nat]:
  "unat (ulid_timestamp L x) =
     unat (ulid_to_raw x) div 2 ^ u_random_bits L mod 2 ^ u_timestamp_bits L"
  by (simp add: ulid_timestamp_def U_TIMESTAMP_MASK_def U_TIMESTAMP_SHIFT_def U_RANDOM_SHIFT_def
      unat_take_bit unat_drop_bit)

lemma unat_ulid_random [to_nat]:
  "unat (ulid_random L x) = unat (ulid_to_raw x) mod 2 ^ u_random_bits L"
  by (simp add: ulid_random_def U_RANDOM_MASK_def U_RANDOM_SHIFT_def unat_take_bit)

subsection \<open>Identifiers of a well-formed layout\<close>

locale wf_ulid_layout =
  fixes ty :: "'a::len itself" and L :: ulid_layout
  assumes wf: "ulid_layout_wf ty L"
begin

lemma widths:
  "u_timestamp_bits L + u_random_bits L \<le> LENGTH('a)"
  "u_timestamp_bits L < LENGTH('a)" "u_random_bits L < LENGTH('a)"
  "U_RESERVED_SHIFT L \<le> LENGTH('a)"
  using wf by (auto simp: ulid_layout_wf_def ulid_layout_assert_def ulid_consts)

lemma timestamp_in_range_iff:
  fixes x :: "'a word"
  shows "x \<le> U_TIMESTAMP_MASK L \<longleftrightarrow> unat x < 2 ^ u_timestamp_bits L"
  using widths by (simp add: U_TIMESTAMP_MASK_def le_bit_mask_iff)

lemma unat_random_mask: "unat (U_RANDOM_MASK L :: 'a word) = 2 ^ u_random_bits L - 1"
  using widths by (simp add: U_RANDOM_MASK_def unat_bit_mask)

lemma unat_packed:
  fixes t r :: "'a word"
  shows "unat (push_bit (U_TIMESTAMP_SHIFT L) (take_bit (u_timestamp_bits L) t) OR
               push_bit (U_RANDOM_SHIFT L) (take_bit (u_random_bits L) r)) =
    unat t mod 2 ^ u_timestamp_bits L * 2 ^ u_random_bits L + unat r mod 2 ^ u_random_bits L"
  using widths
  by (simp add: U_TIMESTAMP_SHIFT_def U_RANDOM_SHIFT_def unat_join_fields unat_take_bit)

lemma raw_from_components:
  assumes "ulid_from_components b L t r = Inr (x :: 'a word ulid)"
  shows "unat (ulid_to_raw x) =
    unat t mod 2 ^ u_timestamp_bits L * 2 ^ u_random_bits L + unat r mod 2 ^ u_random_bits L"
  using assms
  by (auto simp: ulid_from_components_def Let_def U_TIMESTAMP_MASK_def U_RANDOM_MASK_def unat_packed)

lemma fields_from_components:
  assumes "ulid_from_components b L t r = Inr (x :: 'a word ulid)"
  shows "ulid_timestamp L x = take_bit (u_timestamp_bits L) t"
    "ulid_random L x = take_bit (u_random_bits L) r"
  using raw_from_components [OF assms] by (simp_all add: word_unat_eq_iff to_nat)

lemma from_components_ok:
  fixes t r :: "'a word"
  assumes "unat t < 2 ^ u_timestamp_bits L"
  obtains x where "ulid_from_components b L t r = Inr x" "ulid_timestamp L x = t"
    "ulid_random L x = take_bit (u_random_bits L) r"
proof -
  obtain x where x: "ulid_from_components b L t r = Inr x"
    using assms by (simp add: ulid_from_components_def timestamp_in_range_iff Let_def)
  then show thesis
    using that fields_from_components [OF x] assms by (simp add: take_bit_below)
qed

lemma valid_mask_eq: "ulid_valid_mask L = (bit_mask (U_RESERVED_SHIFT L) :: 'a word)"
proof -
  have "unat (ulid_valid_mask L :: 'a word) =
      (2 ^ u_timestamp_bits L - 1) * 2 ^ u_random_bits L + (2 ^ u_random_bits L - 1)"
    unfolding ulid_valid_mask_def U_TIMESTAMP_MASK_def U_RANDOM_MASK_def
      bit_mask_eq_take_bit unat_packed using widths by (simp add: unat_minus_1_mod)
  also have "\<dots> + 1 = 2 ^ U_RESERVED_SHIFT L"
    by (simp add: ulid_consts power_add algebra_simps)
  finally show ?thesis using widths by (simp add: word_unat_eq_iff unat_bit_mask)
qed

lemma is_valid_iff:
  fixes x :: "'a word ulid"
  shows "ulid_is_valid_id L x \<longleftrightarrow> unat (ulid_to_raw x) < 2 ^ U_RESERVED_SHIFT L"
  by (simp add: ulid_is_valid_id_def valid_mask_eq no_high_bits_iff)

lemma from_components_valid:
  assumes "ulid_from_components b L t r = Inr (x :: 'a word ulid)"
  shows "ulid_is_valid_id L x"
  unfolding is_valid_iff raw_from_components [OF assms] U_RESERVED_SHIFT_def U_TIMESTAMP_SHIFT_def
    U_RANDOM_SHIFT_def add_0 add.commute [of "u_random_bits L"]
  by (rule field_below) simp_all

lemma value_of_valid:
  fixes x :: "'a word ulid"
  assumes "ulid_is_valid_id L x"
  shows "unat (ulid_to_raw x) =
    unat (ulid_timestamp L x) * 2 ^ u_random_bits L + unat (ulid_random L x)"
proof -
  have "unat (ulid_to_raw x) div 2 ^ u_random_bits L < 2 ^ u_timestamp_bits L"
    using assms by (simp add: is_valid_iff ulid_consts power_add less_mult_imp_div_less mult.commute)
  then have "unat (ulid_timestamp L x) = unat (ulid_to_raw x) div 2 ^ u_random_bits L"
    by (simp add: unat_ulid_timestamp)
  then show ?thesis by (simp only: unat_ulid_random div_mult_mod_eq)
qed

lemma field_bounds:
  fixes x :: "'a word ulid"
  shows "unat (ulid_timestamp L x) < 2 ^ u_timestamp_bits L"
    "unat (ulid_random L x) < 2 ^ u_random_bits L"
  by (simp_all add: to_nat)

lemma order_lex_ulid:
  fixes x y :: "'a word ulid"
  assumes "ulid_is_valid_id L x" "ulid_is_valid_id L y"
  shows "x < y \<longleftrightarrow> unat (ulid_timestamp L x) < unat (ulid_timestamp L y) \<or>
    unat (ulid_timestamp L x) = unat (ulid_timestamp L y) \<and>
    unat (ulid_random L x) < unat (ulid_random L y)"
  unfolding ulid_less_iff value_of_valid [OF assms(1)] value_of_valid [OF assms(2)]
  using field_bounds [of x] field_bounds [of y] by (simp add: compose_less_iff)

end

sublocale wf_ulid_layout \<subseteq> ulid_order: time_sorted_id
  "\<lambda>x :: 'a word ulid. unat (ulid_timestamp L x)"
  "\<lambda>x. unat (ulid_random L x)"
  "\<lambda>_. 0"
  "ulid_is_valid_id L"
  by unfold_locales (rule order_lex_ulid)

context wf_ulid_layout
begin

lemma increment_ok:
  fixes x :: "'a word ulid"
  assumes v: "ulid_is_valid_id L x" and room: "ulid_has_random_room L x"
  obtains y where "ulid_increment_random b L x = Inr y" "ulid_is_valid_id L y"
    "ulid_timestamp L y = ulid_timestamp L x"
    "unat (ulid_random L y) = Suc (unat (ulid_random L x))" "x < y"
proof -
  have s: "Suc (unat (ulid_random L x)) < 2 ^ u_random_bits L"
    using room by (simp add: ulid_has_random_room_def ulid_max_random_def word_less_nat_alt
        unat_random_mask)
  also have "\<dots> \<le> 2 ^ LENGTH('a)"
    using widths by (simp add: less_imp_le)
  finally have lt: "unat (ulid_random L x) + unat (1 :: 'a word) < 2 ^ LENGTH('a)" by simp
  then have n: "unat (ulid_random L x + 1) = Suc (unat (ulid_random L x))"
    by (simp add: unat_word_ariths)
  have nx: "ulid_next_random b L x = Inr (ulid_random L x + 1)"
    unfolding ulid_next_random_def by (rule rust_add_no_overflow [OF lt])
  from from_components_ok [OF field_bounds(1) [of x], of b "ulid_random L x + 1"]
  obtain y where y: "ulid_from_components b L (ulid_timestamp L x) (ulid_random L x + 1) = Inr y"
      "ulid_timestamp L y = ulid_timestamp L x"
      "ulid_random L y = take_bit (u_random_bits L) (ulid_random L x + 1)"
    by metis
  have vy: "ulid_is_valid_id L y" by (rule from_components_valid [OF y(1)])
  have r: "unat (ulid_random L y) = Suc (unat (ulid_random L x))"
    using y(3) n s by (simp add: unat_take_bit)
  have "x < y"
    using v vy y(2) r by (intro ulid_order.next_payload_less) simp_all
  with y r vy nx show thesis
    by (intro that [of y]) (simp_all add: ulid_increment_random_def)
qed

lemma rollover_ok:
  fixes x :: "'a word ulid"
  assumes v: "ulid_is_valid_id L x" and later: "ulid_timestamp L x < ts"
    and range: "unat ts < 2 ^ u_timestamp_bits L"
  obtains y where "ulid_rollover_to_timestamp b L x ts rand = Inr y" "ulid_is_valid_id L y"
    "ulid_timestamp L y = ts" "ulid_random L y = take_bit (u_random_bits L) rand" "x < y"
proof -
  from from_components_ok [OF range, of b rand]
  obtain y where y: "ulid_from_components b L ts rand = Inr y" "ulid_timestamp L y = ts"
      "ulid_random L y = take_bit (u_random_bits L) rand"
    by metis
  have vy: "ulid_is_valid_id L y" by (rule from_components_valid [OF y(1)])
  have "x < y"
    using v vy y later by (intro ulid_order.later_tick_less) (simp_all add: word_less_nat_alt)
  with y vy show thesis
    by (intro that [of y]) (simp_all add: ulid_rollover_to_timestamp_def)
qed

end

interpretation ulid128: wf_ulid_layout "TYPE(128)" ULID
  by unfold_locales (simp add: ulid_layout_wf_def ulid_layout_assert_def ULID_def)

subsection \<open>Properties\<close>

lemma wf_ulid_layoutI: "ulid_layout_wf TYPE('a::len) L \<Longrightarrow> wf_ulid_layout TYPE('a) L"
  by unfold_locales

lemma ULID_wf: "ulid_layout_wf TYPE(128) ULID"
  by (rule ulid128.wf)

lemma ulid_datetime_of_timestamp:
  assumes "ulid_timestamp L x = word_of_nat ms" and "ms < 2 ^ 48" and "48 \<le> LENGTH('a)"
  shows "ulid_datetime L (x :: 'a::len word ulid) = int ms * 1000000"
proof -
  have "ms < 2 ^ LENGTH('a)"
    using assms(2) power_increasing [OF assms(3), of "2 :: nat"] by simp
  with assms show ?thesis
    by (simp add: ulid_datetime_def unsigned_ucast_eq unat_of_nat take_bit_nat_eq_self)
qed

text \<open>Building a ULID keeps the timestamp and the low bits of the random word, whatever the
  random source returns: the only failure is the debug panic on a timestamp that does not fit,
  which a release build reduces modulo the field's width. The result is always valid.\<close>

lemma ulid_from_components_fields:
  fixes t r :: "'a::len word"
  assumes "ulid_layout_wf TYPE('a) L"
  shows "(if b = Debug \<and> unat t \<ge> 2 ^ u_timestamp_bits L
     then ulid_from_components b L t r = Inl (Panic ''timestamp overflow'')
     else \<exists>x. ulid_from_components b L t r = Inr x \<and> ulid_is_valid_id L x \<and>
       unat (ulid_timestamp L x) = unat t mod 2 ^ u_timestamp_bits L \<and>
       unat (ulid_random L x) = unat r mod 2 ^ u_random_bits L)"
proof -
  note wf = wf_ulid_layoutI [OF assms]
  have panic: "ulid_from_components b L t r = Inl (Panic ''timestamp overflow'')"
    if "b = Debug" "unat t \<ge> 2 ^ u_timestamp_bits L"
    using that by (simp add: ulid_from_components_def debug_assert_def
        wf_ulid_layout.timestamp_in_range_iff [OF wf])
  have "\<exists>x. ulid_from_components b L t r = Inr x"
    if "\<not> (b = Debug \<and> unat t \<ge> 2 ^ u_timestamp_bits L)"
    using that by (cases b) (simp_all add: ulid_from_components_def Let_def
        wf_ulid_layout.timestamp_in_range_iff [OF wf])
  with panic show ?thesis
    using wf_ulid_layout.fields_from_components [OF wf, of b t r]
      wf_ulid_layout.from_components_valid [OF wf, of b t r]
    by (auto simp: unat_take_bit)
qed

lemma ulid_from_components_fields_witness:
  "ulid_from_components Debug ULID (2 ^ 48 :: u128) 5 = Inl (Panic ''timestamp overflow'') \<and>
   (\<exists>x. ulid_from_components Release ULID (2 ^ 48 :: u128) (- 1) = Inr x \<and>
      unat (ulid_timestamp ULID x) = 0)"
  using ulid_from_components_fields [OF ULID_wf, of Debug "2 ^ 48" 5]
    ulid_from_components_fields [OF ULID_wf, of Release "2 ^ 48" "- 1"]
  by (auto simp: ULID_def)

text \<open>A ULID built from a point in time reads back as that time, rounded down to the
  millisecond, with times before the Unix epoch read as the epoch, for every time up to the
  48-bit limit and every random source.\<close>

lemma ulid_datetime_roundtrip:
  assumes "millis_since_epoch datetime < 2 ^ 48"
  shows "\<exists>x. ulid_from_datetime_and_rand rand b ULID datetime rng = Inr (x, snd (rand rng)) \<and>
    ulid_datetime ULID x = max 0 datetime div 1000000 * 1000000"
proof -
  let ?ms = "millis_since_epoch datetime"
  have "unat (word_of_nat ?ms :: u128) < 2 ^ u_timestamp_bits ULID"
    using assms by (simp add: unat_of_nat ULID_def)
  from ulid128.from_components_ok [OF this, of b "fst (rand rng)"] obtain x where
    x: "ulid_from_components b ULID (word_of_nat ?ms) (fst (rand rng)) = Inr x"
      "ulid_timestamp ULID x = word_of_nat ?ms"
    by metis
  have "int ?ms = max 0 datetime div 1000000"
    by (simp add: millis_since_epoch_def zdiv_int)
  with x assms show ?thesis
    by (simp add: ulid_from_datetime_and_rand_def Let_def case_prod_beta
        ulid_datetime_of_timestamp [OF x(2)])
qed

lemma ulid_datetime_roundtrip_witness:
  "\<exists>x. ulid_from_datetime_and_rand (\<lambda>n. (word_of_nat n, Suc n)) Debug ULID 1234567890 7 =
      Inr (x, 8) \<and> ulid_datetime ULID x = 1234000000"
  using ulid_datetime_roundtrip [of 1234567890 "\<lambda>n. (word_of_nat n, Suc n)" Debug 7]
  by (simp add: millis_since_epoch_def)

end
