(* ===== verification/Base32.thy ===== *)
theory Base32
  imports Crockford Snowflake_Id Ulid_Id
begin

text \<open>
  Text form of identifiers: the shared trait \<open>Base32Ext\<close>
  (\<^verbatim>\<open>crates/ferroid/src/base32/interface.rs\<close>), its Snowflake and ULID versions with
  their formatters (\<^verbatim>\<open>base32/snowflake.rs\<close>, \<^verbatim>\<open>base32/ulid.rs\<close>) and the string
  conversions that the two macros derive from them. A \<open>str\<close> is its list of bytes;
  \<open>from_utf8_unchecked\<close> is undefined unless the bytes are ASCII.

  The interface \<open>base32_text\<close> collects what the users of the text form rely on; both
  identifier families provide it.
\<close>

subsection \<open>The shared trait\<close>

definition inner_byte_array :: "'a::len itself \<Rightarrow> bytes" where
  "inner_byte_array ty = replicate (be_SIZE ty) 0"

definition inner_base32_array :: "'a::len itself \<Rightarrow> bytes" where
  "inner_base32_array ty = replicate (be_BASE32_SIZE ty) 0"

definition inner_encode_to_buf :: "build \<Rightarrow> 'a::len word \<Rightarrow> bytes \<Rightarrow> bytes res" where
  "inner_encode_to_buf b raw buf = encode_base32 b (to_be_bytes raw) buf"

definition inner_decode :: "('a::len word \<Rightarrow> 'id) \<Rightarrow> bytes \<Rightarrow> ('e base32_error + 'id) res" where
  "inner_decode from_raw input =
     (if length input \<noteq> be_BASE32_SIZE TYPE('a) then Inr (Inl (DecodeInvalidLen (length input)))
      else and_then (decode_base32 input) (\<lambda>r. Inr (map_ok from_raw r)))"

text \<open>\<open>core::str::from_utf8_unchecked\<close>\<close>

definition from_utf8_unchecked :: "bytes \<Rightarrow> bytes res" where
  "from_utf8_unchecked bs =
     (if \<forall>c \<in> set bs. c < 128 then Inr bs else Inl (Undefined ''invalid utf-8 in str''))"

subsection \<open>Snowflake text\<close>

datatype snow_formatter = SnowFormatter (snow_buf: bytes)

definition snow_formatter_new :: "build \<Rightarrow> 'a::len word snowflake \<Rightarrow> snow_formatter res" where
  "snow_formatter_new b x =
     (let buf = inner_base32_array TYPE('a)
      in map_ok SnowFormatter (inner_encode_to_buf b (snow_to_raw x) buf))"

definition snow_formatter_as_bytes :: "snow_formatter \<Rightarrow> bytes" where
  "snow_formatter_as_bytes f = snow_buf f"

definition snow_formatter_as_str :: "snow_formatter \<Rightarrow> bytes res" where
  "snow_formatter_as_str f = from_utf8_unchecked (snow_formatter_as_bytes f)"

definition snow_formatter_eq_str :: "snow_formatter \<Rightarrow> bytes \<Rightarrow> bool res" where
  "snow_formatter_eq_str f other = map_ok (\<lambda>s. s = other) (snow_formatter_as_str f)"

text \<open>\<open>Base32SnowFormatterRef::new\<close>: the same encoding into the caller's buffer.\<close>

definition snow_formatter_ref_new ::
  "build \<Rightarrow> 'a::len word snowflake \<Rightarrow> bytes \<Rightarrow> snow_formatter res" where
  "snow_formatter_ref_new b x buf =
     map_ok SnowFormatter (inner_encode_to_buf b (snow_to_raw x) buf)"

definition snow_encode :: "build \<Rightarrow> 'a::len word snowflake \<Rightarrow> snow_formatter res" where
  "snow_encode b x = snow_formatter_new b x"

definition snow_encode_to_buf ::
  "build \<Rightarrow> 'a::len word snowflake \<Rightarrow> bytes \<Rightarrow> snow_formatter res" where
  "snow_encode_to_buf b x buf = snow_formatter_ref_new b x buf"

definition snow_decode ::
  "snowflake_layout \<Rightarrow> bytes \<Rightarrow>
     ('a::len word snowflake base32_error + 'a word snowflake) res" where
  "snow_decode L input =
     and_then (inner_decode snow_from_raw input) (\<lambda>r. Inr (
       and_then r (\<lambda>decoded.
         if \<not> snow_is_valid L decoded then Inl (DecodeOverflow decoded) else Inr decoded)))"

text \<open>String conversions derived by the macro: \<open>Display\<close> and \<open>From<ID> for String\<close>,
  \<open>FromStr\<close> and \<open>TryFrom<&str>\<close>, and \<open>PartialEq<str>\<close>.\<close>

definition snow_to_string :: "build \<Rightarrow> 'a::len word snowflake \<Rightarrow> bytes res" where
  "snow_to_string b x = and_then (snow_encode b x) snow_formatter_as_str"

definition snow_from_str ::
  "snowflake_layout \<Rightarrow> bytes \<Rightarrow>
     ('a::len word snowflake base32_error + 'a word snowflake) res" where
  "snow_from_str L s = snow_decode L s"

definition snow_eq_str :: "snowflake_layout \<Rightarrow> 'a::len word snowflake \<Rightarrow> bytes \<Rightarrow> bool res" where
  "snow_eq_str L x other =
     and_then (snow_decode L other) (\<lambda>r. Inr (case r of Inl _ \<Rightarrow> False | Inr y \<Rightarrow> y = x))"

subsection \<open>ULID text\<close>

datatype ulid_formatter = UlidFormatter (ulid_buf: bytes)

definition ulid_formatter_new :: "build \<Rightarrow> 'a::len word ulid \<Rightarrow> ulid_formatter res" where
  "ulid_formatter_new b x =
     (let buf = inner_base32_array TYPE('a)
      in map_ok UlidFormatter (inner_encode_to_buf b (ulid_to_raw x) buf))"

definition ulid_formatter_as_bytes :: "ulid_formatter \<Rightarrow> bytes" where
  "ulid_formatter_as_bytes f = ulid_buf f"

definition ulid_formatter_as_str :: "ulid_formatter \<Rightarrow> bytes res" where
  "ulid_formatter_as_str f = from_utf8_unchecked (ulid_formatter_as_bytes f)"

definition ulid_formatter_eq_str :: "ulid_formatter \<Rightarrow> bytes \<Rightarrow> bool res" where
  "ulid_formatter_eq_str f other = map_ok (\<lambda>s. s = other) (ulid_formatter_as_str f)"

definition ulid_formatter_ref_new ::
  "build \<Rightarrow> 'a::len word ulid \<Rightarrow> bytes \<Rightarrow> ulid_formatter res" where
  "ulid_formatter_ref_new b x buf =
     map_ok UlidFormatter (inner_encode_to_buf b (ulid_to_raw x) buf)"

definition ulid_encode :: "build \<Rightarrow> 'a::len word ulid \<Rightarrow> ulid_formatter res" where
  "ulid_encode b x = ulid_formatter_new b x"

definition ulid_encode_to_buf :: "build \<Rightarrow> 'a::len word ulid \<Rightarrow> bytes \<Rightarrow> ulid_formatter res" where
  "ulid_encode_to_buf b x buf = ulid_formatter_ref_new b x buf"

definition ulid_decode ::
  "ulid_layout \<Rightarrow> bytes \<Rightarrow> ('a::len word ulid base32_error + 'a word ulid) res" where
  "ulid_decode L input =
     and_then (inner_decode ulid_from_raw input) (\<lambda>r. Inr (
       and_then r (\<lambda>decoded.
         if \<not> ulid_is_valid_id L decoded then Inl (DecodeOverflow decoded) else Inr decoded)))"

definition ulid_to_string :: "build \<Rightarrow> 'a::len word ulid \<Rightarrow> bytes res" where
  "ulid_to_string b x = and_then (ulid_encode b x) ulid_formatter_as_str"

definition ulid_from_str ::
  "ulid_layout \<Rightarrow> bytes \<Rightarrow> ('a::len word ulid base32_error + 'a word ulid) res" where
  "ulid_from_str L s = ulid_decode L s"

definition ulid_eq_str :: "ulid_layout \<Rightarrow> 'a::len word ulid \<Rightarrow> bytes \<Rightarrow> bool res" where
  "ulid_eq_str L x other =
     and_then (ulid_decode L other) (\<lambda>r. Inr (case r of Inl _ \<Rightarrow> False | Inr y \<Rightarrow> y = x))"

subsection \<open>Text of a backing integer\<close>

text \<open>The reference text: the radix-32 digits of the integer in the Crockford alphabet.\<close>

definition canonical_text :: "'a::len word \<Rightarrow> bytes" where
  "canonical_text r = chars (digits 32 (be_BASE32_SIZE TYPE('a)) (unat r))"

text \<open>The backing integers for which the crate implements \<open>BeBytes\<close>.\<close>

definition be_type :: "'a::len itself \<Rightarrow> bool" where
  "be_type ty \<longleftrightarrow> LENGTH('a) \<in> {32, 64, 128}"

lemma be_type_size:
  assumes "be_type TYPE('a::len)"
  shows "8 \<le> LENGTH('a)" "8 dvd LENGTH('a)"
    "2 ^ LENGTH('a) \<le> (32 :: nat) ^ be_BASE32_SIZE TYPE('a)"
  using assms by (auto simp: be_type_def be_BASE32_SIZE_def base32_size_def be_SIZE_def)

lemma length_canonical_text [simp]:
  "length (canonical_text (r :: 'a::len word)) = be_BASE32_SIZE TYPE('a)"
  by (simp add: canonical_text_def)

lemma inner_encode_canonical:
  fixes r :: "'a::len word"
  assumes "be_type TYPE('a)" and "length buf = be_BASE32_SIZE TYPE('a)"
  shows "inner_encode_to_buf b r buf = Inr (canonical_text r)"
  using assms(2) undigits_to_be_bytes [OF be_type_size(2) [OF assms(1)], of r]
  by (simp add: inner_encode_to_buf_def canonical_text_def encode_base32_digits be_BASE32_SIZE_def)

lemma canonical_text_digits:
  fixes r :: "'a::len word"
  assumes "be_type TYPE('a)"
  shows "undigits 32 (decode_digits (canonical_text r)) = unat r"
    and "\<not> has_invalid (canonical_text r)"
proof -
  let ?ds = "digits 32 (be_BASE32_SIZE TYPE('a)) (unat r)"
  have ds: "\<forall>d \<in> set ?ds. d < 32" using radix32.digits_below by blast
  have "unat r < 32 ^ be_BASE32_SIZE TYPE('a)"
    using be_type_size(3) [OF assms] unsigned_less [of r] by (rule order_less_le_trans [rotated])
  then show "undigits 32 (decode_digits (canonical_text r)) = unat r"
    using chars_of_digits(1) [OF ds] by (simp add: canonical_text_def radix32.undigits_digits)
  show "\<not> has_invalid (canonical_text r)"
    using chars_of_digits(2) [OF ds] by (simp add: canonical_text_def)
qed

lemma canonical_text_less_iff:
  fixes r s :: "'a::len word"
  assumes "be_type TYPE('a)"
  shows "canonical_text r < canonical_text s \<longleftrightarrow> r < s"
proof -
  let ?n = "be_BASE32_SIZE TYPE('a)"
  have below: "unat x < 32 ^ ?n" for x :: "'a word"
    using be_type_size(3) [OF assms] unsigned_less [of x] by (rule order_less_le_trans [rotated])
  have "canonical_text r < canonical_text s \<longleftrightarrow> digits 32 ?n (unat r) < digits 32 ?n (unat s)"
    unfolding canonical_text_def chars_def
    by (rule map_less_iff_mono [where S = "{..<32}"])
      (use radix32.digits_below in \<open>auto simp: ENCODE_LUT_mono\<close>)
  then show ?thesis
    by (simp add: radix32.digits_less_iff below word_less_nat_alt)
qed

lemma canonical_text_ascii: "\<forall>c \<in> set (canonical_text r). c < 128"
proof -
  have "\<forall>c \<in> set ENCODE_LUT. c < 128" by code_simp
  then have "ENCODE_LUT ! d < 128" if "d < 32" for d using that by simp
  then show ?thesis
    using radix32.digits_below by (auto simp: canonical_text_def chars_def)
qed

lemma utf8_canonical [simp]: "from_utf8_unchecked (canonical_text r) = Inr (canonical_text r)"
  using canonical_text_ascii [of r] by (simp add: from_utf8_unchecked_def)

lemma inner_decode_cases:
  assumes "be_type TYPE('a::len)"
  shows "(inner_decode (from_raw :: 'a word \<Rightarrow> 'id) s :: ('e base32_error + 'id) res) =
    (if length s \<noteq> be_BASE32_SIZE TYPE('a) then Inr (Inl (DecodeInvalidLen (length s)))
     else if has_invalid s then map_ok Inl (handle_error s)
     else Inr (Inr (from_raw (word_of_nat (undigits 32 (decode_digits s))))))"
proof (cases "has_invalid s")
  case True
  from decode_base32_invalid [OF this] obtain j where
    "decode_base32 s = Inr (Inl (DecodeInvalidAscii (s ! j) j) :: 'e base32_error + 'a word)"
    by blast
  moreover have "decode_base32 s = (map_ok Inl (handle_error s) :: ('e base32_error + 'a word) res)"
    using True by (simp add: decode_base32_def decode_chunks_eq)
  ultimately show ?thesis
    using True by (cases "handle_error s :: 'e base32_error res") (auto simp: inner_decode_def)
next
  case False
  then show ?thesis
    by (simp add: inner_decode_def decode_base32_valid [OF be_type_size(1) [OF assms]])
qed

subsection \<open>The interface of the text form\<close>

locale base32_text =
  fixes to_string :: "'id::linorder \<Rightarrow> bytes res"
    and from_str :: "bytes \<Rightarrow> ('id base32_error + 'id) res"
    and valid :: "'id \<Rightarrow> bool"
    and repr :: "'id \<Rightarrow> bytes"
    and n :: nat
  assumes to_string_repr: "to_string x = Inr (repr x)"
    and repr_length: "length (repr x) = n"
    and repr_less: "repr x < repr y \<longleftrightarrow> x < y"
    and from_str_repr:
      "from_str (repr x) = Inr (if valid x then Inr x else Inl (DecodeOverflow x))"
    and from_str_length:
      "length s \<noteq> n \<Longrightarrow> from_str s = Inr (Inl (DecodeInvalidLen (length s)))"
    and from_str_total: "is_ok (from_str s)"
    and from_str_valid: "from_str s = Inr (Inr x) \<Longrightarrow> valid x"
begin

lemma round_trip: "valid x \<Longrightarrow> and_then (to_string x) from_str = Inr (Inr x)"
  by (simp add: to_string_repr from_str_repr)

lemma repr_inject: "repr x = repr y \<longleftrightarrow> x = y"
  by (metis repr_less linorder_neq_iff less_irrefl)

lemma repr_le: "repr x \<le> repr y \<longleftrightarrow> x \<le> y"
  by (simp add: order_le_less repr_less repr_inject)

lemma sorted_repr: "sorted_wrt (\<le>) (map repr xs) \<longleftrightarrow> sorted xs"
  by (simp add: sorted_wrt_map repr_le)

lemma eq_str_repr:
  "and_then (from_str (repr y)) (\<lambda>r. Inr (case r of Inl _ \<Rightarrow> False | Inr z \<Rightarrow> z = x)) =
     Inr (valid y \<and> y = x)"
  by (simp add: from_str_repr)

lemma rejected_is_overflow:
  "\<not> valid x \<Longrightarrow> and_then (to_string x) from_str = Inr (Inl (DecodeOverflow x))"
  by (simp add: to_string_repr from_str_repr)

end

text \<open>Layouts over a type with big-endian bytes, in a given build.\<close>

locale be_snowflake = wf_snowflake_layout +
  fixes b :: build
  assumes be: "be_type ty"
begin

lemma be': "be_type TYPE('a)"
  using be by (simp add: be_type_def)

lemma formatter_new_eq: "snow_formatter_new b (x :: 'a word snowflake) =
    Inr (SnowFormatter (canonical_text (snow_to_raw x)))"
  by (simp add: snow_formatter_new_def inner_encode_canonical [OF be'] inner_base32_array_def)

lemma to_string_eq:
  "snow_to_string b (x :: 'a word snowflake) = Inr (canonical_text (snow_to_raw x))"
  by (simp add: snow_to_string_def snow_encode_def formatter_new_eq snow_formatter_as_str_def
      snow_formatter_as_bytes_def)

lemma decode_total: "is_ok (snow_decode L s :: ('a word snowflake base32_error + _) res)"
  unfolding snow_decode_def
  by (rule is_ok_and_then_total) (simp_all add: inner_decode_cases [OF be'] handle_error_is_ok)

lemma decode_canonical:
  fixes x :: "'a word snowflake"
  shows "snow_decode L (canonical_text (snow_to_raw x)) =
    Inr (if snow_is_valid L x then Inr x else Inl (DecodeOverflow x))"
  by (simp add: snow_decode_def inner_decode_cases [OF be'] canonical_text_digits [OF be'])

lemma decode_valid:
  "snow_decode L s = Inr (Inr (x :: 'a word snowflake)) \<Longrightarrow> snow_is_valid L x"
  by (auto simp: snow_decode_def split: if_splits)

end

sublocale be_snowflake \<subseteq> snow_text: base32_text
  "snow_to_string b :: 'a word snowflake \<Rightarrow> _" "snow_from_str L" "snow_is_valid L"
  "\<lambda>x. canonical_text (snow_to_raw x)" "be_BASE32_SIZE TYPE('a)"
proof unfold_locales
  fix s :: bytes
  assume "length s \<noteq> be_BASE32_SIZE TYPE('a)"
  then show "snow_from_str L s = Inr (Inl (DecodeInvalidLen (length s)) :: _ + 'a word snowflake)"
    by (simp add: snow_from_str_def snow_decode_def inner_decode_def)
qed (auto simp: snow_from_str_def to_string_eq decode_canonical decode_total
    canonical_text_less_iff [OF be'] less_snowflake_def intro: decode_valid)

locale be_ulid = wf_ulid_layout +
  fixes b :: build
  assumes be: "be_type ty"
begin

lemma be': "be_type TYPE('a)"
  using be by (simp add: be_type_def)

lemma formatter_new_eq: "ulid_formatter_new b (x :: 'a word ulid) =
    Inr (UlidFormatter (canonical_text (ulid_to_raw x)))"
  by (simp add: ulid_formatter_new_def inner_encode_canonical [OF be'] inner_base32_array_def)

lemma to_string_eq: "ulid_to_string b (x :: 'a word ulid) = Inr (canonical_text (ulid_to_raw x))"
  by (simp add: ulid_to_string_def ulid_encode_def formatter_new_eq ulid_formatter_as_str_def
      ulid_formatter_as_bytes_def)

lemma decode_total: "is_ok (ulid_decode L s :: ('a word ulid base32_error + _) res)"
  unfolding ulid_decode_def
  by (rule is_ok_and_then_total) (simp_all add: inner_decode_cases [OF be'] handle_error_is_ok)

lemma decode_canonical:
  fixes x :: "'a word ulid"
  shows "ulid_decode L (canonical_text (ulid_to_raw x)) =
    Inr (if ulid_is_valid_id L x then Inr x else Inl (DecodeOverflow x))"
  by (simp add: ulid_decode_def inner_decode_cases [OF be'] canonical_text_digits [OF be'])

lemma decode_valid: "ulid_decode L s = Inr (Inr (x :: 'a word ulid)) \<Longrightarrow> ulid_is_valid_id L x"
  by (auto simp: ulid_decode_def split: if_splits)

end

sublocale be_ulid \<subseteq> ulid_text: base32_text
  "ulid_to_string b :: 'a word ulid \<Rightarrow> _" "ulid_from_str L" "ulid_is_valid_id L"
  "\<lambda>x. canonical_text (ulid_to_raw x)" "be_BASE32_SIZE TYPE('a)"
proof unfold_locales
  fix s :: bytes
  assume "length s \<noteq> be_BASE32_SIZE TYPE('a)"
  then show "ulid_from_str L s = Inr (Inl (DecodeInvalidLen (length s)) :: _ + 'a word ulid)"
    by (simp add: ulid_from_str_def ulid_decode_def inner_decode_def)
qed (auto simp: ulid_from_str_def to_string_eq decode_canonical decode_total
    canonical_text_less_iff [OF be'] less_ulid_def intro: decode_valid)

interpretation twitter_text: be_snowflake "TYPE(64)" SnowflakeTwitterId b for b
  by unfold_locales (simp add: be_type_def)

interpretation discord_text: be_snowflake "TYPE(64)" SnowflakeDiscordId b for b
  by unfold_locales (simp add: be_type_def)

interpretation mastodon_text: be_snowflake "TYPE(64)" SnowflakeMastodonId b for b
  by unfold_locales (simp add: be_type_def)

interpretation instagram_text: be_snowflake "TYPE(64)" SnowflakeInstagramId b for b
  by unfold_locales (simp add: be_type_def)

interpretation ulid128_text: be_ulid "TYPE(128)" ULID b for b
  by unfold_locales (simp add: be_type_def)

subsection \<open>Properties\<close>

context be_snowflake
begin

lemma from_str_scan:
  "snow_from_str L s = (Inr (
     if length s \<noteq> be_BASE32_SIZE TYPE('a) then Inl (DecodeInvalidLen (length s))
     else case crockford_scan 0 s 0 of
       Inl (c, i) \<Rightarrow> Inl (DecodeInvalidAscii c i)
     | Inr v \<Rightarrow>
         let x = Snowflake (word_of_nat v)
         in if snow_is_valid L x then Inr x else Inl (DecodeOverflow x))
     :: ('a word snowflake base32_error + 'a word snowflake) res)"
  by (simp add: snow_from_str_def snow_decode_def inner_decode_def snow_from_raw_def Let_def
      decode_base32_scan [OF be_type_size(1) [OF be']] split: sum.split)

lemma encode_to_buf_eq:
  "length buf = be_BASE32_SIZE TYPE('a) \<Longrightarrow>
     snow_encode_to_buf b (x :: 'a word snowflake) buf = snow_encode b x"
  by (simp add: snow_encode_to_buf_def snow_formatter_ref_new_def snow_encode_def
      formatter_new_eq inner_encode_canonical [OF be'])

end

context be_ulid
begin

lemma from_str_scan:
  "ulid_from_str L s = (Inr (
     if length s \<noteq> be_BASE32_SIZE TYPE('a) then Inl (DecodeInvalidLen (length s))
     else case crockford_scan 0 s 0 of
       Inl (c, i) \<Rightarrow> Inl (DecodeInvalidAscii c i)
     | Inr v \<Rightarrow>
         let x = Ulid (word_of_nat v)
         in if ulid_is_valid_id L x then Inr x else Inl (DecodeOverflow x))
     :: ('a word ulid base32_error + 'a word ulid) res)"
  by (simp add: ulid_from_str_def ulid_decode_def inner_decode_def ulid_from_raw_def Let_def
      decode_base32_scan [OF be_type_size(1) [OF be']] split: sum.split)

lemma encode_to_buf_eq:
  "length buf = be_BASE32_SIZE TYPE('a) \<Longrightarrow>
     ulid_encode_to_buf b (x :: 'a word ulid) buf = ulid_encode b x"
  by (simp add: ulid_encode_to_buf_def ulid_formatter_ref_new_def ulid_encode_def
      formatter_new_eq inner_encode_canonical [OF be'])

end

lemma be_snowflakeI:
  "layout_wf TYPE('a::len) L \<Longrightarrow> be_type TYPE('a) \<Longrightarrow> be_snowflake TYPE('a) L"
  by (simp add: be_snowflake_def be_snowflake_axioms_def wf_snowflake_layoutI)

lemma be_ulidI: "ulid_layout_wf TYPE('a::len) L \<Longrightarrow> be_type TYPE('a) \<Longrightarrow> be_ulid TYPE('a) L"
  by (simp add: be_ulid_def be_ulid_axioms_def wf_ulid_layout_def)

lemma ULID_always_valid: "ulid_is_valid_id ULID (x :: u128 ulid)"
  unfolding ulid128.is_valid_iff
  using unsigned_less [of "ulid_to_raw x"] by (simp add: ulid_consts ULID_def)

text \<open>C4: printing a Snowflake identifier and parsing the text gives the identifier back when it
  is valid, and the \<open>DecodeOverflow\<close> error carrying it when its reserved bits are set; neither
  direction panics or leaves a buffer.\<close>

theorem snow_text_roundtrip:
  fixes x :: "'a::len word snowflake"
  assumes "layout_wf TYPE('a) L" and "be_type TYPE('a)"
  shows "and_then (snow_to_string b x) (snow_from_str L) =
    Inr (if snow_is_valid L x then Inr x else Inl (DecodeOverflow x))"
  using be_snowflake.decode_canonical [OF be_snowflakeI [OF assms], of x]
  by (simp add: be_snowflake.to_string_eq [OF be_snowflakeI [OF assms]] snow_from_str_def)

theorem snow_text_roundtrip_witness:
  "and_then (snow_to_string Debug (Snowflake (12345 :: u64))) (snow_from_str SnowflakeTwitterId) =
     Inr (Inr (Snowflake (12345 :: u64)))"
proof -
  have "be_type TYPE(64)" by (simp add: be_type_def)
  moreover have "snow_is_valid SnowflakeTwitterId (Snowflake (12345 :: u64))" by code_simp
  ultimately show ?thesis
    using snow_text_roundtrip [OF twitter_wf, of Debug "Snowflake 12345"] by simp
qed

text \<open>The text form of identifiers has a fixed length and sorts, byte by byte, exactly as the
  identifiers do.\<close>

lemma snow_text_sorts_like_ids:
  fixes x y :: "'a::len word snowflake"
  assumes "layout_wf TYPE('a) L" and "be_type TYPE('a)"
  shows "\<exists>s t. snow_to_string b x = Inr s \<and> snow_to_string b' y = Inr t \<and>
    length s = be_BASE32_SIZE TYPE('a) \<and> length t = be_BASE32_SIZE TYPE('a) \<and>
    (s < t \<longleftrightarrow> x < y) \<and> (s = t \<longleftrightarrow> x = y)"
proof -
  have "canonical_text (snow_to_raw x) < canonical_text (snow_to_raw y) \<longleftrightarrow> x < y" for x y :: "'a word snowflake"
    by (simp add: canonical_text_less_iff [OF assms(2)] less_snowflake_def)
  moreover from this have "canonical_text (snow_to_raw x) = canonical_text (snow_to_raw y) \<longleftrightarrow> x = y"
    by (metis less_irrefl linorder_neqE)
  ultimately show ?thesis
    by (simp add: be_snowflake.to_string_eq [OF be_snowflakeI [OF assms]])
qed

lemma snow_text_sorts_like_ids_witness:
  "\<exists>s t. snow_to_string Release (Snowflake (9 :: u64)) = Inr s \<and>
     snow_to_string Debug (Snowflake (10 :: u64)) = Inr t \<and> s < t"
proof -
  have be: "be_type TYPE(64)" by (simp add: be_type_def)
  have "Snowflake (9 :: u64) < Snowflake 10" by (simp add: less_snowflake_def)
  with snow_text_sorts_like_ids [OF twitter_wf be, of Release "Snowflake 9" Debug "Snowflake 10"]
  show ?thesis by blast
qed

text \<open>C20: \<open>FromStr\<close> for Snowflake identifiers, on every input: a wrong length, the first byte
  outside the alphabet, an identifier with reserved bits set, or the identifier whose backing
  integer is the value of the digits, with the bits above its width discarded. It never panics.\<close>

theorem snow_from_str_complete:
  assumes "layout_wf TYPE('a::len) L" and "be_type TYPE('a)"
  shows "snow_from_str L s = (Inr (
     if length s \<noteq> be_BASE32_SIZE TYPE('a) then Inl (DecodeInvalidLen (length s))
     else case crockford_scan 0 s 0 of
       Inl (c, i) \<Rightarrow> Inl (DecodeInvalidAscii c i)
     | Inr v \<Rightarrow>
         let x = Snowflake (word_of_nat v)
         in if snow_is_valid L x then Inr x else Inl (DecodeOverflow x))
     :: ('a word snowflake base32_error + 'a word snowflake) res)"
  by (rule be_snowflake.from_str_scan [OF be_snowflakeI [OF assms]])

theorem snow_from_str_complete_witness:
  "snow_from_str SnowflakeTwitterId [] =
     (Inr (Inl (DecodeInvalidLen 0)) :: (u64 snowflake base32_error + u64 snowflake) res)"
proof -
  have be: "be_type TYPE(64)" by (simp add: be_type_def)
  show ?thesis
    unfolding snow_from_str_complete [OF twitter_wf be] by code_simp
qed

text \<open>C21: the same round trip and ordering for the 128-bit ULID, whose layout has no reserved
  bits, so that every value prints and parses back.\<close>

theorem ulid_text_roundtrip_and_order:
  "\<exists>s t. ulid_to_string b (x :: u128 ulid) = Inr s \<and> ulid_to_string b' y = Inr t \<and>
    length s = 26 \<and> length t = 26 \<and> ulid_from_str ULID s = Inr (Inr x) \<and> (s < t \<longleftrightarrow> x < y)"
proof -
  have "be_BASE32_SIZE TYPE(128) = 26"
    by (simp add: be_BASE32_SIZE_def base32_size_def be_SIZE_def)
  then show ?thesis
    using ulid128_text.ulid_text.from_str_repr [of x] ulid128_text.ulid_text.repr_less [of x y]
      ulid128_text.ulid_text.to_string_repr ulid128_text.ulid_text.repr_length
    by (simp add: ULID_always_valid)
qed

text \<open>\<open>FromStr\<close> for the 128-bit ULID accepts every 26-character text over the alphabet,
  including those above \<open>7ZZZZZZZZZZZZZZZZZZZZZZZZZ\<close>, whose two excess bits it drops; it
  fails only on a wrong length or a byte outside the alphabet, never with an overflow.\<close>

lemma ulid_from_str_complete:
  "ulid_from_str ULID s = (Inr (
     if length s \<noteq> 26 then Inl (DecodeInvalidLen (length s))
     else case crockford_scan 0 s 0 of
       Inl (c, i) \<Rightarrow> Inl (DecodeInvalidAscii c i)
     | Inr v \<Rightarrow> Inr (Ulid (word_of_nat (v mod 2 ^ 128))))
     :: (u128 ulid base32_error + u128 ulid) res)"
proof -
  have size: "be_BASE32_SIZE TYPE(128) = 26"
    by (simp add: be_BASE32_SIZE_def base32_size_def be_SIZE_def)
  have "word_of_nat (v mod 2 ^ 128) = (word_of_nat v :: u128)" for v
    by (rule word_unat_eq_iff [THEN iffD2]) (simp add: unat_of_nat)
  then show ?thesis
    unfolding ulid128_text.from_str_scan size
    by (simp add: ULID_always_valid Let_def split: sum.split)
qed

text \<open>The allocation-free \<open>encode_to_buf\<close> of both families writes the same text into the
  caller's buffer as \<open>encode\<close> returns, whatever the buffer held, and the bytes are always the
  ASCII that the unchecked conversion to \<open>str\<close> needs.\<close>

lemma encode_to_buf_same_text:
  assumes "be_type TYPE('a::len)" and "length buf = be_BASE32_SIZE TYPE('a)"
    and "layout_wf TYPE('a) L" and "ulid_layout_wf TYPE('a) M"
  shows "snow_encode_to_buf b (x :: 'a word snowflake) buf = snow_encode b x \<and>
    is_ok (and_then (snow_encode_to_buf b x buf) snow_formatter_as_str) \<and>
    ulid_encode_to_buf b (y :: 'a word ulid) buf = ulid_encode b y \<and>
    is_ok (and_then (ulid_encode_to_buf b y buf) ulid_formatter_as_str)"
  using be_snowflake.encode_to_buf_eq [OF be_snowflakeI [OF assms(3,1)] assms(2), of b x]
    be_snowflake.to_string_eq [OF be_snowflakeI [OF assms(3,1)], of b x]
    be_ulid.encode_to_buf_eq [OF be_ulidI [OF assms(4,1)] assms(2), of b y]
    be_ulid.to_string_eq [OF be_ulidI [OF assms(4,1)], of b y]
  by (simp add: snow_to_string_def ulid_to_string_def del: and_then_eq_Inr_iff)

lemma encode_to_buf_same_text_witness:
  "snow_encode_to_buf Debug (Snowflake (7 :: u128)) (replicate 26 255) =
     snow_encode Debug (Snowflake (7 :: u128)) \<and>
   ulid_encode_to_buf Debug (Ulid (7 :: u128)) (replicate 26 255) =
     ulid_encode Debug (Ulid (7 :: u128))"
proof -
  have "be_type TYPE(128)" and "length (replicate 26 (255 :: u8)) = be_BASE32_SIZE TYPE(128)"
    and "layout_wf TYPE(128) \<lparr>reserved_bits = 0, timestamp_bits = 64, machine_bits = 32,
      sequence_bits = 32\<rparr>"
    by (simp_all add: be_type_def be_BASE32_SIZE_def base32_size_def be_SIZE_def layout_wf_def
        layout_assert_def layout_consts)
  from encode_to_buf_same_text [OF this ulid128.wf] show ?thesis by blast
qed

end
