(* ===== verification/Generator_Interface.thy ===== *)
theory Generator_Interface
  imports Id_Interface
begin

text \<open>
  What all generators share: the outcome \<open>Poll\<close>
  (\<^verbatim>\<open>crates/ferroid/src/generator/status.rs\<close>), the error type
  (\<^verbatim>\<open>generator/error.rs\<close>), the retry loops around polling, and the contract of the
  traits \<open>SnowflakeGenerator\<close> and \<open>UlidGenerator\<close>
  (\<^verbatim>\<open>generator/snowflake/interface.rs\<close>, \<^verbatim>\<open>generator/ulid/interface.rs\<close>) as the
  locale \<open>id_generator\<close>.

  A time source is a parameter \<open>current_millis\<close> that maps the source's state to a reading
  and its next state: nothing is assumed about successive readings unless a lemma says so,
  which covers clocks that stall, jump or run backwards. Polling takes a generator to an
  outcome and the next generator; a panic leaves the generator as the unwinding leaves it.
\<close>

subsection \<open>Outcomes and errors\<close>

datatype ('id, 'ty) poll = Ready 'id | Pending 'ty

datatype gen_error = LockPoisoned

datatype ordering = Less | Equal | Greater

definition rust_cmp :: "'a::linorder \<Rightarrow> 'a \<Rightarrow> ordering" where
  "rust_cmp x y = (if x < y then Less else if x = y then Equal else Greater)"

definition cold_clock_behind ::
  "build \<Rightarrow> 'a::len word \<Rightarrow> 'a word \<Rightarrow> ('id, 'a word) poll res" where
  "cold_clock_behind b now current_ts =
     and_then (rust_sub b current_ts now) (\<lambda>yield_for.
     and_then (debug_assert b (0 \<le> yield_for) ''assertion failed: yield_for >= ID::ZERO'') (\<lambda>_.
       Inr (Pending yield_for)))"

subsection \<open>Retry loops\<close>

text \<open>
  \<open>next_id\<close> polls until an identifier is ready and hands every wait to the caller's
  callback; the loop returns the waits in the order of the calls. Not returning is
  \<open>None\<close>. In \<open>try_next_loop\<close> the \<open>?\<close> operator leaves the loop with the error.
\<close>

partial_function (option) next_loop ::
  "('g \<Rightarrow> ('id, 'ty) poll res \<times> 'g) \<Rightarrow> 'g \<Rightarrow> 'ty list \<Rightarrow> ('id res \<times> 'g \<times> 'ty list) option" where
  "next_loop poll_id g waits =
     (case poll_id g of
        (Inl panic, g') \<Rightarrow> Some (Inl panic, g', waits)
      | (Inr (Ready x), g') \<Rightarrow> Some (Inr x, g', waits)
      | (Inr (Pending yield_for), g') \<Rightarrow> next_loop poll_id g' (waits @ [yield_for]))"

partial_function (option) try_next_loop ::
  "('g \<Rightarrow> ('e + ('id, 'ty) poll) res \<times> 'g) \<Rightarrow> 'g \<Rightarrow> 'ty list \<Rightarrow>
     (('e + 'id) res \<times> 'g \<times> 'ty list) option" where
  "try_next_loop try_poll_id g waits =
     (case try_poll_id g of
        (Inl panic, g') \<Rightarrow> Some (Inl panic, g', waits)
      | (Inr (Inl e), g') \<Rightarrow> Some (Inr (Inl e), g', waits)
      | (Inr (Inr (Ready x)), g') \<Rightarrow> Some (Inr (Inr x), g', waits)
      | (Inr (Inr (Pending yield_for)), g') \<Rightarrow>
          try_next_loop try_poll_id g' (waits @ [yield_for]))"

lemma next_loop_now:
  "poll_id g = (Inr (Ready x), h) \<Longrightarrow> next_loop poll_id g waits = Some (Inr x, h, waits)"
  by (subst next_loop.simps) simp

text \<open>A loop that returns went through pending polls to the poll that gave its result.\<close>

definition pending_step :: "('g \<Rightarrow> ('id, 'ty) poll res \<times> 'g) \<Rightarrow> 'g \<Rightarrow> 'g \<Rightarrow> bool" where
  "pending_step poll_id g h \<longleftrightarrow> (\<exists>d. poll_id g = (Inr (Pending d), h))"

lemma next_loop_polls:
  fixes poll_id :: "'g \<Rightarrow> ('id, 'ty) poll res \<times> 'g"
  assumes "next_loop poll_id g ws = Some r"
  shows "\<exists>k. (pending_step poll_id)\<^sup>*\<^sup>* g k \<and> poll_id k = (map_ok Ready (fst r), fst (snd r))"
proof (rule next_loop.raw_induct [OF _ assms, where P = "\<lambda>poll_id g ws r.
      \<exists>k. (pending_step poll_id)\<^sup>*\<^sup>* g k \<and> poll_id k = (map_ok Ready (fst r), fst (snd r))"])
  fix loop :: "('g \<Rightarrow> ('id, 'ty) poll res \<times> 'g) \<Rightarrow> 'g \<Rightarrow> 'ty list \<Rightarrow> ('id res \<times> 'g \<times> 'ty list) option"
    and poll_id :: "'g \<Rightarrow> ('id, 'ty) poll res \<times> 'g" and g ws r
  assume IH: "\<And>poll_id g ws r. loop poll_id g ws = Some r \<Longrightarrow>
      \<exists>k. (pending_step poll_id)\<^sup>*\<^sup>* g k \<and> poll_id k = (map_ok Ready (fst r), fst (snd r))"
    and body: "(case poll_id g of
        (Inl panic, g') \<Rightarrow> Some (Inl panic, g', ws)
      | (Inr (Ready x), g') \<Rightarrow> Some (Inr x, g', ws)
      | (Inr (Pending yield_for), g') \<Rightarrow> loop poll_id g' (ws @ [yield_for])) = Some r"
  show "\<exists>k. (pending_step poll_id)\<^sup>*\<^sup>* g k \<and> poll_id k = (map_ok Ready (fst r), fst (snd r))"
  proof (cases "\<exists>d. fst (poll_id g) = Inr (Pending d)")
    case True
    then obtain d g' where d: "poll_id g = (Inr (Pending d), g')" by (metis prod.collapse)
    then have "pending_step poll_id g g'" by (auto simp: pending_step_def)
    then have "(pending_step poll_id)\<^sup>*\<^sup>* g k" if "(pending_step poll_id)\<^sup>*\<^sup>* g' k" for k
      using that by (rule converse_rtranclp_into_rtranclp)
    with IH [of poll_id g' "ws @ [d]" r] body d show ?thesis by fastforce
  next
    case False
    with body show ?thesis
      by (intro exI [of _ g]) (auto split: prod.splits sum.splits poll.splits)
  qed
qed

lemma next_loop_chain:
  assumes "next_loop poll_id g ws = Some (r, h, ws')"
  obtains k where "(pending_step poll_id)\<^sup>*\<^sup>* g k" "poll_id k = (map_ok Ready r, h)"
  using next_loop_polls [OF assms] that by auto

text \<open>The infallible generators implement the fallible trait methods by \<open>Ok(self.poll_id())\<close>.\<close>

definition ok_poll :: "('id, 'ty) poll res \<times> 'g \<Rightarrow> ('e + ('id, 'ty) poll) res \<times> 'g" where
  "ok_poll r = (map_ok Inr (fst r), snd r)"

text \<open>The identifier a poll leaves behind, given the one it found.\<close>

definition installed :: "'id \<Rightarrow> ('id, 'ty) poll res \<Rightarrow> 'id" where
  "installed x r = (case r of Inr (Ready y) \<Rightarrow> y | _ \<Rightarrow> x)"

lemma installed_simps [simp]:
  "installed x (Inl f) = x" "installed x (Inr (Ready y)) = y" "installed x (Inr (Pending d)) = x"
  by (simp_all add: installed_def)

lemma map_ok_Ready: "map_ok Inr r = Inr (Inr (Ready x)) \<longleftrightarrow> r = Inr (Ready x)"
  by (auto simp: map_ok_eq_Inr_iff)

lemma installed_other: "(\<And>y. r \<noteq> Inr (Ready y)) \<Longrightarrow> installed x r = x"
  by (auto simp: installed_def split: sum.split poll.split)

lemma cold_clock_behind_ok [simp]:
  "now < ts \<Longrightarrow> cold_clock_behind b now ts = Inr (Pending (ts - now))"
  by (simp add: cold_clock_behind_def)

subsection \<open>Clocks\<close>

text \<open>The \<open>n\<close>-th reading of a time source, counted from its state \<open>t\<close>.\<close>

definition reading :: "('t \<Rightarrow> 'a::len word \<times> 't) \<Rightarrow> 't \<Rightarrow> nat \<Rightarrow> 'a word" where
  "reading current_millis t n = fst (current_millis (((\<lambda>t. snd (current_millis t)) ^^ n) t))"

definition always_below :: "('t \<Rightarrow> 'a::len word \<times> 't) \<Rightarrow> nat \<Rightarrow> 't \<Rightarrow> bool" where
  "always_below current_millis bound t \<longleftrightarrow> (\<forall>n. unat (reading current_millis t n) < bound)"

lemma reading_0: "reading cm t 0 = fst (cm t)"
  by (simp add: reading_def)

lemma reading_Suc: "reading cm t (Suc n) = reading cm (snd (cm t)) n"
  by (simp only: reading_def funpow_Suc_right o_apply)

lemma always_below_now: "always_below cm k t \<Longrightarrow> unat (fst (cm t)) < k"
  using reading_0 [of cm t] by (metis always_below_def)

lemma always_below_next: "always_below cm k t \<Longrightarrow> always_below cm k (snd (cm t))"
  unfolding always_below_def by (metis reading_Suc)

subsection \<open>The contract of a generator\<close>

text \<open>
  One poll of the abstract generator: its state is the time and the payload (sequence or
  random part) of the last identifier, \<open>maxp\<close> the largest payload and \<open>fresh\<close> the
  payload a new tick starts with.
\<close>

fun spec_poll :: "nat \<Rightarrow> nat \<Rightarrow> nat \<Rightarrow> nat \<times> nat \<Rightarrow> (nat \<times> nat, nat) poll" where
  "spec_poll maxp now fresh (t, p) =
     (if now = t then if p < maxp then Ready (t, Suc p) else Pending 1
      else if t < now then Ready (now, fresh)
      else Pending (t - now))"

text \<open>The identifiers among a list of outcomes, and a number of polls in a row.\<close>

fun ready_ids :: "('e + ('id, 'ty) poll) res list \<Rightarrow> 'id list" where
  "ready_ids [] = []"
| "ready_ids (Inr (Inr (Ready x)) # rs) = x # ready_ids rs"
| "ready_ids (_ # rs) = ready_ids rs"

fun polls :: "('g \<Rightarrow> 'o \<times> 'g) \<Rightarrow> nat \<Rightarrow> 'g \<Rightarrow> 'o list \<times> 'g" where
  "polls poll_id 0 g = ([], g)"
| "polls poll_id (Suc n) g =
     (let (r, g') = poll_id g; (rs, g'') = polls poll_id n g' in (r # rs, g''))"

lemma ready_ids_Cons:
  "ready_ids (r # rs) = (case r of Inr (Inr (Ready x)) \<Rightarrow> [x] | _ \<Rightarrow> []) @ ready_ids rs"
  by (cases "r # rs" rule: ready_ids.cases) simp_all

locale id_generator =
  fixes try_poll :: "'g \<Rightarrow> ('e + ('id::linorder, 'ty) poll) res \<times> 'g"
    and inv :: "'g \<Rightarrow> bool"
    and latest :: "'g \<Rightarrow> 'id"
  assumes keeps_inv: "inv g \<Longrightarrow> inv (snd (try_poll g))"
    and ready: "inv g \<Longrightarrow> fst (try_poll g) = Inr (Inr (Ready x)) \<Longrightarrow>
      latest g < x \<and> latest (snd (try_poll g)) = x"
    and not_ready: "inv g \<Longrightarrow> (\<And>x. fst (try_poll g) \<noteq> Inr (Inr (Ready x))) \<Longrightarrow>
      latest (snd (try_poll g)) = latest g"
begin

lemma polls_inv: "inv g \<Longrightarrow> inv (snd (polls try_poll n g))"
  by (induction n arbitrary: g) (auto simp: Let_def case_prod_beta dest: keeps_inv)

lemma step_cases:
  assumes "inv g"
  obtains (Ready) x where "fst (try_poll g) = Inr (Inr (Ready x))"
      "latest g < x" "latest (snd (try_poll g)) = x"
  | (Other) "\<And>x. fst (try_poll g) \<noteq> Inr (Inr (Ready x))"
      "latest (snd (try_poll g)) = latest g"
  using ready [OF assms] not_ready [OF assms] by metis

text \<open>Identifiers handed out by any number of polls increase strictly, whatever the clock does.\<close>

theorem ready_increasing:
  "inv g \<Longrightarrow> sorted_wrt (<) (latest g # ready_ids (fst (polls try_poll n g)))"
proof (induction n arbitrary: g)
  case (Suc n)
  let ?g = "snd (try_poll g)"
  have IH: "sorted_wrt (<) (latest ?g # ready_ids (fst (polls try_poll n ?g)))"
    by (rule Suc.IH) (rule keeps_inv [OF Suc.prems])
  show ?case
    using Suc.prems
  proof (cases rule: step_cases)
    case (Ready x)
    with IH show ?thesis by (auto simp: Let_def case_prod_beta ready_ids_Cons)
  next
    case Other
    then have "ready_ids (fst (polls try_poll (Suc n) g)) = ready_ids (fst (polls try_poll n ?g))"
      by (auto simp: Let_def case_prod_beta ready_ids_Cons split: sum.split poll.split)
    with IH Other show ?thesis by simp
  qed
qed simp

corollary ready_distinct: "inv g \<Longrightarrow> distinct (ready_ids (fst (polls try_poll n g)))"
  using ready_increasing [of g n] by (simp add: strict_sorted_iff)

lemma ready_origin:
  "inv g \<Longrightarrow> x \<in> set (ready_ids (fst (polls try_poll n g))) \<Longrightarrow> \<exists>h. inv h \<and> latest h = x"
proof (induction n arbitrary: g)
  case (Suc n)
  let ?g = "snd (try_poll g)"
  have inv: "inv ?g" by (rule keeps_inv [OF Suc.prems(1)])
  from Suc.prems(2) consider "fst (try_poll g) = Inr (Inr (Ready x))"
    | "x \<in> set (ready_ids (fst (polls try_poll n ?g)))"
    by (auto simp: Let_def case_prod_beta ready_ids_Cons split: sum.splits poll.splits)
  then show ?case
    using inv ready [OF Suc.prems(1)] Suc.IH [OF inv] by cases blast+
qed simp

end

text \<open>Two generators that answer alike and stay related answer alike for ever.\<close>

lemma polls_simulation:
  assumes "\<And>g h. R g h \<Longrightarrow> fst (p g) = fst (q h) \<and> R (snd (p g)) (snd (q h))" and "R g h"
  shows "fst (polls p n g) = fst (polls q n h)"
  using assms(2)
proof (induction n arbitrary: g h)
  case (Suc n)
  then show ?case using assms(1) [of g h] by (simp add: Let_def case_prod_beta)
qed simp

subsection \<open>Generators that wait for a clock\<close>

text \<open>
  A generator that leaves its last identifier alone while it waits, reads its clock once per
  poll, and cannot be pending when the reading is later than that identifier's tick: its
  retry loop returns once the clock gets there.
\<close>

locale clocked_generator =
  fixes poll_id :: "'g \<Rightarrow> ('id::linorder, 'a::len word) poll res \<times> 'g"
    and inv :: "'g \<Rightarrow> bool"
    and latest :: "'g \<Rightarrow> 'id"
    and tick :: "'id \<Rightarrow> 'a word"
    and time :: "'g \<Rightarrow> 't"
    and current_millis :: "'t \<Rightarrow> 'a word \<times> 't"
  assumes answers: "inv g \<Longrightarrow> \<exists>r. fst (poll_id g) = Inr r"
    and pending: "inv g \<Longrightarrow> fst (poll_id g) = Inr (Pending d) \<Longrightarrow>
      inv (snd (poll_id g)) \<and> latest (snd (poll_id g)) = latest g \<and>
      time (snd (poll_id g)) = snd (current_millis (time g)) \<and>
      \<not> tick (latest g) < fst (current_millis (time g)) \<and> 1 \<le> d"
    and ready_later: "inv g \<Longrightarrow> fst (poll_id g) = Inr (Ready x) \<Longrightarrow>
      latest g < x \<and> latest (snd (poll_id g)) = x"
begin

theorem next_loop_returns:
  assumes "inv g" and "tick (latest g) < reading current_millis (time g) n"
  shows "\<exists>x h ds. next_loop poll_id g waits = Some (Inr x, h, waits @ ds) \<and>
    latest g < x \<and> latest h = x \<and> length ds \<le> n \<and> (\<forall>d \<in> set ds. 1 \<le> d)"
  using assms
proof (induction n arbitrary: g waits)
  case (0 g)
  obtain x where x: "fst (poll_id g) = Inr (Ready x)"
    using answers [OF 0(1)] pending [OF 0(1)] 0(2) by (metis poll.exhaust reading_0)
  then have "next_loop poll_id g waits = Some (Inr x, snd (poll_id g), waits)"
    by (subst next_loop.simps) (simp add: case_prod_beta)
  with ready_later [OF 0(1) x] show ?case by auto
next
  case (Suc n g)
  show ?case
  proof (cases "\<exists>d. fst (poll_id g) = Inr (Pending d)")
    case True
    then obtain d where d: "fst (poll_id g) = Inr (Pending d)" by blast
    let ?g = "snd (poll_id g)"
    have p: "inv ?g" "latest ?g = latest g" "time ?g = snd (current_millis (time g))" "1 \<le> d"
      using pending [OF Suc.prems(1) d] by auto
    have "tick (latest ?g) < reading current_millis (time ?g) n"
      using Suc.prems(2) by (simp add: p reading_Suc)
    from Suc.IH [OF p(1) this, of "waits @ [d]"] obtain x h ds where
      "next_loop poll_id ?g (waits @ [d]) = Some (Inr x, h, waits @ d # ds)"
      "latest g < x" "latest h = x" "length ds \<le> n" "\<forall>d \<in> set ds. 1 \<le> d"
      by (auto simp: p(2))
    moreover have "next_loop poll_id g waits = next_loop poll_id ?g (waits @ [d])"
      using d by (subst next_loop.simps) (simp add: case_prod_beta)
    ultimately show ?thesis using p(4) by (intro exI [of _ x] exI [of _ h] exI [of _ "d # ds"]) auto
  next
    case False
    then obtain x where x: "fst (poll_id g) = Inr (Ready x)"
      using answers [OF Suc.prems(1)] by (metis poll.exhaust)
    then have "next_loop poll_id g waits = Some (Inr x, snd (poll_id g), waits)"
      by (subst next_loop.simps) (simp add: case_prod_beta)
    with ready_later [OF Suc.prems(1) x] show ?thesis by auto
  qed
qed

end

end
