(* ===== verification/Snowflake_Generators.thy ===== *)
theory Snowflake_Generators
  imports Generator_Interface Snowflake_Id
begin

text \<open>
  The Snowflake generators of \<^verbatim>\<open>crates/ferroid/src/generator/snowflake/\<close>: the
  single-threaded \<open>BasicSnowflakeGenerator\<close>, the mutex-based
  \<open>LockSnowflakeGenerator\<close> with lock poisoning (absent with the feature
  \<open>parking-lot\<close>), and the compare-and-swap based \<open>AtomicSnowflakeGenerator\<close>. This
  theory treats calls one at a time; interleavings of threads are in the theory
  \<open>Concurrent_Generators\<close>.

  Main results: every poll refines the abstract generator \<open>spec_poll\<close>; the three
  generators agree; they satisfy the contract \<open>id_generator\<close>; \<open>next_id\<close> returns as
  soon as the clock passes the last timestamp.
\<close>

subsection \<open>Basic generator\<close>

record ('sid, 't) basic_snow_gen =
  bs_state :: 'sid
  bs_time :: 't

definition basic_snow_from_components ::
  "build \<Rightarrow> snowflake_layout \<Rightarrow> 'a::len word \<Rightarrow> 'a word \<Rightarrow> 'a word \<Rightarrow> 't \<Rightarrow>
     ('a word snowflake, 't) basic_snow_gen res" where
  "basic_snow_from_components b L timestamp machine_id sequence time =
     map_ok (\<lambda>x. \<lparr>bs_state = x, bs_time = time\<rparr>)
       (snow_from_components b L timestamp machine_id sequence)"

definition basic_snow_new ::
  "build \<Rightarrow> snowflake_layout \<Rightarrow> 'a::len word \<Rightarrow> 't \<Rightarrow> ('a word snowflake, 't) basic_snow_gen res" where
  "basic_snow_new b L machine_id time = basic_snow_from_components b L 0 machine_id 0 time"

definition basic_snow_poll_id ::
  "('t \<Rightarrow> 'a::len word \<times> 't) \<Rightarrow> build \<Rightarrow> snowflake_layout \<Rightarrow>
     ('a word snowflake, 't) basic_snow_gen \<Rightarrow>
     ('a word snowflake, 'a word) poll res \<times> ('a word snowflake, 't) basic_snow_gen" where
  "basic_snow_poll_id current_millis b L g =
     (let (now, time) = current_millis (bs_time g);
          g = g\<lparr>bs_time := time\<rparr>;
          state = bs_state g;
          current_ts = snow_timestamp L state
      in case rust_cmp now current_ts of
           Equal \<Rightarrow>
             (if snow_has_sequence_room L state
              then case snow_increment_sequence b L state of
                     Inl panic \<Rightarrow> (Inl panic, g)
                   | Inr updated \<Rightarrow> (Inr (Ready updated), g\<lparr>bs_state := updated\<rparr>)
              else (Inr (Pending 1), g))
         | Greater \<Rightarrow>
             (case snow_rollover_to_timestamp b L state now of
                Inl panic \<Rightarrow> (Inl panic, g)
              | Inr updated \<Rightarrow> (Inr (Ready updated), g\<lparr>bs_state := updated\<rparr>))
         | Less \<Rightarrow> (cold_clock_behind b now current_ts, g))"

definition basic_snow_next_id ::
  "('t \<Rightarrow> 'a::len word \<times> 't) \<Rightarrow> build \<Rightarrow> snowflake_layout \<Rightarrow>
     ('a word snowflake, 't) basic_snow_gen \<Rightarrow>
     ('a word snowflake res \<times> ('a word snowflake, 't) basic_snow_gen \<times> 'a word list) option" where
  "basic_snow_next_id current_millis b L g = next_loop (basic_snow_poll_id current_millis b L) g []"

definition basic_snow_try_poll_id ::
  "('t \<Rightarrow> 'a::len word \<times> 't) \<Rightarrow> build \<Rightarrow> snowflake_layout \<Rightarrow>
     ('a word snowflake, 't) basic_snow_gen \<Rightarrow>
     (gen_error + ('a word snowflake, 'a word) poll) res \<times>
       ('a word snowflake, 't) basic_snow_gen" where
  "basic_snow_try_poll_id current_millis b L g = ok_poll (basic_snow_poll_id current_millis b L g)"

subsection \<open>Lock generator\<close>

text \<open>
  The mutex is its content and the poison flag that a panic under the guard sets;
  \<open>parking_lot\<close> mutexes have no such flag. The clock is read before the lock is taken.
\<close>

record ('sid, 't) lock_snow_gen =
  ls_state :: 'sid
  ls_poisoned :: bool
  ls_time :: 't

definition lock_snow_from_components ::
  "build \<Rightarrow> snowflake_layout \<Rightarrow> 'a::len word \<Rightarrow> 'a word \<Rightarrow> 'a word \<Rightarrow> 't \<Rightarrow>
     ('a word snowflake, 't) lock_snow_gen res" where
  "lock_snow_from_components b L timestamp machine_id sequence time =
     map_ok (\<lambda>x. \<lparr>ls_state = x, ls_poisoned = False, ls_time = time\<rparr>)
       (snow_from_components b L timestamp machine_id sequence)"

definition lock_snow_new ::
  "build \<Rightarrow> snowflake_layout \<Rightarrow> 'a::len word \<Rightarrow> 't \<Rightarrow> ('a word snowflake, 't) lock_snow_gen res" where
  "lock_snow_new b L machine_id time = lock_snow_from_components b L 0 machine_id 0 time"

text \<open>The part of \<open>try_poll_id\<close> from taking the lock to releasing it.\<close>

definition lock_snow_critical ::
  "bool \<Rightarrow> build \<Rightarrow> snowflake_layout \<Rightarrow> 'a::len word \<Rightarrow>
     ('a word snowflake, 't) lock_snow_gen \<Rightarrow>
     (gen_error + ('a word snowflake, 'a word) poll) res \<times>
       ('a word snowflake, 't) lock_snow_gen" where
  "lock_snow_critical parking_lot b L now g =
     (if ls_poisoned g \<and> \<not> parking_lot then (Inr (Inl LockPoisoned), g)
      else
        let sid = ls_state g;
            current_ts = snow_timestamp L sid;
            poisoned = g\<lparr>ls_poisoned := \<not> parking_lot\<rparr>
        in case rust_cmp now current_ts of
             Equal \<Rightarrow>
               (if snow_has_sequence_room L sid
                then case snow_increment_sequence b L sid of
                       Inl panic \<Rightarrow> (Inl panic, poisoned)
                     | Inr updated \<Rightarrow> (Inr (Inr (Ready updated)), g\<lparr>ls_state := updated\<rparr>)
                else (Inr (Inr (Pending 1)), g))
           | Greater \<Rightarrow>
               (case snow_rollover_to_timestamp b L sid now of
                  Inl panic \<Rightarrow> (Inl panic, poisoned)
                | Inr updated \<Rightarrow> (Inr (Inr (Ready updated)), g\<lparr>ls_state := updated\<rparr>))
           | Less \<Rightarrow>
               (case cold_clock_behind b now current_ts of
                  Inl panic \<Rightarrow> (Inl panic, poisoned)
                | Inr r \<Rightarrow> (Inr (Inr r), g)))"

definition lock_snow_try_poll_id ::
  "('t \<Rightarrow> 'a::len word \<times> 't) \<Rightarrow> bool \<Rightarrow> build \<Rightarrow> snowflake_layout \<Rightarrow>
     ('a word snowflake, 't) lock_snow_gen \<Rightarrow>
     (gen_error + ('a word snowflake, 'a word) poll) res \<times>
       ('a word snowflake, 't) lock_snow_gen" where
  "lock_snow_try_poll_id current_millis parking_lot b L g =
     (let (now, time) = current_millis (ls_time g)
      in lock_snow_critical parking_lot b L now (g\<lparr>ls_time := time\<rparr>))"

definition lock_snow_try_next_id ::
  "('t \<Rightarrow> 'a::len word \<times> 't) \<Rightarrow> bool \<Rightarrow> build \<Rightarrow> snowflake_layout \<Rightarrow>
     ('a word snowflake, 't) lock_snow_gen \<Rightarrow>
     ((gen_error + 'a word snowflake) res \<times> ('a word snowflake, 't) lock_snow_gen \<times>
       'a word list) option" where
  "lock_snow_try_next_id current_millis parking_lot b L g =
     try_next_loop (lock_snow_try_poll_id current_millis parking_lot b L) g []"

text \<open>\<open>poll_id\<close> and \<open>next_id\<close> exist with the feature \<open>parking-lot\<close> only, where the
  error has no values: its branch is the empty match.\<close>

definition lock_snow_poll_id ::
  "('t \<Rightarrow> 'a::len word \<times> 't) \<Rightarrow> build \<Rightarrow> snowflake_layout \<Rightarrow>
     ('a word snowflake, 't) lock_snow_gen \<Rightarrow>
     ('a word snowflake, 'a word) poll res \<times> ('a word snowflake, 't) lock_snow_gen" where
  "lock_snow_poll_id current_millis b L g =
     (case lock_snow_try_poll_id current_millis True b L g of
        (Inl panic, g') \<Rightarrow> (Inl panic, g')
      | (Inr (Inl e), g') \<Rightarrow> (Inl (Undefined ''value of an empty type''), g')
      | (Inr (Inr p), g') \<Rightarrow> (Inr p, g'))"

definition lock_snow_next_id ::
  "('t \<Rightarrow> 'a::len word \<times> 't) \<Rightarrow> build \<Rightarrow> snowflake_layout \<Rightarrow>
     ('a word snowflake, 't) lock_snow_gen \<Rightarrow>
     ('a word snowflake res \<times> ('a word snowflake, 't) lock_snow_gen \<times> 'a word list) option" where
  "lock_snow_next_id current_millis b L g =
     (case lock_snow_try_next_id current_millis True b L g of
        None \<Rightarrow> None
      | Some (Inl panic, r) \<Rightarrow> Some (Inl panic, r)
      | Some (Inr (Inl e), r) \<Rightarrow> Some (Inl (Undefined ''value of an empty type''), r)
      | Some (Inr (Inr x), r) \<Rightarrow> Some (Inr x, r))"

subsection \<open>Atomic generator\<close>

record ('raw, 't) atomic_snow_gen =
  as_state :: 'raw
  as_time :: 't

definition atomic_snow_from_components ::
  "build \<Rightarrow> snowflake_layout \<Rightarrow> u64 \<Rightarrow> u64 \<Rightarrow> u64 \<Rightarrow> 't \<Rightarrow> (u64, 't) atomic_snow_gen res" where
  "atomic_snow_from_components b L timestamp machine_id sequence time =
     map_ok (\<lambda>initial. \<lparr>as_state = snow_to_raw initial, as_time = time\<rparr>)
       (snow_from_components b L timestamp machine_id sequence)"

definition atomic_snow_new ::
  "build \<Rightarrow> snowflake_layout \<Rightarrow> u64 \<Rightarrow> 't \<Rightarrow> (u64, 't) atomic_snow_gen res" where
  "atomic_snow_new b L machine_id time = atomic_snow_from_components b L 0 machine_id 0 time"

text \<open>
  The middle of \<open>poll_id\<close>: from the loaded word to the identifier it tries to install
  (\<open>Ready\<close>) or to an early return (\<open>Pending\<close>).
\<close>

definition atomic_snow_propose ::
  "build \<Rightarrow> snowflake_layout \<Rightarrow> u64 \<Rightarrow> u64 \<Rightarrow> (u64 snowflake, u64) poll res" where
  "atomic_snow_propose b L now current_raw =
     (let current_id = snow_from_raw current_raw;
          current_ts = snow_timestamp L current_id
      in case rust_cmp now current_ts of
           Equal \<Rightarrow>
             (if snow_has_sequence_room L current_id
              then map_ok Ready (snow_increment_sequence b L current_id)
              else Inr (Pending 1))
         | Greater \<Rightarrow> map_ok Ready (snow_rollover_to_timestamp b L current_id now)
         | Less \<Rightarrow> cold_clock_behind b now current_ts)"

text \<open>
  The compare-and-swap on the current word, which need not be the one that was loaded:
  \<open>current\<close> is the value the atomic holds when the exchange takes place.
\<close>

definition atomic_snow_commit ::
  "u64 \<Rightarrow> (u64 snowflake, u64) poll res \<Rightarrow> u64 \<Rightarrow> (u64 snowflake, u64) poll res \<times> u64" where
  "atomic_snow_commit current_raw proposal current =
     (case proposal of
        Inl panic \<Rightarrow> (Inl panic, current)
      | Inr (Pending yield_for) \<Rightarrow> (Inr (Pending yield_for), current)
      | Inr (Ready next_id) \<Rightarrow>
          (let next_raw = snow_to_raw next_id
           in if current = current_raw then (Inr (Ready next_id), next_raw)
              else (Inr (Pending 0), current)))"

text \<open>\<open>poll_id\<close> without interference from other threads.\<close>

definition atomic_snow_poll_id ::
  "('t \<Rightarrow> u64 \<times> 't) \<Rightarrow> build \<Rightarrow> snowflake_layout \<Rightarrow> (u64, 't) atomic_snow_gen \<Rightarrow>
     (u64 snowflake, u64) poll res \<times> (u64, 't) atomic_snow_gen" where
  "atomic_snow_poll_id current_millis b L g =
     (let (now, time) = current_millis (as_time g);
          current_raw = as_state g;
          (r, raw) = atomic_snow_commit current_raw (atomic_snow_propose b L now current_raw)
                       (as_state g)
      in (r, g\<lparr>as_time := time, as_state := raw\<rparr>))"

definition atomic_snow_try_poll_id ::
  "('t \<Rightarrow> u64 \<times> 't) \<Rightarrow> build \<Rightarrow> snowflake_layout \<Rightarrow> (u64, 't) atomic_snow_gen \<Rightarrow>
     (gen_error + (u64 snowflake, u64) poll) res \<times> (u64, 't) atomic_snow_gen" where
  "atomic_snow_try_poll_id current_millis b L g =
     ok_poll (atomic_snow_poll_id current_millis b L g)"

definition atomic_snow_next_id ::
  "('t \<Rightarrow> u64 \<times> 't) \<Rightarrow> build \<Rightarrow> snowflake_layout \<Rightarrow> (u64, 't) atomic_snow_gen \<Rightarrow>
     (u64 snowflake res \<times> (u64, 't) atomic_snow_gen \<times> u64 list) option" where
  "atomic_snow_next_id current_millis b L g =
     next_loop (atomic_snow_poll_id current_millis b L) g []"

subsection \<open>The decision the three generators share\<close>

definition snow_decide ::
  "build \<Rightarrow> snowflake_layout \<Rightarrow> 'a::len word \<Rightarrow> 'a word snowflake \<Rightarrow>
     ('a word snowflake, 'a word) poll res" where
  "snow_decide b L now x =
     (if now = snow_timestamp L x then
        if snow_has_sequence_room L x then map_ok Ready (snow_increment_sequence b L x)
        else Inr (Pending 1)
      else if snow_timestamp L x < now then map_ok Ready (snow_rollover_to_timestamp b L x now)
      else Inr (Pending (snow_timestamp L x - now)))"

lemma basic_snow_poll_eq:
  "basic_snow_poll_id cm b L g =
     (let r = snow_decide b L (fst (cm (bs_time g))) (bs_state g)
      in (r, \<lparr>bs_state = installed (bs_state g) r, bs_time = snd (cm (bs_time g))\<rparr>))"
  by (cases g)
    (auto simp: basic_snow_poll_id_def snow_decide_def rust_cmp_def Let_def case_prod_beta
      split: sum.split)

lemma lock_snow_critical_eq:
  "lock_snow_critical parking_lot b L now g =
     (if ls_poisoned g \<and> \<not> parking_lot then (Inr (Inl LockPoisoned), g)
      else let r = snow_decide b L now (ls_state g)
      in (map_ok Inr r, g\<lparr>ls_state := installed (ls_state g) r,
            ls_poisoned := (if is_ok r then ls_poisoned g else \<not> parking_lot)\<rparr>))"
  by (cases g)
    (auto simp: lock_snow_critical_def snow_decide_def rust_cmp_def Let_def split: sum.split)

lemma basic_snow_try_poll_eq:
  "fst (basic_snow_try_poll_id cm b L g) =
     map_ok Inr (snow_decide b L (fst (cm (bs_time g))) (bs_state g))"
  "bs_state (snd (basic_snow_try_poll_id cm b L g)) =
     installed (bs_state g) (snow_decide b L (fst (cm (bs_time g))) (bs_state g))"
  "bs_time (snd (basic_snow_try_poll_id cm b L g)) = snd (cm (bs_time g))"
  by (simp_all add: basic_snow_try_poll_id_def ok_poll_def basic_snow_poll_eq Let_def)

lemma lock_snow_try_poll_eq:
  "fst (lock_snow_try_poll_id cm p b L g) =
     (if ls_poisoned g \<and> \<not> p then Inr (Inl LockPoisoned)
      else map_ok Inr (snow_decide b L (fst (cm (ls_time g))) (ls_state g)))"
  "ls_state (snd (lock_snow_try_poll_id cm p b L g)) =
     (if ls_poisoned g \<and> \<not> p then ls_state g
      else installed (ls_state g) (snow_decide b L (fst (cm (ls_time g))) (ls_state g)))"
  "ls_time (snd (lock_snow_try_poll_id cm p b L g)) = snd (cm (ls_time g))"
  "ls_poisoned (snd (lock_snow_try_poll_id cm p b L g)) \<longleftrightarrow>
     (if ls_poisoned g \<and> \<not> p then True
      else if is_ok (snow_decide b L (fst (cm (ls_time g))) (ls_state g)) then ls_poisoned g
      else \<not> p)"
  by (simp_all add: lock_snow_try_poll_id_def case_prod_beta Let_def lock_snow_critical_eq)

lemma atomic_snow_propose_eq:
  "atomic_snow_propose b L now raw = snow_decide b L now (snow_from_raw raw)"
  by (auto simp: atomic_snow_propose_def snow_decide_def rust_cmp_def Let_def)

lemma atomic_snow_poll_eq:
  "atomic_snow_poll_id cm b L g =
     (let r = snow_decide b L (fst (cm (as_time g))) (snow_from_raw (as_state g))
      in (r, \<lparr>as_state = snow_to_raw (installed (snow_from_raw (as_state g)) r),
              as_time = snd (cm (as_time g))\<rparr>))"
  by (cases g)
    (auto simp: atomic_snow_poll_id_def atomic_snow_propose_eq atomic_snow_commit_def Let_def
      case_prod_beta split: sum.split poll.split)

lemma atomic_snow_try_poll_eq:
  "fst (atomic_snow_try_poll_id cm b L g) =
     map_ok Inr (snow_decide b L (fst (cm (as_time g))) (snow_from_raw (as_state g)))"
  "snow_from_raw (as_state (snd (atomic_snow_try_poll_id cm b L g))) =
     installed (snow_from_raw (as_state g))
       (snow_decide b L (fst (cm (as_time g))) (snow_from_raw (as_state g)))"
  "as_time (snd (atomic_snow_try_poll_id cm b L g)) = snd (cm (as_time g))"
  by (simp_all add: atomic_snow_try_poll_id_def ok_poll_def atomic_snow_poll_eq Let_def)

text \<open>What the abstract generator sees of an identifier.\<close>

definition snow_key :: "snowflake_layout \<Rightarrow> 'a::len word snowflake \<Rightarrow> nat \<times> nat" where
  "snow_key L x = (unat (snow_timestamp L x), unat (snow_sequence L x))"

context wf_snowflake_layout
begin

lemma room_iff:
  fixes x :: "'a word snowflake"
  shows "snow_has_sequence_room L x \<longleftrightarrow> unat (snow_sequence L x) < 2 ^ sequence_bits L - 1"
  using widths by (simp add: snow_has_sequence_room_def snow_max_sequence_def SEQUENCE_MASK_def
      word_less_nat_alt unat_bit_mask)

lemma decide_ready:
  fixes x y :: "'a word snowflake"
  assumes v: "snow_is_valid L x" and "b = Debug \<or> unat now < 2 ^ timestamp_bits L"
    and y: "snow_decide b L now x = Inr (Ready y)"
  shows "snow_is_valid L y \<and> x < y \<and> snow_machine_id L y = snow_machine_id L x \<and>
    snow_timestamp L y = now"
proof (cases "now = snow_timestamp L x")
  case True
  with y have room: "snow_has_sequence_room L x" by (simp add: snow_decide_def split: if_splits)
  obtain z where "snow_increment_sequence b L x = Inr z" "snow_is_valid L z"
      "snow_timestamp L z = snow_timestamp L x" "snow_machine_id L z = snow_machine_id L x" "x < z"
    by (rule increment_ok [OF v room])
  with True room y show ?thesis by (simp add: snow_decide_def)
next
  case False
  with y have later: "snow_timestamp L x < now" by (simp add: snow_decide_def split: if_splits)
  with False y have roll: "snow_rollover_to_timestamp b L x now = Inr y"
    by (cases "snow_rollover_to_timestamp b L x now") (simp_all add: snow_decide_def)
  with assms(2) have range: "unat now < 2 ^ timestamp_bits L"
    by (auto simp: snow_rollover_to_timestamp_def from_components_Debug split: if_splits)
  obtain z where "snow_rollover_to_timestamp b L x now = Inr z" "snow_is_valid L z"
      "snow_timestamp L z = now" "snow_machine_id L z = snow_machine_id L x" "x < z"
    by (rule rollover_ok [OF v later range])
  with roll show ?thesis by simp
qed

lemma decide_refines:
  fixes x :: "'a word snowflake"
  assumes v: "snow_is_valid L x" and range: "unat now < 2 ^ timestamp_bits L"
  shows "\<exists>r. snow_decide b L now x = Inr r \<and>
    map_poll (snow_key L) unat r =
      spec_poll (2 ^ sequence_bits L - 1) (unat now) 0 (snow_key L x)"
proof (cases now "snow_timestamp L x" rule: linorder_cases)
  case less
  then have "now \<noteq> snow_timestamp L x" by simp
  with less show ?thesis
    by (simp add: snow_decide_def snow_key_def word_less_nat_alt unat_sub_if')
next
  case equal
  show ?thesis
  proof (cases "snow_has_sequence_room L x")
    case True
    obtain z where "snow_increment_sequence b L x = Inr z"
        "snow_timestamp L z = snow_timestamp L x"
        "unat (snow_sequence L z) = Suc (unat (snow_sequence L x))"
      by (rule increment_ok [OF v True])
    with True equal show ?thesis by (simp add: snow_decide_def snow_key_def room_iff)
  next
    case False
    with equal show ?thesis by (simp add: snow_decide_def snow_key_def room_iff)
  qed
next
  case greater
  obtain z where "snow_rollover_to_timestamp b L x now = Inr z" "snow_timestamp L z = now"
      "snow_sequence L z = 0"
    by (rule rollover_ok [OF v greater range])
  moreover from greater have "now \<noteq> snow_timestamp L x" by simp
  ultimately show ?thesis
    using greater by (simp add: snow_decide_def snow_key_def word_less_nat_alt)
qed

lemma decide_panics:
  fixes x :: "'a word snowflake"
  assumes "2 ^ timestamp_bits L \<le> unat now"
  shows "snow_decide Debug L now x = Inl (Panic ''timestamp overflow'')"
proof -
  have "snow_timestamp L x < now"
    using assms field_bounds(1) [of x] by (simp add: word_less_nat_alt)
  with assms show ?thesis
    by (auto simp: snow_decide_def snow_rollover_to_timestamp_def from_components_Debug)
qed

end

subsection \<open>The contract\<close>

text \<open>
  The state a generator for machine \<open>m\<close> keeps: a valid identifier of that machine, and a
  clock whose readings fit the timestamp field. A debug build panics on a reading that does
  not fit, so there the contract needs no assumption on the clock.
\<close>

definition snow_gen_inv ::
  "('t \<Rightarrow> 'a::len word \<times> 't) \<Rightarrow> build \<Rightarrow> snowflake_layout \<Rightarrow> 'a word \<Rightarrow> 'a word snowflake \<Rightarrow> 't \<Rightarrow> bool"
  where
  "snow_gen_inv cm b L m x t \<longleftrightarrow>
     snow_is_valid L x \<and> snow_machine_id L x = m \<and>
     (b = Debug \<or> always_below cm (2 ^ timestamp_bits L) t)"

definition snow_live_inv ::
  "('t \<Rightarrow> 'a::len word \<times> 't) \<Rightarrow> snowflake_layout \<Rightarrow> 'a word snowflake \<Rightarrow> 't \<Rightarrow> bool" where
  "snow_live_inv cm L x t \<longleftrightarrow> snow_is_valid L x \<and> always_below cm (2 ^ timestamp_bits L) t"

context wf_snowflake_layout
begin

lemma gen_inv_step:
  fixes x :: "'a word snowflake"
  assumes "snow_gen_inv cm b L m x t"
  shows "snow_gen_inv cm b L m (installed x (snow_decide b L (fst (cm t)) x)) (snd (cm t))"
proof -
  have "b = Debug \<or> unat (fst (cm t)) < 2 ^ timestamp_bits L"
    and "b = Debug \<or> always_below cm (2 ^ timestamp_bits L) (snd (cm t))"
    using assms by (auto simp: snow_gen_inv_def always_below_now always_below_next)
  with assms show ?thesis
    using decide_ready [of x b "fst (cm t)"]
    by (auto simp: snow_gen_inv_def installed_def split: sum.split poll.split)
qed

lemma gen_inv_tick: "snow_gen_inv cm b L m x t \<Longrightarrow> snow_gen_inv cm b L m x (snd (cm t))"
  by (auto simp: snow_gen_inv_def always_below_next)

lemma live_inv_tick: "snow_live_inv cm L x t \<Longrightarrow> snow_live_inv cm L x (snd (cm t))"
  by (auto simp: snow_live_inv_def always_below_next)

lemma gen_inv_ready:
  fixes x :: "'a word snowflake"
  assumes "snow_gen_inv cm b L m x t" and "snow_decide b L (fst (cm t)) x = Inr (Ready y)"
  shows "x < y"
  using assms decide_ready [of x b "fst (cm t)" y]
  by (auto simp: snow_gen_inv_def always_below_now)

lemma live_inv_step:
  fixes x :: "'a word snowflake"
  assumes "snow_live_inv cm L x t"
  shows "snow_live_inv cm L (installed x (snow_decide b L (fst (cm t)) x)) (snd (cm t))"
  using assms decide_ready [of x b "fst (cm t)"]
  by (auto simp: snow_live_inv_def always_below_now always_below_next installed_def
      split: sum.split poll.split)

lemma live_inv_decide:
  fixes x :: "'a word snowflake"
  assumes "snow_live_inv cm L x t"
  shows "\<exists>r. snow_decide b L (fst (cm t)) x = Inr r"
    and "snow_decide b L (fst (cm t)) x = Inr (Ready y) \<Longrightarrow> x < y"
    and "snow_decide b L (fst (cm t)) x = Inr (Pending d) \<Longrightarrow>
      \<not> snow_timestamp L x < fst (cm t) \<and> 1 \<le> d"
proof -
  have v: "snow_is_valid L x" and now: "unat (fst (cm t)) < 2 ^ timestamp_bits L"
    using assms by (simp_all add: snow_live_inv_def always_below_now)
  show "\<exists>r. snow_decide b L (fst (cm t)) x = Inr r"
    using decide_refines [OF v now] by blast
  show "x < y" if "snow_decide b L (fst (cm t)) x = Inr (Ready y)"
    using decide_ready [OF v _ that] now by simp
  show "\<not> snow_timestamp L x < fst (cm t) \<and> 1 \<le> d"
    if "snow_decide b L (fst (cm t)) x = Inr (Pending d)"
  proof -
    have "d = 1 \<or> fst (cm t) < snow_timestamp L x \<and> d = snow_timestamp L x - fst (cm t)"
      and "\<not> snow_timestamp L x < fst (cm t)"
      using that by (auto simp: snow_decide_def map_ok_eq_Inr_iff not_less split: if_splits)
    moreover have "1 \<le> y - x" if "x < y" for x y :: "'a word"
      using that by (simp add: word_le_nat_alt word_less_nat_alt unat_sub_if')
    ultimately show ?thesis by auto
  qed
qed

end

locale snowflake_generation = wf_snowflake_layout ty L
  for ty :: "'a::len itself" and L +
  fixes b :: build and cm :: "'t \<Rightarrow> 'a word \<times> 't" and m :: "'a word"

sublocale snowflake_generation \<subseteq> basic: id_generator
  "basic_snow_try_poll_id cm b L"
  "\<lambda>g. snow_gen_inv cm b L m (bs_state g) (bs_time g)"
  bs_state
  by unfold_locales
    (auto simp: basic_snow_try_poll_eq gen_inv_step gen_inv_ready map_ok_Ready installed_other)

sublocale snowflake_generation \<subseteq> lock: id_generator
  "lock_snow_try_poll_id cm parking_lot b L"
  "\<lambda>g. snow_gen_inv cm b L m (ls_state g) (ls_time g)"
  ls_state
  for parking_lot
  by unfold_locales
    (auto simp: lock_snow_try_poll_eq gen_inv_step gen_inv_ready map_ok_Ready installed_other
      gen_inv_tick)

sublocale snowflake_generation \<subseteq> basic_live: clocked_generator
  "basic_snow_poll_id cm b L"
  "\<lambda>g. snow_live_inv cm L (bs_state g) (bs_time g)"
  bs_state "snow_timestamp L" bs_time cm
  by unfold_locales
    (auto simp: basic_snow_poll_eq Let_def live_inv_decide live_inv_tick)

context snowflake_generation
begin

lemmas basic_ready_increasing = basic.ready_increasing
lemmas basic_ready_distinct = basic.ready_distinct
lemmas basic_ready_origin = basic.ready_origin
lemmas lock_ready_increasing = lock.ready_increasing
lemmas basic_next_returns = basic_live.next_loop_returns

end

locale atomic_snow_generation = snowflake_generation ty L b cm m
  for ty :: "64 itself" and L b and cm :: "'t \<Rightarrow> u64 \<times> 't" and m

sublocale atomic_snow_generation \<subseteq> atomic: id_generator
  "atomic_snow_try_poll_id cm b L"
  "\<lambda>g. snow_gen_inv cm b L m (snow_from_raw (as_state g)) (as_time g)"
  "\<lambda>g. snow_from_raw (as_state g)"
  by unfold_locales
    (auto simp: atomic_snow_try_poll_eq gen_inv_step gen_inv_ready map_ok_Ready installed_other)

sublocale atomic_snow_generation \<subseteq> atomic_live: clocked_generator
  "atomic_snow_poll_id cm b L"
  "\<lambda>g. snow_live_inv cm L (snow_from_raw (as_state g)) (as_time g)"
  "\<lambda>g. snow_from_raw (as_state g)" "snow_timestamp L" as_time cm
  by unfold_locales
    (auto simp: atomic_snow_poll_eq Let_def live_inv_decide live_inv_tick)

interpretation twitter_gen: atomic_snow_generation "TYPE(64)" SnowflakeTwitterId b cm m for b cm m
  by unfold_locales

interpretation discord_gen: atomic_snow_generation "TYPE(64)" SnowflakeDiscordId b cm m for b cm m
  by unfold_locales

interpretation mastodon_gen: atomic_snow_generation "TYPE(64)" SnowflakeMastodonId b cm m
  for b cm m
  by unfold_locales

interpretation instagram_gen: atomic_snow_generation "TYPE(64)" SnowflakeInstagramId b cm m
  for b cm m
  by unfold_locales

lemma snowflake_generationI:
  "layout_wf TYPE('a::len) L \<Longrightarrow> snowflake_generation TYPE('a) L"
  by (simp add: snowflake_generation_def wf_snowflake_layoutI)

context wf_snowflake_layout
begin

lemma from_components_new:
  fixes m :: "'a word"
  assumes "m \<le> snow_max_machine_id L"
  obtains x where "snow_from_components b L 0 m 0 = Inr x" "snow_is_valid L x"
    "snow_machine_id L x = m" "snow_timestamp L x = 0"
proof -
  have "unat m < 2 ^ machine_bits L"
    using assms by (simp add: snow_max_machine_id_def in_range_iff)
  from from_components_ok [of 0, OF _ this, of 0 b] obtain x where
    "snow_from_components b L 0 m 0 = Inr x" "snow_machine_id L x = m" "snow_timestamp L x = 0"
    by (metis unsigned_0 zero_less_numeral zero_less_power)
  with that from_components_valid show thesis by blast
qed

end

lemma basic_snow_new_inv:
  fixes m :: "'a::len word"
  assumes "layout_wf TYPE('a) L" and "m \<le> snow_max_machine_id L"
    and "b = Debug \<or> always_below cm (2 ^ timestamp_bits L) t"
  obtains g where "basic_snow_new b L m t = Inr g" "bs_time g = t"
    "snow_gen_inv cm b L m (bs_state g) (bs_time g)"
proof -
  obtain x where "snow_from_components b L 0 m 0 = Inr x" "snow_is_valid L x"
      "snow_machine_id L x = m"
    by (rule wf_snowflake_layout.from_components_new [OF wf_snowflake_layoutI [OF assms(1)] assms(2)])
  with assms(3) that show thesis
    by (simp add: basic_snow_new_def basic_snow_from_components_def snow_gen_inv_def)
qed

subsection \<open>Properties\<close>

text \<open>C3: one poll of \<open>BasicSnowflakeGenerator\<close> with a clock reading that fits the timestamp
  field is one step of the abstract generator, in both builds: it never panics, increments the
  sequence within a tick, restarts it at zero on a later tick, asks to wait one unit when the
  sequence is exhausted and for the difference when the clock is behind; only \<open>Ready\<close> changes
  the stored identifier, to the one returned, and the machine field never changes.\<close>

theorem basic_snow_poll_refines_spec:
  fixes g :: "('a::len word snowflake, 't) basic_snow_gen"
  assumes "layout_wf TYPE('a) L" and "snow_is_valid L (bs_state g)"
    and "unat (fst (cm (bs_time g))) < 2 ^ timestamp_bits L"
  shows "\<exists>r h. basic_snow_poll_id cm b L g = (Inr r, h) \<and>
    map_poll (snow_key L) unat r =
      spec_poll (2 ^ sequence_bits L - 1) (unat (fst (cm (bs_time g)))) 0 (snow_key L (bs_state g)) \<and>
    bs_state h = (case r of Ready x \<Rightarrow> x | Pending _ \<Rightarrow> bs_state g) \<and>
    snow_is_valid L (bs_state h) \<and>
    snow_machine_id L (bs_state h) = snow_machine_id L (bs_state g) \<and>
    bs_time h = snd (cm (bs_time g))"
proof -
  note wf = wf_snowflake_layoutI [OF assms(1)]
  let ?now = "fst (cm (bs_time g))"
  obtain r where r: "snow_decide b L ?now (bs_state g) = Inr r"
    "map_poll (snow_key L) unat r =
      spec_poll (2 ^ sequence_bits L - 1) (unat ?now) 0 (snow_key L (bs_state g))"
    using wf_snowflake_layout.decide_refines [OF wf assms(2,3)] by blast
  show ?thesis
  proof (cases r)
    case (Ready x)
    with r have "snow_is_valid L x \<and> snow_machine_id L x = snow_machine_id L (bs_state g)"
      using wf_snowflake_layout.decide_ready [OF wf assms(2), of b ?now x] assms(3) by simp
    with Ready r show ?thesis by (simp add: basic_snow_poll_eq)
  next
    case (Pending d)
    with r assms(2) show ?thesis by (simp add: basic_snow_poll_eq)
  qed
qed

theorem basic_snow_poll_refines_spec_witness:
  "\<exists>r h. basic_snow_poll_id (\<lambda>n. (7, n)) Debug SnowflakeTwitterId
      \<lparr>bs_state = Snowflake (0 :: u64), bs_time = ()\<rparr> = (Inr r, h) \<and>
    map_poll (snow_key SnowflakeTwitterId) unat r = Ready (7, 0)"
proof -
  have "snow_is_valid SnowflakeTwitterId (Snowflake (0 :: u64))"
    and "snow_key SnowflakeTwitterId (Snowflake (0 :: u64)) = (0, 0)"
    by code_simp+
  with basic_snow_poll_refines_spec [OF twitter_wf,
      of "\<lparr>bs_state = Snowflake 0, bs_time = ()\<rparr>" "\<lambda>n. (7, n)" Debug]
  show ?thesis by (simp add: SnowflakeTwitterId_def) blast
qed

text \<open>C1: a generator made by \<open>new\<close> hands out strictly increasing, hence distinct, valid
  identifiers of its machine over any number of polls, whatever its clock does: readings may
  stall, jump or go backwards. A release build needs the readings to fit the timestamp field; a
  debug build panics instead.\<close>

theorem basic_snow_ids_strictly_increase:
  fixes m :: "'a::len word"
  assumes "layout_wf TYPE('a) L" and "m \<le> snow_max_machine_id L"
    and "b = Debug \<or> always_below cm (2 ^ timestamp_bits L) t"
  shows "\<exists>g. basic_snow_new b L m t = Inr g \<and>
    (\<forall>n. let ids = ready_ids (fst (polls (basic_snow_try_poll_id cm b L) n g)) in
      sorted_wrt (<) ids \<and> distinct ids \<and>
      (\<forall>x \<in> set ids. snow_is_valid L x \<and> snow_machine_id L x = m))"
proof -
  obtain g where g: "basic_snow_new b L m t = Inr g"
      and inv: "snow_gen_inv cm b L m (bs_state g) (bs_time g)"
    by (rule basic_snow_new_inv [OF assms])
  have "sorted_wrt (<) (ready_ids (fst (polls (basic_snow_try_poll_id cm b L) n g)))"
    "distinct (ready_ids (fst (polls (basic_snow_try_poll_id cm b L) n g)))" for n
    using snowflake_generation.basic_ready_increasing [OF snowflake_generationI [OF assms(1)] inv]
      snowflake_generation.basic_ready_distinct [OF snowflake_generationI [OF assms(1)] inv]
    by auto
  moreover have "snow_is_valid L x \<and> snow_machine_id L x = m"
    if "x \<in> set (ready_ids (fst (polls (basic_snow_try_poll_id cm b L) n g)))" for x n
    using snowflake_generation.basic_ready_origin
      [OF snowflake_generationI [OF assms(1)] inv that]
    by (auto simp: snow_gen_inv_def)
  ultimately show ?thesis using g by (auto simp: Let_def)
qed

theorem basic_snow_ids_strictly_increase_witness:
  "\<exists>g. basic_snow_new Debug SnowflakeTwitterId (3 :: u64) 0 = Inr g \<and>
    (\<forall>n. let ids = ready_ids (fst (polls
          (basic_snow_try_poll_id (\<lambda>k :: nat. (word_of_nat (k div 2), Suc k)) Debug SnowflakeTwitterId) n g)) in
      sorted_wrt (<) ids \<and> distinct ids \<and>
      (\<forall>x \<in> set ids. snow_is_valid SnowflakeTwitterId x \<and> snow_machine_id SnowflakeTwitterId x = 3))"
  by (rule basic_snow_ids_strictly_increase [OF twitter_wf]) (code_simp, simp)

text \<open>C13: generators for different machines, both within the range of the machine field, never hand
  out the same identifier, whatever their clocks do (in a release build, as long as the readings
  fit the timestamp field) and however many identifiers they produce.\<close>

theorem snow_machines_never_collide:
  fixes m m' :: "'a::len word"
  assumes "layout_wf TYPE('a) L" and "m \<le> snow_max_machine_id L" and "m' \<le> snow_max_machine_id L"
    and "m \<noteq> m'"
    and "b = Debug \<or> always_below cm (2 ^ timestamp_bits L) t \<and> always_below cm' (2 ^ timestamp_bits L) t'"
    and "basic_snow_new b L m t = Inr g" and "basic_snow_new b L m' t' = Inr g'"
  shows "set (ready_ids (fst (polls (basic_snow_try_poll_id cm b L) n g))) \<inter>
    set (ready_ids (fst (polls (basic_snow_try_poll_id cm' b L) n' g'))) = {}"
proof -
  have inv: "snow_gen_inv cm b L m (bs_state g) (bs_time g)"
    using assms(5,6) by (rule_tac basic_snow_new_inv [OF assms(1,2), of b cm t]) auto
  have inv': "snow_gen_inv cm' b L m' (bs_state g') (bs_time g')"
    using assms(5,7) by (rule_tac basic_snow_new_inv [OF assms(1,3), of b cm' t']) auto
  note gen = snowflake_generationI [OF assms(1)]
  have "snow_machine_id L x = m"
    if "x \<in> set (ready_ids (fst (polls (basic_snow_try_poll_id cm b L) n g)))" for x
    using snowflake_generation.basic_ready_origin [OF gen inv that] by (auto simp: snow_gen_inv_def)
  moreover have "snow_machine_id L x = m'"
    if "x \<in> set (ready_ids (fst (polls (basic_snow_try_poll_id cm' b L) n' g')))" for x
    using snowflake_generation.basic_ready_origin [OF gen inv' that] by (auto simp: snow_gen_inv_def)
  ultimately show ?thesis using assms(4) by blast
qed

theorem snow_machines_never_collide_witness:
  "set (ready_ids (fst (polls (basic_snow_try_poll_id (\<lambda>k :: u64. (k, k + 1)) Debug SnowflakeTwitterId) 9
      \<lparr>bs_state = Snowflake (4096 :: u64), bs_time = 0\<rparr>))) \<inter>
   set (ready_ids (fst (polls (basic_snow_try_poll_id (\<lambda>k :: u64. (k, k + 1)) Debug SnowflakeTwitterId) 9
      \<lparr>bs_state = Snowflake (8192 :: u64), bs_time = 0\<rparr>))) = {}"
proof -
  have "basic_snow_new Debug SnowflakeTwitterId (1 :: u64) (0 :: u64) =
      Inr \<lparr>bs_state = Snowflake 4096, bs_time = 0\<rparr>"
    and "basic_snow_new Debug SnowflakeTwitterId (2 :: u64) (0 :: u64) =
      Inr \<lparr>bs_state = Snowflake 8192, bs_time = 0\<rparr>"
    and "(1 :: u64) \<le> snow_max_machine_id SnowflakeTwitterId"
    and "(2 :: u64) \<le> snow_max_machine_id SnowflakeTwitterId"
    by code_simp+
  then show ?thesis
    by (intro snow_machines_never_collide [OF twitter_wf, of 1 2]) simp_all
qed

text \<open>C17: called one at a time, the three generators are the same machine: from the same state and
  clock they give the same outcomes over any number of calls. The lock generator needs an
  unpoisoned mutex, and either \<open>parking_lot\<close> or clock readings that fit, since a panic
  under a standard mutex poisons it.\<close>

theorem snow_generators_agree:
  fixes x :: "u64 snowflake"
  assumes "layout_wf TYPE(64) L" and "snow_is_valid L x"
    and "parking_lot \<or> always_below cm (2 ^ timestamp_bits L) t"
  shows "fst (polls (lock_snow_try_poll_id cm parking_lot b L) n
      \<lparr>ls_state = x, ls_poisoned = False, ls_time = t\<rparr>) =
    fst (polls (basic_snow_try_poll_id cm b L) n \<lparr>bs_state = x, bs_time = t\<rparr>) \<and>
    fst (polls (atomic_snow_try_poll_id cm b L) n \<lparr>as_state = snow_to_raw x, as_time = t\<rparr>) =
    fst (polls (basic_snow_try_poll_id cm b L) n \<lparr>bs_state = x, bs_time = t\<rparr>)"
proof
  note wf = wf_snowflake_layoutI [OF assms(1)]
  show "fst (polls (atomic_snow_try_poll_id cm b L) n \<lparr>as_state = snow_to_raw x, as_time = t\<rparr>) =
    fst (polls (basic_snow_try_poll_id cm b L) n \<lparr>bs_state = x, bs_time = t\<rparr>)"
    by (rule polls_simulation [where R = "\<lambda>g h. snow_from_raw (as_state g) = bs_state h \<and>
          as_time g = bs_time h"])
      (auto simp: basic_snow_try_poll_eq atomic_snow_try_poll_eq)
  show "fst (polls (lock_snow_try_poll_id cm parking_lot b L) n
      \<lparr>ls_state = x, ls_poisoned = False, ls_time = t\<rparr>) =
    fst (polls (basic_snow_try_poll_id cm b L) n \<lparr>bs_state = x, bs_time = t\<rparr>)"
  proof (rule polls_simulation [where R = "\<lambda>g h. ls_state g = bs_state h \<and> ls_time g = bs_time h \<and>
        \<not> ls_poisoned g \<and> (parking_lot \<or> snow_live_inv cm L (bs_state h) (bs_time h))"])
    show "ls_state \<lparr>ls_state = x, ls_poisoned = False, ls_time = t\<rparr> =
        bs_state \<lparr>bs_state = x, bs_time = t\<rparr> \<and>
      ls_time \<lparr>ls_state = x, ls_poisoned = False, ls_time = t\<rparr> =
        bs_time \<lparr>bs_state = x, bs_time = t\<rparr> \<and>
      \<not> ls_poisoned \<lparr>ls_state = x, ls_poisoned = False, ls_time = t\<rparr> \<and>
      (parking_lot \<or> snow_live_inv cm L (bs_state \<lparr>bs_state = x, bs_time = t\<rparr>)
        (bs_time \<lparr>bs_state = x, bs_time = t\<rparr>))"
      using assms(2,3) by (auto simp: snow_live_inv_def)
  next
    fix g :: "(u64 snowflake, 'a) lock_snow_gen" and h :: "(u64 snowflake, 'a) basic_snow_gen"
    assume *: "ls_state g = bs_state h \<and> ls_time g = bs_time h \<and>
        \<not> ls_poisoned g \<and> (parking_lot \<or> snow_live_inv cm L (bs_state h) (bs_time h))"
    then show "fst (lock_snow_try_poll_id cm parking_lot b L g) =
        fst (basic_snow_try_poll_id cm b L h) \<and>
      (ls_state (snd (lock_snow_try_poll_id cm parking_lot b L g)) =
         bs_state (snd (basic_snow_try_poll_id cm b L h)) \<and>
       ls_time (snd (lock_snow_try_poll_id cm parking_lot b L g)) =
         bs_time (snd (basic_snow_try_poll_id cm b L h)) \<and>
       \<not> ls_poisoned (snd (lock_snow_try_poll_id cm parking_lot b L g)) \<and>
       (parking_lot \<or> snow_live_inv cm L (bs_state (snd (basic_snow_try_poll_id cm b L h)))
          (bs_time (snd (basic_snow_try_poll_id cm b L h)))))"
      using wf_snowflake_layout.live_inv_step [OF wf, of cm "bs_state h" "bs_time h" b]
        wf_snowflake_layout.live_inv_decide(1) [OF wf, of cm "bs_state h" "bs_time h" b]
      by (auto simp: basic_snow_try_poll_eq lock_snow_try_poll_eq is_ok_iff)
  qed
qed

theorem snow_generators_agree_witness:
  "fst (polls (lock_snow_try_poll_id (\<lambda>k :: u64. (k, k - 1)) True Debug SnowflakeTwitterId) 5
      \<lparr>ls_state = Snowflake 0, ls_poisoned = False, ls_time = 3\<rparr>) =
   fst (polls (basic_snow_try_poll_id (\<lambda>k :: u64. (k, k - 1)) Debug SnowflakeTwitterId) 5
      \<lparr>bs_state = Snowflake 0, bs_time = 3\<rparr>)"
proof -
  have "snow_is_valid SnowflakeTwitterId (Snowflake (0 :: u64))" by code_simp
  from snow_generators_agree [OF twitter_wf this, of True "\<lambda>k. (k, k - 1)" 3 Debug 5]
  show ?thesis by simp
qed

text \<open>C18: lock poisoning. A debug-build call whose clock reading does not fit the timestamp field
  panics; the stored identifier survives. With a standard mutex every later \<open>try_poll_id\<close> and
  \<open>try_next_id\<close> fails with \<open>LockPoisoned\<close> and hands out nothing; with \<open>parking_lot\<close>
  the generator stays usable.\<close>

theorem lock_snow_poisoning:
  fixes g :: "('a::len word snowflake, 't) lock_snow_gen"
  assumes "layout_wf TYPE('a) L" and "\<not> ls_poisoned g"
    and "2 ^ timestamp_bits L \<le> unat (fst (cm (ls_time g)))"
  shows "\<exists>h. lock_snow_try_poll_id cm parking_lot Debug L g =
      (Inl (Panic ''timestamp overflow''), h) \<and>
    ls_state h = ls_state g \<and> ls_poisoned h = (\<not> parking_lot) \<and>
    (\<not> parking_lot \<longrightarrow>
      (\<forall>n. set (fst (polls (lock_snow_try_poll_id cm False Debug L) n h)) \<subseteq>
         {Inr (Inl LockPoisoned)}) \<and>
      (\<exists>k. lock_snow_try_next_id cm False Debug L h = Some (Inr (Inl LockPoisoned), k, [])))"
proof -
  let ?h = "snd (lock_snow_try_poll_id cm parking_lot Debug L g)"
  have panic: "snow_decide Debug L (fst (cm (ls_time g))) (ls_state g) =
      Inl (Panic ''timestamp overflow'')"
    by (rule wf_snowflake_layout.decide_panics [OF wf_snowflake_layoutI [OF assms(1)] assms(3)])
  have stays: "set (fst (polls (lock_snow_try_poll_id cm False Debug L) n k)) \<subseteq>
      {Inr (Inl LockPoisoned)}" if "ls_poisoned k" for n and k :: "('a word snowflake, 't) lock_snow_gen"
    using that
    by (induction n arbitrary: k) (auto simp: Let_def case_prod_beta lock_snow_try_poll_eq)
  have "\<exists>k. lock_snow_try_next_id cm False Debug L k' = Some (Inr (Inl LockPoisoned), k, [])"
    if "ls_poisoned k'" for k' :: "('a word snowflake, 't) lock_snow_gen"
    using that unfolding lock_snow_try_next_id_def
    by (subst try_next_loop.simps) (simp add: case_prod_beta lock_snow_try_poll_eq)
  moreover have "fst (lock_snow_try_poll_id cm parking_lot Debug L g) =
      Inl (Panic ''timestamp overflow'')" "ls_state ?h = ls_state g"
      "ls_poisoned ?h = (\<not> parking_lot)"
    using assms(2) by (simp_all add: lock_snow_try_poll_eq panic)
  ultimately show ?thesis
    using stays [of ?h] by (intro exI [of _ ?h]) (auto simp: prod_eq_iff)
qed

theorem lock_snow_poisoning_witness:
  "\<exists>h. lock_snow_try_poll_id (\<lambda>k. (- 1, k)) False Debug SnowflakeTwitterId
      \<lparr>ls_state = Snowflake (5 :: u64), ls_poisoned = False, ls_time = ()\<rparr> =
      (Inl (Panic ''timestamp overflow''), h) \<and> ls_state h = Snowflake 5 \<and> ls_poisoned h"
  using lock_snow_poisoning [OF twitter_wf,
      of "\<lparr>ls_state = Snowflake 5, ls_poisoned = False, ls_time = ()\<rparr>" "\<lambda>k. (- 1, k)" False]
  by (auto simp: SnowflakeTwitterId_def unsigned_minus_1_eq_mask mask_eq_exp_minus_1)

text \<open>C16: \<open>next_id\<close> returns. If some later clock reading exceeds the timestamp of the last
  identifier and all readings fit the field, the retry loop ends with a greater identifier after
  at most that many waits, each of at least one unit.\<close>

theorem basic_snow_next_id_returns:
  fixes g :: "('a::len word snowflake, 't) basic_snow_gen"
  assumes "layout_wf TYPE('a) L" and "snow_is_valid L (bs_state g)"
    and "always_below cm (2 ^ timestamp_bits L) (bs_time g)"
    and "snow_timestamp L (bs_state g) < reading cm (bs_time g) n"
  shows "\<exists>x h waits. basic_snow_next_id cm b L g = Some (Inr x, h, waits) \<and>
    bs_state g < x \<and> bs_state h = x \<and> length waits \<le> n \<and> (\<forall>d \<in> set waits. 1 \<le> d)"
  using snowflake_generation.basic_next_returns [OF snowflake_generationI [OF assms(1)],
      of cm g n b "[]"] assms
  by (simp add: basic_snow_next_id_def snow_live_inv_def)

theorem basic_snow_next_id_returns_witness:
  "\<exists>x h waits. basic_snow_next_id (\<lambda>k. (k, min 1000 (k + 1))) Release SnowflakeTwitterId
      \<lparr>bs_state = Snowflake (4194303 :: u64), bs_time = 0\<rparr> = Some (Inr x, h, waits) \<and>
    Snowflake 4194303 < x \<and> length waits \<le> 1"
proof -
  let ?cm = "\<lambda>k :: u64. (k, min 1000 (k + 1))"
  have le: "((\<lambda>t. snd (?cm t)) ^^ n) 0 \<le> 1000" for n
    by (induction n) simp_all
  have "unat (reading ?cm 0 n) < 2 ^ timestamp_bits SnowflakeTwitterId" for n
    using le [of n]
    by (simp add: reading_def SnowflakeTwitterId_def word_le_nat_alt)
  then have "always_below ?cm (2 ^ timestamp_bits SnowflakeTwitterId) 0"
    by (simp add: always_below_def)
  moreover have "snow_is_valid SnowflakeTwitterId (Snowflake (4194303 :: u64))"
    and "snow_timestamp SnowflakeTwitterId (Snowflake (4194303 :: u64)) = 0"
    by code_simp+
  ultimately show ?thesis
    using basic_snow_next_id_returns [OF twitter_wf,
        of "\<lparr>bs_state = Snowflake 4194303, bs_time = 0\<rparr>" ?cm 1 Release]
    by (simp add: reading_def) blast
qed

end
