(* ===== verification/Ulid_Generators.thy ===== *)
theory Ulid_Generators
  imports Generator_Interface Ulid_Id
begin

text \<open>
  The ULID generators of \<^verbatim>\<open>crates/ferroid/src/generator/ulid/\<close>: the stateless
  \<open>BasicUlidGenerator\<close>, the monotonic \<open>BasicMonoUlidGenerator\<close>,
  \<open>LockMonoUlidGenerator\<close> and \<open>AtomicMonoUlidGenerator\<close>, and the thread-local front
  end \<open>Ulid\<close>. The random source is a parameter \<open>rand\<close> that maps the state of the
  source to a random word and its next state; nothing is assumed about the words.
\<close>

subsection \<open>Basic generator\<close>

record ('t, 'r) basic_ulid_gen =
  bu_time :: 't
  bu_rng :: 'r

definition basic_ulid_new :: "'t \<Rightarrow> 'r \<Rightarrow> ('t, 'r) basic_ulid_gen" where
  "basic_ulid_new time rng = \<lparr>bu_time = time, bu_rng = rng\<rparr>"

definition basic_ulid_poll_id ::
  "('t \<Rightarrow> 'a::len word \<times> 't) \<Rightarrow> ('r \<Rightarrow> 'a word \<times> 'r) \<Rightarrow> build \<Rightarrow> ulid_layout \<Rightarrow>
     ('t, 'r) basic_ulid_gen \<Rightarrow>
     ('a word ulid, 'a word) poll res \<times> ('t, 'r) basic_ulid_gen" where
  "basic_ulid_poll_id current_millis rand b L g =
     (let (now, time) = current_millis (bu_time g);
          (random, rng) = rand (bu_rng g)
      in (map_ok Ready (ulid_from_components b L now random),
          g\<lparr>bu_time := time, bu_rng := rng\<rparr>))"

definition basic_ulid_next_id ::
  "('t \<Rightarrow> 'a::len word \<times> 't) \<Rightarrow> ('r \<Rightarrow> 'a word \<times> 'r) \<Rightarrow> build \<Rightarrow> ulid_layout \<Rightarrow>
     ('t, 'r) basic_ulid_gen \<Rightarrow>
     ('a word ulid res \<times> ('t, 'r) basic_ulid_gen \<times> 'a word list) option" where
  "basic_ulid_next_id current_millis rand b L g =
     next_loop (basic_ulid_poll_id current_millis rand b L) g []"

subsection \<open>Monotonic basic generator\<close>

record ('uid, 't, 'r) basic_mono_gen =
  bm_state :: 'uid
  bm_time :: 't
  bm_rng :: 'r

definition basic_mono_from_components ::
  "build \<Rightarrow> ulid_layout \<Rightarrow> 'a::len word \<Rightarrow> 'a word \<Rightarrow> 't \<Rightarrow> 'r \<Rightarrow>
     ('a word ulid, 't, 'r) basic_mono_gen res" where
  "basic_mono_from_components b L timestamp random time rng =
     map_ok (\<lambda>x. \<lparr>bm_state = x, bm_time = time, bm_rng = rng\<rparr>)
       (ulid_from_components b L timestamp random)"

definition basic_mono_new ::
  "'a::len itself \<Rightarrow> build \<Rightarrow> ulid_layout \<Rightarrow> 't \<Rightarrow> 'r \<Rightarrow> ('a word ulid, 't, 'r) basic_mono_gen res" where
  "basic_mono_new ty b L time rng = basic_mono_from_components b L 0 0 time rng"

definition basic_mono_poll_id ::
  "('t \<Rightarrow> 'a::len word \<times> 't) \<Rightarrow> ('r \<Rightarrow> 'a word \<times> 'r) \<Rightarrow> build \<Rightarrow> ulid_layout \<Rightarrow>
     ('a word ulid, 't, 'r) basic_mono_gen \<Rightarrow>
     ('a word ulid, 'a word) poll res \<times> ('a word ulid, 't, 'r) basic_mono_gen" where
  "basic_mono_poll_id current_millis rand b L g =
     (let (now, time) = current_millis (bm_time g);
          g = g\<lparr>bm_time := time\<rparr>;
          state = bm_state g;
          current_ts = ulid_timestamp L state
      in case rust_cmp now current_ts of
           Equal \<Rightarrow>
             (if ulid_has_random_room L state
              then case ulid_increment_random b L state of
                     Inl panic \<Rightarrow> (Inl panic, g)
                   | Inr updated \<Rightarrow> (Inr (Ready updated), g\<lparr>bm_state := updated\<rparr>)
              else (Inr (Pending 1), g))
         | Greater \<Rightarrow>
             (let (random, rng) = rand (bm_rng g); g = g\<lparr>bm_rng := rng\<rparr>
              in case ulid_rollover_to_timestamp b L state now random of
                   Inl panic \<Rightarrow> (Inl panic, g)
                 | Inr updated \<Rightarrow> (Inr (Ready updated), g\<lparr>bm_state := updated\<rparr>))
         | Less \<Rightarrow> (cold_clock_behind b now current_ts, g))"

definition basic_mono_try_poll_id ::
  "('t \<Rightarrow> 'a::len word \<times> 't) \<Rightarrow> ('r \<Rightarrow> 'a word \<times> 'r) \<Rightarrow> build \<Rightarrow> ulid_layout \<Rightarrow>
     ('a word ulid, 't, 'r) basic_mono_gen \<Rightarrow>
     (gen_error + ('a word ulid, 'a word) poll) res \<times> ('a word ulid, 't, 'r) basic_mono_gen" where
  "basic_mono_try_poll_id current_millis rand b L g =
     ok_poll (basic_mono_poll_id current_millis rand b L g)"

definition basic_mono_next_id ::
  "('t \<Rightarrow> 'a::len word \<times> 't) \<Rightarrow> ('r \<Rightarrow> 'a word \<times> 'r) \<Rightarrow> build \<Rightarrow> ulid_layout \<Rightarrow>
     ('a word ulid, 't, 'r) basic_mono_gen \<Rightarrow>
     ('a word ulid res \<times> ('a word ulid, 't, 'r) basic_mono_gen \<times> 'a word list) option" where
  "basic_mono_next_id current_millis rand b L g =
     next_loop (basic_mono_poll_id current_millis rand b L) g []"

subsection \<open>Monotonic lock generator\<close>

record ('uid, 't, 'r) lock_mono_gen =
  lm_state :: 'uid
  lm_poisoned :: bool
  lm_time :: 't
  lm_rng :: 'r

definition lock_mono_from_components ::
  "build \<Rightarrow> ulid_layout \<Rightarrow> 'a::len word \<Rightarrow> 'a word \<Rightarrow> 't \<Rightarrow> 'r \<Rightarrow>
     ('a word ulid, 't, 'r) lock_mono_gen res" where
  "lock_mono_from_components b L timestamp random time rng =
     map_ok (\<lambda>x. \<lparr>lm_state = x, lm_poisoned = False, lm_time = time, lm_rng = rng\<rparr>)
       (ulid_from_components b L timestamp random)"

definition lock_mono_new ::
  "'a::len itself \<Rightarrow> build \<Rightarrow> ulid_layout \<Rightarrow> 't \<Rightarrow> 'r \<Rightarrow> ('a word ulid, 't, 'r) lock_mono_gen res" where
  "lock_mono_new ty b L time rng = lock_mono_from_components b L 0 0 time rng"

definition lock_mono_critical ::
  "('r \<Rightarrow> 'a::len word \<times> 'r) \<Rightarrow> bool \<Rightarrow> build \<Rightarrow> ulid_layout \<Rightarrow> 'a word \<Rightarrow>
     ('a word ulid, 't, 'r) lock_mono_gen \<Rightarrow>
     (gen_error + ('a word ulid, 'a word) poll) res \<times> ('a word ulid, 't, 'r) lock_mono_gen" where
  "lock_mono_critical rand parking_lot b L now g =
     (if lm_poisoned g \<and> \<not> parking_lot then (Inr (Inl LockPoisoned), g)
      else
        let uid = lm_state g;
            current_ts = ulid_timestamp L uid
        in case rust_cmp now current_ts of
             Equal \<Rightarrow>
               (if ulid_has_random_room L uid
                then case ulid_increment_random b L uid of
                       Inl panic \<Rightarrow> (Inl panic, g\<lparr>lm_poisoned := \<not> parking_lot\<rparr>)
                     | Inr updated \<Rightarrow> (Inr (Inr (Ready updated)), g\<lparr>lm_state := updated\<rparr>)
                else (Inr (Inr (Pending 1)), g))
           | Greater \<Rightarrow>
               (let (random, rng) = rand (lm_rng g); g = g\<lparr>lm_rng := rng\<rparr>
                in case ulid_rollover_to_timestamp b L uid now random of
                     Inl panic \<Rightarrow> (Inl panic, g\<lparr>lm_poisoned := \<not> parking_lot\<rparr>)
                   | Inr updated \<Rightarrow> (Inr (Inr (Ready updated)), g\<lparr>lm_state := updated\<rparr>))
           | Less \<Rightarrow>
               (case cold_clock_behind b now current_ts of
                  Inl panic \<Rightarrow> (Inl panic, g\<lparr>lm_poisoned := \<not> parking_lot\<rparr>)
                | Inr r \<Rightarrow> (Inr (Inr r), g)))"

definition lock_mono_try_poll_id ::
  "('t \<Rightarrow> 'a::len word \<times> 't) \<Rightarrow> ('r \<Rightarrow> 'a word \<times> 'r) \<Rightarrow> bool \<Rightarrow> build \<Rightarrow> ulid_layout \<Rightarrow>
     ('a word ulid, 't, 'r) lock_mono_gen \<Rightarrow>
     (gen_error + ('a word ulid, 'a word) poll) res \<times> ('a word ulid, 't, 'r) lock_mono_gen" where
  "lock_mono_try_poll_id current_millis rand parking_lot b L g =
     (let (now, time) = current_millis (lm_time g)
      in lock_mono_critical rand parking_lot b L now (g\<lparr>lm_time := time\<rparr>))"

definition lock_mono_try_next_id ::
  "('t \<Rightarrow> 'a::len word \<times> 't) \<Rightarrow> ('r \<Rightarrow> 'a word \<times> 'r) \<Rightarrow> bool \<Rightarrow> build \<Rightarrow> ulid_layout \<Rightarrow>
     ('a word ulid, 't, 'r) lock_mono_gen \<Rightarrow>
     ((gen_error + 'a word ulid) res \<times> ('a word ulid, 't, 'r) lock_mono_gen \<times> 'a word list) option"
  where
  "lock_mono_try_next_id current_millis rand parking_lot b L g =
     try_next_loop (lock_mono_try_poll_id current_millis rand parking_lot b L) g []"

definition lock_mono_poll_id ::
  "('t \<Rightarrow> 'a::len word \<times> 't) \<Rightarrow> ('r \<Rightarrow> 'a word \<times> 'r) \<Rightarrow> build \<Rightarrow> ulid_layout \<Rightarrow>
     ('a word ulid, 't, 'r) lock_mono_gen \<Rightarrow>
     ('a word ulid, 'a word) poll res \<times> ('a word ulid, 't, 'r) lock_mono_gen" where
  "lock_mono_poll_id current_millis rand b L g =
     (case lock_mono_try_poll_id current_millis rand True b L g of
        (Inl panic, g') \<Rightarrow> (Inl panic, g')
      | (Inr (Inl e), g') \<Rightarrow> (Inl (Undefined ''value of an empty type''), g')
      | (Inr (Inr p), g') \<Rightarrow> (Inr p, g'))"

definition lock_mono_next_id ::
  "('t \<Rightarrow> 'a::len word \<times> 't) \<Rightarrow> ('r \<Rightarrow> 'a word \<times> 'r) \<Rightarrow> build \<Rightarrow> ulid_layout \<Rightarrow>
     ('a word ulid, 't, 'r) lock_mono_gen \<Rightarrow>
     ('a word ulid res \<times> ('a word ulid, 't, 'r) lock_mono_gen \<times> 'a word list) option" where
  "lock_mono_next_id current_millis rand b L g =
     (case lock_mono_try_next_id current_millis rand True b L g of
        None \<Rightarrow> None
      | Some (Inl panic, r) \<Rightarrow> Some (Inl panic, r)
      | Some (Inr (Inl e), r) \<Rightarrow> Some (Inl (Undefined ''value of an empty type''), r)
      | Some (Inr (Inr x), r) \<Rightarrow> Some (Inr x, r))"

subsection \<open>Monotonic atomic generator\<close>

record ('raw, 't, 'r) atomic_mono_gen =
  am_state :: 'raw
  am_time :: 't
  am_rng :: 'r

definition atomic_mono_from_components ::
  "build \<Rightarrow> ulid_layout \<Rightarrow> u128 \<Rightarrow> u128 \<Rightarrow> 't \<Rightarrow> 'r \<Rightarrow> (u128, 't, 'r) atomic_mono_gen res" where
  "atomic_mono_from_components b L timestamp random time rng =
     map_ok (\<lambda>x. \<lparr>am_state = ulid_to_raw x, am_time = time, am_rng = rng\<rparr>)
       (ulid_from_components b L timestamp random)"

definition atomic_mono_new ::
  "build \<Rightarrow> ulid_layout \<Rightarrow> 't \<Rightarrow> 'r \<Rightarrow> (u128, 't, 'r) atomic_mono_gen res" where
  "atomic_mono_new b L time rng = atomic_mono_from_components b L 0 0 time rng"

text \<open>From the loaded word to the proposed identifier, with the state of the random source.\<close>

definition atomic_mono_propose ::
  "('r \<Rightarrow> u128 \<times> 'r) \<Rightarrow> build \<Rightarrow> ulid_layout \<Rightarrow> u128 \<Rightarrow> u128 \<Rightarrow> 'r \<Rightarrow>
     (u128 ulid, u128) poll res \<times> 'r" where
  "atomic_mono_propose rand b L now current_raw rng =
     (let current_id = ulid_from_raw current_raw;
          current_ts = ulid_timestamp L current_id
      in case rust_cmp now current_ts of
           Equal \<Rightarrow>
             (if ulid_has_random_room L current_id
              then map_ok Ready (ulid_increment_random b L current_id)
              else Inr (Pending 1), rng)
         | Greater \<Rightarrow>
             (let (random, rng) = rand rng
              in (map_ok Ready (ulid_rollover_to_timestamp b L current_id now random), rng))
         | Less \<Rightarrow> (cold_clock_behind b now current_ts, rng))"

definition atomic_mono_commit ::
  "u128 \<Rightarrow> (u128 ulid, u128) poll res \<Rightarrow> u128 \<Rightarrow> (u128 ulid, u128) poll res \<times> u128" where
  "atomic_mono_commit current_raw proposal current =
     (case proposal of
        Inl panic \<Rightarrow> (Inl panic, current)
      | Inr (Pending yield_for) \<Rightarrow> (Inr (Pending yield_for), current)
      | Inr (Ready next_id) \<Rightarrow>
          (let next_raw = ulid_to_raw next_id
           in if current = current_raw then (Inr (Ready next_id), next_raw)
              else (Inr (Pending 0), current)))"

definition atomic_mono_poll_id ::
  "('t \<Rightarrow> u128 \<times> 't) \<Rightarrow> ('r \<Rightarrow> u128 \<times> 'r) \<Rightarrow> build \<Rightarrow> ulid_layout \<Rightarrow>
     (u128, 't, 'r) atomic_mono_gen \<Rightarrow>
     (u128 ulid, u128) poll res \<times> (u128, 't, 'r) atomic_mono_gen" where
  "atomic_mono_poll_id current_millis rand b L g =
     (let (now, time) = current_millis (am_time g);
          current_raw = am_state g;
          (proposal, rng) = atomic_mono_propose rand b L now current_raw (am_rng g);
          (r, raw) = atomic_mono_commit current_raw proposal (am_state g)
      in (r, g\<lparr>am_time := time, am_rng := rng, am_state := raw\<rparr>))"

definition atomic_mono_try_poll_id ::
  "('t \<Rightarrow> u128 \<times> 't) \<Rightarrow> ('r \<Rightarrow> u128 \<times> 'r) \<Rightarrow> build \<Rightarrow> ulid_layout \<Rightarrow>
     (u128, 't, 'r) atomic_mono_gen \<Rightarrow>
     (gen_error + (u128 ulid, u128) poll) res \<times> (u128, 't, 'r) atomic_mono_gen" where
  "atomic_mono_try_poll_id current_millis rand b L g =
     ok_poll (atomic_mono_poll_id current_millis rand b L g)"

definition atomic_mono_next_id ::
  "('t \<Rightarrow> u128 \<times> 't) \<Rightarrow> ('r \<Rightarrow> u128 \<times> 'r) \<Rightarrow> build \<Rightarrow> ulid_layout \<Rightarrow>
     (u128, 't, 'r) atomic_mono_gen \<Rightarrow>
     (u128 ulid res \<times> (u128, 't, 'r) atomic_mono_gen \<times> u128 list) option" where
  "atomic_mono_next_id current_millis rand b L g =
     next_loop (atomic_mono_poll_id current_millis rand b L) g []"

subsection \<open>Thread-local front end\<close>

definition new_ulid ::
  "('t \<Rightarrow> u128 \<times> 't) \<Rightarrow> ('r \<Rightarrow> u128 \<times> 'r) \<Rightarrow> build \<Rightarrow> ('t, 'r) basic_ulid_gen \<Rightarrow>
     u128 ulid res \<times> ('t, 'r) basic_ulid_gen" where
  "new_ulid current_millis rand b g =
     (case basic_ulid_poll_id current_millis rand b ULID g of
        (Inl panic, g') \<Rightarrow> (Inl panic, g')
      | (Inr (Ready x), g') \<Rightarrow> (Inr x, g')
      | (Inr (Pending _), g') \<Rightarrow>
          (Inl (Panic ''basic ULID generator should never need to yield''), g'))"

definition new_ulid_mono ::
  "('t \<Rightarrow> u128 \<times> 't) \<Rightarrow> ('r \<Rightarrow> u128 \<times> 'r) \<Rightarrow> build \<Rightarrow> (u128 ulid, 't, 'r) basic_mono_gen \<Rightarrow>
     (u128 ulid res \<times> (u128 ulid, 't, 'r) basic_mono_gen \<times> u128 list) option" where
  "new_ulid_mono current_millis rand b g = basic_mono_next_id current_millis rand b ULID g"

text \<open>The constructors of the front end pass their arguments on to the type \<open>ULID\<close>.\<close>

definition tl_from_timestamp_and_rand ::
  "('r \<Rightarrow> u128 \<times> 'r) \<Rightarrow> build \<Rightarrow> u128 \<Rightarrow> 'r \<Rightarrow> (u128 ulid \<times> 'r) res" where
  "tl_from_timestamp_and_rand rand b timestamp rng =
     ulid_from_timestamp_and_rand rand b ULID timestamp rng"

definition tl_from_timestamp ::
  "('r \<Rightarrow> u128 \<times> 'r) \<Rightarrow> build \<Rightarrow> u128 \<Rightarrow> 'r \<Rightarrow> (u128 ulid \<times> 'r) res" where
  "tl_from_timestamp thread_rand b timestamp rng =
     ulid_from_timestamp thread_rand b ULID timestamp rng"

definition tl_from_datetime_and_rand ::
  "('r \<Rightarrow> u128 \<times> 'r) \<Rightarrow> build \<Rightarrow> int \<Rightarrow> 'r \<Rightarrow> (u128 ulid \<times> 'r) res" where
  "tl_from_datetime_and_rand rand b datetime rng =
     ulid_from_datetime_and_rand rand b ULID datetime rng"

definition tl_from_datetime ::
  "('r \<Rightarrow> u128 \<times> 'r) \<Rightarrow> build \<Rightarrow> int \<Rightarrow> 'r \<Rightarrow> (u128 ulid \<times> 'r) res" where
  "tl_from_datetime thread_rand b datetime rng =
     ulid_from_datetime thread_rand b ULID datetime rng"

subsection \<open>The decision the monotonic generators share\<close>

definition ulid_decide ::
  "build \<Rightarrow> ulid_layout \<Rightarrow> 'a::len word \<Rightarrow> 'a word \<Rightarrow> 'a word ulid \<Rightarrow>
     ('a word ulid, 'a word) poll res" where
  "ulid_decide b L now random x =
     (if now = ulid_timestamp L x then
        if ulid_has_random_room L x then map_ok Ready (ulid_increment_random b L x)
        else Inr (Pending 1)
      else if ulid_timestamp L x < now
        then map_ok Ready (ulid_rollover_to_timestamp b L x now random)
      else Inr (Pending (ulid_timestamp L x - now)))"

text \<open>The state of the random source after a poll: it is asked on a new tick only.\<close>

definition drawn ::
  "('r \<Rightarrow> 'a::len word \<times> 'r) \<Rightarrow> ulid_layout \<Rightarrow> 'a word \<Rightarrow> 'a word ulid \<Rightarrow> 'r \<Rightarrow> 'r" where
  "drawn rand L now x rng = (if ulid_timestamp L x < now then snd (rand rng) else rng)"

lemma basic_mono_poll_eq:
  "basic_mono_poll_id cm rand b L g =
     (let now = fst (cm (bm_time g)); x = bm_state g;
          r = ulid_decide b L now (fst (rand (bm_rng g))) x
      in (r, \<lparr>bm_state = installed x r, bm_time = snd (cm (bm_time g)),
              bm_rng = drawn rand L now x (bm_rng g)\<rparr>))"
  by (cases g)
    (auto simp: basic_mono_poll_id_def ulid_decide_def drawn_def rust_cmp_def Let_def
      case_prod_beta split: sum.split)

lemma lock_mono_critical_eq:
  "lock_mono_critical rand parking_lot b L now g =
     (if lm_poisoned g \<and> \<not> parking_lot then (Inr (Inl LockPoisoned), g)
      else let r = ulid_decide b L now (fst (rand (lm_rng g))) (lm_state g)
      in (map_ok Inr r, g\<lparr>lm_state := installed (lm_state g) r,
            lm_rng := drawn rand L now (lm_state g) (lm_rng g),
            lm_poisoned := (if is_ok r then lm_poisoned g else \<not> parking_lot)\<rparr>))"
  by (cases g)
    (auto simp: lock_mono_critical_def ulid_decide_def drawn_def rust_cmp_def Let_def
      case_prod_beta split: sum.split)

lemma basic_mono_try_poll_eq:
  "fst (basic_mono_try_poll_id cm rand b L g) =
     map_ok Inr (ulid_decide b L (fst (cm (bm_time g))) (fst (rand (bm_rng g))) (bm_state g))"
  "bm_state (snd (basic_mono_try_poll_id cm rand b L g)) = installed (bm_state g)
     (ulid_decide b L (fst (cm (bm_time g))) (fst (rand (bm_rng g))) (bm_state g))"
  "bm_time (snd (basic_mono_try_poll_id cm rand b L g)) = snd (cm (bm_time g))"
  "bm_rng (snd (basic_mono_try_poll_id cm rand b L g)) =
     drawn rand L (fst (cm (bm_time g))) (bm_state g) (bm_rng g)"
  by (simp_all add: basic_mono_try_poll_id_def ok_poll_def basic_mono_poll_eq Let_def)

lemma lock_mono_try_poll_eq:
  "fst (lock_mono_try_poll_id cm rand p b L g) =
     (if lm_poisoned g \<and> \<not> p then Inr (Inl LockPoisoned)
      else map_ok Inr (ulid_decide b L (fst (cm (lm_time g))) (fst (rand (lm_rng g))) (lm_state g)))"
  "lm_state (snd (lock_mono_try_poll_id cm rand p b L g)) =
     (if lm_poisoned g \<and> \<not> p then lm_state g
      else installed (lm_state g)
        (ulid_decide b L (fst (cm (lm_time g))) (fst (rand (lm_rng g))) (lm_state g)))"
  "lm_time (snd (lock_mono_try_poll_id cm rand p b L g)) = snd (cm (lm_time g))"
  "lm_rng (snd (lock_mono_try_poll_id cm rand p b L g)) =
     (if lm_poisoned g \<and> \<not> p then lm_rng g
      else drawn rand L (fst (cm (lm_time g))) (lm_state g) (lm_rng g))"
  "lm_poisoned (snd (lock_mono_try_poll_id cm rand p b L g)) \<longleftrightarrow>
     (if lm_poisoned g \<and> \<not> p then True
      else if is_ok (ulid_decide b L (fst (cm (lm_time g))) (fst (rand (lm_rng g))) (lm_state g))
      then lm_poisoned g else \<not> p)"
  by (simp_all add: lock_mono_try_poll_id_def case_prod_beta Let_def lock_mono_critical_eq)

lemma atomic_mono_propose_eq:
  "atomic_mono_propose rand b L now raw rng =
     (ulid_decide b L now (fst (rand rng)) (ulid_from_raw raw),
      drawn rand L now (ulid_from_raw raw) rng)"
  by (auto simp: atomic_mono_propose_def ulid_decide_def drawn_def rust_cmp_def Let_def
      case_prod_beta)

lemma atomic_mono_poll_eq:
  "atomic_mono_poll_id cm rand b L g =
     (let now = fst (cm (am_time g)); x = ulid_from_raw (am_state g);
          r = ulid_decide b L now (fst (rand (am_rng g))) x
      in (r, \<lparr>am_state = ulid_to_raw (installed x r), am_time = snd (cm (am_time g)),
              am_rng = drawn rand L now x (am_rng g)\<rparr>))"
  by (cases g)
    (auto simp: atomic_mono_poll_id_def atomic_mono_propose_eq atomic_mono_commit_def Let_def
      case_prod_beta split: sum.split poll.split)

lemma atomic_mono_try_poll_eq:
  "fst (atomic_mono_try_poll_id cm rand b L g) = map_ok Inr
     (ulid_decide b L (fst (cm (am_time g))) (fst (rand (am_rng g))) (ulid_from_raw (am_state g)))"
  "ulid_from_raw (am_state (snd (atomic_mono_try_poll_id cm rand b L g))) =
     installed (ulid_from_raw (am_state g))
     (ulid_decide b L (fst (cm (am_time g))) (fst (rand (am_rng g))) (ulid_from_raw (am_state g)))"
  "am_time (snd (atomic_mono_try_poll_id cm rand b L g)) = snd (cm (am_time g))"
  "am_rng (snd (atomic_mono_try_poll_id cm rand b L g)) =
     drawn rand L (fst (cm (am_time g))) (ulid_from_raw (am_state g)) (am_rng g)"
  by (simp_all add: atomic_mono_try_poll_id_def ok_poll_def atomic_mono_poll_eq Let_def)

definition ulid_key :: "ulid_layout \<Rightarrow> 'a::len word ulid \<Rightarrow> nat \<times> nat" where
  "ulid_key L x = (unat (ulid_timestamp L x), unat (ulid_random L x))"

definition ulid_gen_inv ::
  "('t \<Rightarrow> 'a::len word \<times> 't) \<Rightarrow> build \<Rightarrow> ulid_layout \<Rightarrow> 'a word ulid \<Rightarrow> 't \<Rightarrow> bool" where
  "ulid_gen_inv cm b L x t \<longleftrightarrow>
     ulid_is_valid_id L x \<and> (b = Debug \<or> always_below cm (2 ^ u_timestamp_bits L) t)"

definition ulid_live_inv ::
  "('t \<Rightarrow> 'a::len word \<times> 't) \<Rightarrow> ulid_layout \<Rightarrow> 'a word ulid \<Rightarrow> 't \<Rightarrow> bool" where
  "ulid_live_inv cm L x t \<longleftrightarrow> ulid_is_valid_id L x \<and> always_below cm (2 ^ u_timestamp_bits L) t"

context wf_ulid_layout
begin

lemma room_iff:
  fixes x :: "'a word ulid"
  shows "ulid_has_random_room L x \<longleftrightarrow> unat (ulid_random L x) < 2 ^ u_random_bits L - 1"
  by (simp add: ulid_has_random_room_def ulid_max_random_def word_less_nat_alt unat_random_mask)

lemma from_components_in_range:
  assumes "ulid_from_components Debug L t r = Inr (x :: 'a word ulid)"
  shows "unat t < 2 ^ u_timestamp_bits L"
  using assms
  by (auto simp: ulid_from_components_def debug_assert_def timestamp_in_range_iff split: if_splits)

lemma decide_ready:
  fixes x y :: "'a word ulid"
  assumes v: "ulid_is_valid_id L x" and "b = Debug \<or> unat now < 2 ^ u_timestamp_bits L"
    and y: "ulid_decide b L now random x = Inr (Ready y)"
  shows "ulid_is_valid_id L y \<and> x < y \<and> ulid_timestamp L y = now"
proof (cases "now = ulid_timestamp L x")
  case True
  with y have room: "ulid_has_random_room L x" by (simp add: ulid_decide_def split: if_splits)
  obtain z where "ulid_increment_random b L x = Inr z" "ulid_is_valid_id L z"
      "ulid_timestamp L z = ulid_timestamp L x" "x < z"
    by (rule increment_ok [OF v room])
  with True room y show ?thesis by (simp add: ulid_decide_def)
next
  case False
  with y have later: "ulid_timestamp L x < now" by (simp add: ulid_decide_def split: if_splits)
  with False y have roll: "ulid_rollover_to_timestamp b L x now random = Inr y"
    by (auto simp: ulid_decide_def map_ok_eq_Inr_iff)
  with assms(2) have range: "unat now < 2 ^ u_timestamp_bits L"
    using from_components_in_range by (auto simp: ulid_rollover_to_timestamp_def)
  obtain z where "ulid_rollover_to_timestamp b L x now random = Inr z" "ulid_is_valid_id L z"
      "ulid_timestamp L z = now" "x < z"
    by (rule rollover_ok [OF v later range])
  with roll show ?thesis by simp
qed

lemma decide_refines:
  fixes x :: "'a word ulid"
  assumes v: "ulid_is_valid_id L x" and range: "unat now < 2 ^ u_timestamp_bits L"
  shows "\<exists>r. ulid_decide b L now random x = Inr r \<and>
    map_poll (ulid_key L) unat r =
      spec_poll (2 ^ u_random_bits L - 1) (unat now) (unat random mod 2 ^ u_random_bits L)
        (ulid_key L x)"
proof (cases now "ulid_timestamp L x" rule: linorder_cases)
  case less
  then have "now \<noteq> ulid_timestamp L x" by simp
  with less show ?thesis
    by (simp add: ulid_decide_def ulid_key_def word_less_nat_alt unat_sub_if')
next
  case equal
  show ?thesis
  proof (cases "ulid_has_random_room L x")
    case True
    obtain z where "ulid_increment_random b L x = Inr z"
        "ulid_timestamp L z = ulid_timestamp L x"
        "unat (ulid_random L z) = Suc (unat (ulid_random L x))"
      by (rule increment_ok [OF v True])
    with True equal show ?thesis by (simp add: ulid_decide_def ulid_key_def room_iff)
  next
    case False
    with equal show ?thesis by (simp add: ulid_decide_def ulid_key_def room_iff)
  qed
next
  case greater
  obtain z where "ulid_rollover_to_timestamp b L x now random = Inr z" "ulid_timestamp L z = now"
      "ulid_random L z = take_bit (u_random_bits L) random"
    by (rule rollover_ok [OF v greater range])
  moreover from greater have "now \<noteq> ulid_timestamp L x" by simp
  ultimately show ?thesis
    using greater by (simp add: ulid_decide_def ulid_key_def word_less_nat_alt unat_take_bit)
qed

lemma gen_inv_tick: "ulid_gen_inv cm b L x t \<Longrightarrow> ulid_gen_inv cm b L x (snd (cm t))"
  by (auto simp: ulid_gen_inv_def always_below_next)

lemma live_inv_tick: "ulid_live_inv cm L x t \<Longrightarrow> ulid_live_inv cm L x (snd (cm t))"
  by (auto simp: ulid_live_inv_def always_below_next)

lemma gen_inv_ready:
  fixes x :: "'a word ulid"
  assumes "ulid_gen_inv cm b L x t" and "ulid_decide b L (fst (cm t)) random x = Inr (Ready y)"
  shows "x < y \<and> ulid_is_valid_id L y"
  using assms decide_ready [of x b "fst (cm t)" random y]
  by (auto simp: ulid_gen_inv_def always_below_now)

lemma gen_inv_step:
  fixes x :: "'a word ulid"
  assumes "ulid_gen_inv cm b L x t"
  shows "ulid_gen_inv cm b L (installed x (ulid_decide b L (fst (cm t)) random x)) (snd (cm t))"
  using gen_inv_tick [OF assms] gen_inv_ready [OF assms]
  by (auto simp: ulid_gen_inv_def installed_def split: sum.split poll.split)

lemma live_inv_step:
  fixes x :: "'a word ulid"
  assumes "ulid_live_inv cm L x t"
  shows "ulid_live_inv cm L (installed x (ulid_decide b L (fst (cm t)) random x)) (snd (cm t))"
  using assms decide_ready [of x b "fst (cm t)" random]
  by (auto simp: ulid_live_inv_def always_below_now always_below_next installed_def
      split: sum.split poll.split)

lemma live_inv_decide:
  fixes x :: "'a word ulid"
  assumes "ulid_live_inv cm L x t"
  shows "\<exists>r. ulid_decide b L (fst (cm t)) random x = Inr r"
    and "ulid_decide b L (fst (cm t)) random x = Inr (Ready y) \<Longrightarrow> x < y"
    and "ulid_decide b L (fst (cm t)) random x = Inr (Pending d) \<Longrightarrow>
      \<not> ulid_timestamp L x < fst (cm t) \<and> 1 \<le> d"
proof -
  have v: "ulid_is_valid_id L x" and now: "unat (fst (cm t)) < 2 ^ u_timestamp_bits L"
    using assms by (simp_all add: ulid_live_inv_def always_below_now)
  show "\<exists>r. ulid_decide b L (fst (cm t)) random x = Inr r"
    using decide_refines [OF v now] by blast
  show "x < y" if "ulid_decide b L (fst (cm t)) random x = Inr (Ready y)"
    using decide_ready [OF v _ that] now by simp
  show "\<not> ulid_timestamp L x < fst (cm t) \<and> 1 \<le> d"
    if "ulid_decide b L (fst (cm t)) random x = Inr (Pending d)"
  proof -
    have "d = 1 \<or> fst (cm t) < ulid_timestamp L x \<and> d = ulid_timestamp L x - fst (cm t)"
      and "\<not> ulid_timestamp L x < fst (cm t)"
      using that by (auto simp: ulid_decide_def map_ok_eq_Inr_iff not_less split: if_splits)
    moreover have "1 \<le> y - x" if "x < y" for x y :: "'a word"
      using that by (simp add: word_le_nat_alt word_less_nat_alt unat_sub_if')
    ultimately show ?thesis by auto
  qed
qed

end

subsection \<open>The contract\<close>

locale ulid_generation = wf_ulid_layout ty L
  for ty :: "'a::len itself" and L +
  fixes b :: build and cm :: "'t \<Rightarrow> 'a word \<times> 't" and rand :: "'r \<Rightarrow> 'a word \<times> 'r"

sublocale ulid_generation \<subseteq> basic: id_generator
  "basic_mono_try_poll_id cm rand b L"
  "\<lambda>g. ulid_gen_inv cm b L (bm_state g) (bm_time g)"
  bm_state
  by unfold_locales
    (auto simp: basic_mono_try_poll_eq gen_inv_step gen_inv_ready map_ok_Ready installed_other)

sublocale ulid_generation \<subseteq> lock: id_generator
  "lock_mono_try_poll_id cm rand parking_lot b L"
  "\<lambda>g. ulid_gen_inv cm b L (lm_state g) (lm_time g)"
  lm_state
  for parking_lot
  by unfold_locales
    (auto simp: lock_mono_try_poll_eq gen_inv_step gen_inv_ready map_ok_Ready installed_other
      gen_inv_tick)

sublocale ulid_generation \<subseteq> basic_live: clocked_generator
  "basic_mono_poll_id cm rand b L"
  "\<lambda>g. ulid_live_inv cm L (bm_state g) (bm_time g)"
  bm_state "ulid_timestamp L" bm_time cm
  by unfold_locales
    (auto simp: basic_mono_poll_eq Let_def live_inv_decide live_inv_tick)

locale atomic_ulid_generation = ulid_generation ty L b cm rand
  for ty :: "128 itself" and L b and cm :: "'t \<Rightarrow> u128 \<times> 't" and rand :: "'r \<Rightarrow> u128 \<times> 'r"

sublocale atomic_ulid_generation \<subseteq> atomic: id_generator
  "atomic_mono_try_poll_id cm rand b L"
  "\<lambda>g. ulid_gen_inv cm b L (ulid_from_raw (am_state g)) (am_time g)"
  "\<lambda>g. ulid_from_raw (am_state g)"
  by unfold_locales
    (auto simp: atomic_mono_try_poll_eq gen_inv_step gen_inv_ready map_ok_Ready installed_other)

sublocale atomic_ulid_generation \<subseteq> atomic_live: clocked_generator
  "atomic_mono_poll_id cm rand b L"
  "\<lambda>g. ulid_live_inv cm L (ulid_from_raw (am_state g)) (am_time g)"
  "\<lambda>g. ulid_from_raw (am_state g)" "ulid_timestamp L" am_time cm
  by unfold_locales
    (auto simp: atomic_mono_poll_eq Let_def live_inv_decide live_inv_tick)

interpretation ulid_gen: atomic_ulid_generation "TYPE(128)" ULID b cm rand for b cm rand
  by unfold_locales

lemma ulid_from_zero: "ulid_from_components b L 0 0 = Inr (Ulid (0 :: 'a::len word))"
  by (simp add: ulid_from_components_def Let_def)

lemma ulid_zero_valid: "ulid_is_valid_id ULID (Ulid (0 :: u128))"
  by code_simp

subsection \<open>Properties\<close>

text \<open>C15: one poll of \<open>BasicMonoUlidGenerator\<close> with a clock reading that fits is one step of the
  abstract generator whose payload is the random part: it is incremented within a tick, taken
  from the random source (reduced to the field) on a later tick, and never changed otherwise.
  The random source is asked exactly when the tick is new.\<close>

theorem basic_mono_poll_refines_spec:
  fixes g :: "('a::len word ulid, 't, 'r) basic_mono_gen"
  assumes "ulid_layout_wf TYPE('a) L" and "ulid_is_valid_id L (bm_state g)"
    and "unat (fst (cm (bm_time g))) < 2 ^ u_timestamp_bits L"
  shows "\<exists>r h. basic_mono_poll_id cm rand b L g = (Inr r, h) \<and>
    map_poll (ulid_key L) unat r =
      spec_poll (2 ^ u_random_bits L - 1) (unat (fst (cm (bm_time g))))
        (unat (fst (rand (bm_rng g))) mod 2 ^ u_random_bits L) (ulid_key L (bm_state g)) \<and>
    bm_state h = (case r of Ready x \<Rightarrow> x | Pending _ \<Rightarrow> bm_state g) \<and>
    bm_time h = snd (cm (bm_time g)) \<and>
    bm_rng h = (if ulid_timestamp L (bm_state g) < fst (cm (bm_time g))
      then snd (rand (bm_rng g)) else bm_rng g)"
proof -
  let ?now = "fst (cm (bm_time g))" and ?random = "fst (rand (bm_rng g))"
  obtain r where "ulid_decide b L ?now ?random (bm_state g) = Inr r"
    "map_poll (ulid_key L) unat r = spec_poll (2 ^ u_random_bits L - 1) (unat ?now)
      (unat ?random mod 2 ^ u_random_bits L) (ulid_key L (bm_state g))"
    using wf_ulid_layout.decide_refines [OF wf_ulid_layoutI [OF assms(1)] assms(2,3)] by blast
  then show ?thesis
    by (cases r) (simp_all add: basic_mono_poll_eq Let_def drawn_def)
qed

theorem basic_mono_poll_refines_spec_witness:
  "\<exists>r h. basic_mono_poll_id (\<lambda>t. (0, t)) (\<lambda>n. (9, Suc n)) Debug ULID
      \<lparr>bm_state = Ulid (4 :: u128), bm_time = (), bm_rng = 0\<rparr> = (Inr r, h) \<and>
    map_poll (ulid_key ULID) unat r = Ready (0, 5) \<and> bm_rng h = 0"
proof -
  have "ulid_is_valid_id ULID (Ulid (4 :: u128))" and "ulid_key ULID (Ulid (4 :: u128)) = (0, 4)"
    and "ulid_timestamp ULID (Ulid (4 :: u128)) = 0"
    by code_simp+
  with basic_mono_poll_refines_spec [OF ULID_wf,
      of "\<lparr>bm_state = Ulid 4, bm_time = (), bm_rng = 0\<rparr>" "\<lambda>t. (0, t)" "\<lambda>n. (9, Suc n)" Debug]
  show ?thesis by (simp add: ULID_def) blast
qed

text \<open>C14: the monotonic ULID generators hand out strictly increasing identifiers over any number of
  polls, for every clock and every random source, starting above zero: the basic, the lock-based
  (with either mutex) and the atomic one. A release build needs clock readings below \<open>2^48\<close>.\<close>

theorem mono_ulids_strictly_increase:
  assumes "b = Debug \<or> always_below cm (2 ^ 48) t"
  shows "\<exists>g h k. basic_mono_new TYPE(128) b ULID t rng = Inr g \<and>
    lock_mono_new TYPE(128) b ULID t rng = Inr h \<and> atomic_mono_new b ULID t rng = Inr k \<and>
    sorted_wrt (<) (ready_ids (fst (polls (basic_mono_try_poll_id cm rand b ULID) n g))) \<and>
    sorted_wrt (<) (ready_ids (fst (polls (lock_mono_try_poll_id cm rand parking_lot b ULID) n h))) \<and>
    sorted_wrt (<) (ready_ids (fst (polls (atomic_mono_try_poll_id cm rand b ULID) n k)))"
proof -
  let ?g = "\<lparr>bm_state = Ulid 0, bm_time = t, bm_rng = rng\<rparr>"
  let ?h = "\<lparr>lm_state = Ulid 0, lm_poisoned = False, lm_time = t, lm_rng = rng\<rparr>"
  let ?k = "\<lparr>am_state = 0, am_time = t, am_rng = rng\<rparr>"
  have inv: "ulid_gen_inv cm b ULID (Ulid 0) t"
    using assms ulid_zero_valid by (simp add: ulid_gen_inv_def) (simp add: ULID_def)
  have "basic_mono_new TYPE(128) b ULID t rng = Inr ?g"
    by (simp add: basic_mono_new_def basic_mono_from_components_def ulid_from_zero)
  moreover have "lock_mono_new TYPE(128) b ULID t rng = Inr ?h"
    by (simp add: lock_mono_new_def lock_mono_from_components_def ulid_from_zero)
  moreover have "atomic_mono_new b ULID t rng = Inr ?k"
    by (simp add: atomic_mono_new_def atomic_mono_from_components_def ulid_from_zero)
  ultimately show ?thesis
    using ulid_gen.basic.ready_increasing [where g = ?g and n = n and rand = rand and cm = cm and b = b]
      ulid_gen.lock.ready_increasing
        [where g = ?h and n = n and rand = rand and cm = cm and b = b and parking_lot = parking_lot]
      ulid_gen.atomic.ready_increasing [where g = ?k and n = n and rand = rand and cm = cm and b = b] inv
    by (simp add: ulid_from_raw_def)
qed

theorem mono_ulids_strictly_increase_witness:
  "\<exists>g h k. basic_mono_new TYPE(128) Debug ULID 5 () = Inr g \<and>
    lock_mono_new TYPE(128) Debug ULID (5 :: u128) () = Inr h \<and>
    atomic_mono_new Debug ULID (5 :: u128) () = Inr k \<and>
    sorted_wrt (<) (ready_ids (fst (polls
      (basic_mono_try_poll_id (\<lambda>t :: u128. (t, t - 1)) (\<lambda>r. (12345, r)) Debug ULID) 20 g))) \<and>
    sorted_wrt (<) (ready_ids (fst (polls
      (lock_mono_try_poll_id (\<lambda>t :: u128. (t, t - 1)) (\<lambda>r. (12345, r)) False Debug ULID) 20 h))) \<and>
    sorted_wrt (<) (ready_ids (fst (polls
      (atomic_mono_try_poll_id (\<lambda>t :: u128. (t, t - 1)) (\<lambda>r. (12345, r)) Debug ULID) 20 k)))"
  by (rule mono_ulids_strictly_increase) simp

text \<open>\<open>Ulid::new_ulid\<close> never reaches its \<open>unreachable!\<close>: it returns the identifier made
  of the clock reading and the low 80 bits of a fresh random word, or, in a debug build whose
  clock is past the 48-bit limit, panics in the constructor.\<close>

lemma new_ulid_returns:
  assumes "cm (bu_time g) = (now, t')" and "rand (bu_rng g) = (random, rng')"
  shows "new_ulid cm rand b g =
      (ulid_from_components b ULID now random, \<lparr>bu_time = t', bu_rng = rng'\<rparr>) \<and>
    (unat now < 2 ^ 48 \<longrightarrow> (\<exists>x. fst (new_ulid cm rand b g) = Inr x \<and>
      ulid_timestamp ULID x = now \<and> unat (ulid_random ULID x) = unat random mod 2 ^ 80))"
proof -
  have eq: "new_ulid cm rand b g =
    (ulid_from_components b ULID now random, \<lparr>bu_time = t', bu_rng = rng'\<rparr>)"
    using assms
    by (cases g) (simp add: new_ulid_def basic_ulid_poll_id_def map_ok_def split: sum.split)
  have "\<exists>x. fst (new_ulid cm rand b g) = Inr x \<and>
      ulid_timestamp ULID x = now \<and> unat (ulid_random ULID x) = unat random mod 2 ^ 80"
    if "unat now < 2 ^ 48"
  proof -
    from that have "unat now < 2 ^ u_timestamp_bits ULID" by (simp add: ULID_def)
    from ulid128.from_components_ok [OF this, of b random] obtain x where
      "ulid_from_components b ULID now random = Inr x" "ulid_timestamp ULID x = now"
      "ulid_random ULID x = take_bit (u_random_bits ULID) random"
      by metis
    moreover have "u_random_bits ULID = 80" by (simp add: ULID_def)
    ultimately show ?thesis by (simp add: eq unat_take_bit)
  qed
  with eq show ?thesis by blast
qed

lemma new_ulid_returns_witness:
  "new_ulid (\<lambda>t :: u128. (t, t + 1)) (\<lambda>r. (r, r + 1)) Debug \<lparr>bu_time = 7, bu_rng = 8\<rparr> =
     (ulid_from_components Debug ULID 7 8, \<lparr>bu_time = 8, bu_rng = 9\<rparr>) \<and>
   (\<exists>x. fst (new_ulid (\<lambda>t :: u128. (t, t + 1)) (\<lambda>r. (r, r + 1)) Debug
      \<lparr>bu_time = 7, bu_rng = 8\<rparr>) = Inr x \<and> ulid_timestamp ULID x = 7)"
proof -
  let ?g = "\<lparr>bu_time = 7 :: u128, bu_rng = 8 :: u128\<rparr>"
  let ?cm = "\<lambda>t :: u128. (t, t + 1)" and ?rand = "\<lambda>r :: u128. (r, r + 1)"
  show ?thesis
    using new_ulid_returns [of ?cm ?g 7 8 ?rand 8 9 Debug] by auto
qed

text \<open>\<open>Ulid::new_ulid_mono\<close> returns: once a later clock reading exceeds the timestamp of the
  thread's last ULID, the loop ends with a greater one after at most that many waits.\<close>

lemma new_ulid_mono_returns:
  assumes "always_below cm (2 ^ 48) (bm_time g)"
    and "ulid_timestamp ULID (bm_state g) < reading cm (bm_time g) n"
  shows "\<exists>x h waits. new_ulid_mono cm rand b g = Some (Inr x, h, waits) \<and>
    bm_state g < x \<and> bm_state h = x \<and> length waits \<le> n"
proof -
  have "ulid_is_valid_id ULID (bm_state g)"
    unfolding ulid128.is_valid_iff
    using unsigned_less [of "ulid_to_raw (bm_state g)"] by (simp add: ulid_consts ULID_def)
  moreover have "u_timestamp_bits ULID = 48" by (simp add: ULID_def)
  ultimately show ?thesis
    using ulid_gen.basic_live.next_loop_returns [of cm g n rand b "[]"] assms
    by (auto simp: new_ulid_mono_def basic_mono_next_id_def ulid_live_inv_def)
qed

lemma new_ulid_mono_returns_witness:
  "\<exists>x h waits. new_ulid_mono (\<lambda>t. (1, t)) (\<lambda>r. (r, r)) Release
      \<lparr>bm_state = Ulid (- 1 AND 0xFFFF), bm_time = (), bm_rng = 3\<rparr> = Some (Inr x, h, waits) \<and>
    bm_state h = x \<and> waits = []"
proof -
  have "always_below (\<lambda>t :: unit. (1 :: u128, t)) (2 ^ 48) ()"
    by (simp add: always_below_def reading_def)
  moreover have "ulid_timestamp ULID (Ulid (- 1 AND 0xFFFF :: u128)) = 0" by code_simp
  ultimately show ?thesis
    using new_ulid_mono_returns [of "\<lambda>t. (1, t)"
        "\<lparr>bm_state = Ulid (- 1 AND 0xFFFF), bm_time = (), bm_rng = 3\<rparr>" 0 "\<lambda>r. (r, r)" Release]
    by (simp add: reading_def) blast
qed

end
