(* ===== verification/Concurrent_Generators.thy ===== *)
theory Concurrent_Generators
  imports Snowflake_Generators Ulid_Generators
begin

text \<open>
  Several threads on one shared generator, as step relations over the pieces of
  \<open>poll_id\<close> that run without interference.

  For the atomic generators a call samples the clock (and, if it will need one, a random
  word), then loads the shared word, then finishes with the compare-and-swap. All accesses
  are \<open>Relaxed\<close>: a load may return any value of the word's modification order, however
  stale, while the read-modify-write of the exchange acts on the newest one. The shared word
  is therefore its history, newest first. For the lock generators a call samples the clock
  before it takes the lock and then runs its critical section alone.

  Every clock reading and every random word is arbitrary at each sample, within what
  \<open>admissible\<close> allows: nothing is monotone between threads or within one. The log
  records the outcomes in the order of the exchanges (or critical sections), newest first.
  Main result: in every reachable configuration the identifiers handed out, over all threads,
  are distinct and strictly ordered as they were produced.
\<close>

subsection \<open>Compare-and-swap machine\<close>

datatype ('inp, 'raw) pc = Idle | Sampled 'inp | Loaded 'inp 'raw

record ('tid, 'inp, 'raw, 'out) cas_config =
  history :: "'raw list"
  pcs :: "'tid \<Rightarrow> ('inp, 'raw) pc"
  cas_log :: "('tid \<times> 'out) list"

definition cas_start :: "'raw \<Rightarrow> ('tid, 'inp, 'raw, 'out) cas_config" where
  "cas_start raw = \<lparr>history = [raw], pcs = (\<lambda>_. Idle), cas_log = []\<rparr>"

inductive cas_step ::
  "('inp \<Rightarrow> bool) \<Rightarrow> ('inp \<Rightarrow> 'raw \<Rightarrow> 'p) \<Rightarrow> ('raw \<Rightarrow> 'p \<Rightarrow> 'raw \<Rightarrow> 'out \<times> 'raw) \<Rightarrow>
     ('tid, 'inp, 'raw, 'out) cas_config \<Rightarrow> ('tid, 'inp, 'raw, 'out) cas_config \<Rightarrow> bool"
  for admissible propose commit where
  sample: "pcs c t = Idle \<Longrightarrow> admissible i \<Longrightarrow>
    cas_step admissible propose commit c (c\<lparr>pcs := (pcs c)(t := Sampled i)\<rparr>)"
| load: "pcs c t = Sampled i \<Longrightarrow> raw \<in> set (history c) \<Longrightarrow>
    cas_step admissible propose commit c (c\<lparr>pcs := (pcs c)(t := Loaded i raw)\<rparr>)"
| exchange: "pcs c t = Loaded i raw \<Longrightarrow>
    commit raw (propose i raw) (hd (history c)) = (out, new) \<Longrightarrow>
    cas_step admissible propose commit c
      (c\<lparr>pcs := (pcs c)(t := Idle), cas_log := (t, out) # cas_log c,
         history := (if new = hd (history c) then history c else new # history c)\<rparr>)"

text \<open>The atomic generators as instances of the machine.\<close>

definition atomic_snow_step ::
  "(u64 \<Rightarrow> bool) \<Rightarrow> build \<Rightarrow> snowflake_layout \<Rightarrow>
     ('tid, u64, u64, (u64 snowflake, u64) poll res) cas_config \<Rightarrow>
     ('tid, u64, u64, (u64 snowflake, u64) poll res) cas_config \<Rightarrow> bool" where
  "atomic_snow_step admissible b L =
     cas_step admissible (atomic_snow_propose b L) atomic_snow_commit"

definition atomic_mono_step ::
  "(u128 \<Rightarrow> bool) \<Rightarrow> build \<Rightarrow> ulid_layout \<Rightarrow>
     ('tid, u128 \<times> u128, u128, (u128 ulid, u128) poll res) cas_config \<Rightarrow>
     ('tid, u128 \<times> u128, u128, (u128 ulid, u128) poll res) cas_config \<Rightarrow> bool" where
  "atomic_mono_step admissible b L =
     cas_step (\<lambda>(now, random). admissible now)
       (\<lambda>(now, random) raw. fst (atomic_mono_propose (\<lambda>r. (r, r)) b L now raw random))
       atomic_mono_commit"

subsection \<open>Lock machine\<close>

record ('tid, 'inp, 's, 'out) lock_config =
  content :: 's
  sampled :: "'tid \<Rightarrow> 'inp option"
  lock_log :: "('tid \<times> 'out) list"

definition lock_start :: "'s \<Rightarrow> ('tid, 'inp, 's, 'out) lock_config" where
  "lock_start s = \<lparr>content = s, sampled = (\<lambda>_. None), lock_log = []\<rparr>"

inductive lock_step ::
  "('inp \<Rightarrow> bool) \<Rightarrow> ('inp \<Rightarrow> 's \<Rightarrow> 'out \<times> 's) \<Rightarrow>
     ('tid, 'inp, 's, 'out) lock_config \<Rightarrow> ('tid, 'inp, 's, 'out) lock_config \<Rightarrow> bool"
  for admissible critical where
  lock_sample: "sampled c t = None \<Longrightarrow> admissible i \<Longrightarrow>
    lock_step admissible critical c (c\<lparr>sampled := (sampled c)(t := Some i)\<rparr>)"
| lock_enter: "sampled c t = Some i \<Longrightarrow> critical i (content c) = (out, s) \<Longrightarrow>
    lock_step admissible critical c
      (c\<lparr>content := s, sampled := (sampled c)(t := None), lock_log := (t, out) # lock_log c\<rparr>)"

definition lock_snow_step ::
  "(u64 \<Rightarrow> bool) \<Rightarrow> bool \<Rightarrow> build \<Rightarrow> snowflake_layout \<Rightarrow>
     ('tid, u64, (u64 snowflake, unit) lock_snow_gen,
       (gen_error + (u64 snowflake, u64) poll) res) lock_config \<Rightarrow>
     ('tid, u64, (u64 snowflake, unit) lock_snow_gen,
       (gen_error + (u64 snowflake, u64) poll) res) lock_config \<Rightarrow> bool" where
  "lock_snow_step admissible parking_lot b L =
     lock_step admissible (lock_snow_critical parking_lot b L)"

definition lock_mono_step ::
  "('r \<Rightarrow> u128 \<times> 'r) \<Rightarrow> (u128 \<Rightarrow> bool) \<Rightarrow> bool \<Rightarrow> build \<Rightarrow> ulid_layout \<Rightarrow>
     ('tid, u128, (u128 ulid, unit, 'r) lock_mono_gen,
       (gen_error + (u128 ulid, u128) poll) res) lock_config \<Rightarrow>
     ('tid, u128, (u128 ulid, unit, 'r) lock_mono_gen,
       (gen_error + (u128 ulid, u128) poll) res) lock_config \<Rightarrow> bool" where
  "lock_mono_step rand admissible parking_lot b L =
     lock_step admissible (lock_mono_critical rand parking_lot b L)"

subsection \<open>Invariants\<close>

text \<open>The identifiers of a log, newest first.\<close>

fun log_ids :: "('tid \<times> ('id, 'ty) poll res) list \<Rightarrow> 'id list" where
  "log_ids [] = []"
| "log_ids ((t, Inr (Ready x)) # l) = x # log_ids l"
| "log_ids (_ # l) = log_ids l"

locale cas_generator =
  fixes admissible :: "'inp \<Rightarrow> bool"
    and propose :: "'inp \<Rightarrow> 'raw::linorder \<Rightarrow> ('id, 'ty) poll res"
    and commit :: "'raw \<Rightarrow> ('id, 'ty) poll res \<Rightarrow> 'raw \<Rightarrow> ('id, 'ty) poll res \<times> 'raw"
    and to_raw :: "'id \<Rightarrow> 'raw"
    and valid :: "'raw \<Rightarrow> bool"
    and retry :: 'ty
  assumes fresh: "valid raw \<Longrightarrow> admissible i \<Longrightarrow> propose i raw = Inr (Ready x) \<Longrightarrow>
      valid (to_raw x) \<and> raw < to_raw x"
    and commit_eq: "commit raw p current =
      (case p of
         Inr (Ready x) \<Rightarrow> if current = raw then (p, to_raw x) else (Inr (Pending retry), current)
       | _ \<Rightarrow> (p, current))"
begin

definition cas_inv :: "('tid, 'inp, 'raw, ('id, 'ty) poll res) cas_config \<Rightarrow> bool" where
  "cas_inv c \<longleftrightarrow>
     history c \<noteq> [] \<and> sorted_wrt (>) (history c) \<and> (\<forall>raw \<in> set (history c). valid raw) \<and>
     map to_raw (log_ids (cas_log c)) = butlast (history c) \<and>
     (\<forall>t i. pcs c t = Sampled i \<longrightarrow> admissible i) \<and>
     (\<forall>t i raw. pcs c t = Loaded i raw \<longrightarrow> admissible i \<and> raw \<in> set (history c))"

lemma commit_cases:
  assumes "commit raw p current = (out, new)"
  obtains (Installed) x where "p = Inr (Ready x)" "current = raw" "out = p" "new = to_raw x"
  | (Unchanged) "new = current" "\<And>x. out \<noteq> Inr (Ready x)"
  using assms by (auto simp: commit_eq split: sum.splits poll.splits if_splits)

lemma cas_inv_step:
  assumes "cas_step admissible propose commit c d" and "cas_inv c"
  shows "cas_inv d"
  using assms(1)
proof (cases rule: cas_step.cases)
  case (sample t i)
  then show ?thesis using assms(2) by (auto simp: cas_inv_def)
next
  case (load t i raw)
  then show ?thesis using assms(2) by (auto simp: cas_inv_def)
next
  case (exchange t i raw out new)
  have h: "history c \<noteq> []" "sorted_wrt (>) (history c)" "admissible i" "valid raw"
    using assms(2) exchange(2) by (auto simp: cas_inv_def)
  from exchange(3) show ?thesis
  proof (cases rule: commit_cases)
    case (Installed x)
    have x: "valid (to_raw x)" "raw < to_raw x"
      using fresh [OF h(4,3)] Installed by auto
    have "to_raw x > r" if "r \<in> set (history c)" for r
      using that h(1,2) x Installed(2) by (cases "history c") auto
    moreover have "to_raw x \<noteq> hd (history c)" using x Installed(2) by auto
    ultimately show ?thesis
      using assms(2) x Installed h(1) by (auto simp: exchange(1) cas_inv_def)
  next
    case Unchanged
    then have "log_ids ((t, out) # cas_log c) = log_ids (cas_log c)"
      by (cases "(t, out) # cas_log c" rule: log_ids.cases) auto
    with Unchanged assms(2) show ?thesis by (auto simp: exchange(1) cas_inv_def)
  qed
qed

lemma cas_inv_start: "valid raw \<Longrightarrow> cas_inv (cas_start raw)"
  by (simp add: cas_inv_def cas_start_def)

lemma cas_inv_reachable:
  assumes "(cas_step admissible propose commit)\<^sup>*\<^sup>* (cas_start raw) c" and "valid raw"
  shows "cas_inv c"
  using assms(1) by induction (auto intro: cas_inv_start [OF assms(2)] cas_inv_step)

theorem cas_ids_sorted:
  assumes "(cas_step admissible propose commit)\<^sup>*\<^sup>* (cas_start raw) c" and "valid raw"
  shows "sorted_wrt (>) (map to_raw (log_ids (cas_log c)))"
    and "distinct (map to_raw (log_ids (cas_log c)))"
    and "\<forall>x \<in> set (log_ids (cas_log c)). valid (to_raw x)"
proof -
  have inv: "cas_inv c" by (rule cas_inv_reachable [OF assms])
  then have "history c = map to_raw (log_ids (cas_log c)) @ [last (history c)]"
    by (simp add: cas_inv_def)
  with inv show *: "sorted_wrt (>) (map to_raw (log_ids (cas_log c)))"
    and "\<forall>x \<in> set (log_ids (cas_log c)). valid (to_raw x)"
    unfolding cas_inv_def
    by (metis sorted_wrt_append) (metis UnCI imageI inv cas_inv_def list.set_map set_append
        \<open>history c = map to_raw (log_ids (cas_log c)) @ [last (history c)]\<close>)
  from * show "distinct (map to_raw (log_ids (cas_log c)))"
    by (metis distinct_rev sorted_wrt_rev strict_sorted_iff)
qed

text \<open>A thread that runs alone from its load to its exchange is not sent back to retry.\<close>

theorem cas_progress:
  assumes "pcs c t = Idle" and "admissible i" and "history c \<noteq> []"
    and "propose i (hd (history c)) = Inr (Ready x)"
  shows "\<exists>d. (cas_step admissible propose commit)\<^sup>*\<^sup>* c d \<and>
    cas_log d = (t, Inr (Ready x)) # cas_log c"
proof -
  let ?raw = "hd (history c)"
  let ?c1 = "c\<lparr>pcs := (pcs c)(t := Sampled i)\<rparr>"
  let ?c2 = "?c1\<lparr>pcs := (pcs ?c1)(t := Loaded i ?raw)\<rparr>"
  let ?c3 = "?c2\<lparr>pcs := (pcs ?c2)(t := Idle), cas_log := (t, Inr (Ready x)) # cas_log ?c2,
      history := (if to_raw x = hd (history ?c2) then history ?c2 else to_raw x # history ?c2)\<rparr>"
  have "cas_step admissible propose commit c ?c1"
    using assms(1,2) by (rule cas_step.sample)
  moreover have "cas_step admissible propose commit ?c1 ?c2"
    using assms(3) by (intro cas_step.load) auto
  moreover have "cas_step admissible propose commit ?c2 ?c3"
    by (rule cas_step.exchange [where i = i and raw = ?raw]) (simp_all add: commit_eq assms(4))
  ultimately have "(cas_step admissible propose commit)\<^sup>*\<^sup>* c ?c3"
    by (meson converse_rtranclp_into_rtranclp r_into_rtranclp)
  then show ?thesis by (intro exI [of _ ?c3]) simp
qed

end

text \<open>The lock machine: the identifiers in the order of the critical sections.\<close>

locale lock_generator =
  fixes admissible :: "'inp \<Rightarrow> bool"
    and critical :: "'inp \<Rightarrow> 's \<Rightarrow> ('e + ('id::linorder, 'ty) poll) res \<times> 's"
    and latest :: "'s \<Rightarrow> 'id"
    and inv :: "'s \<Rightarrow> bool"
  assumes keeps: "inv s \<Longrightarrow> admissible i \<Longrightarrow> inv (snd (critical i s))"
    and ready: "inv s \<Longrightarrow> admissible i \<Longrightarrow> fst (critical i s) = Inr (Inr (Ready x)) \<Longrightarrow>
      latest s < x \<and> latest (snd (critical i s)) = x"
    and not_ready: "inv s \<Longrightarrow> admissible i \<Longrightarrow>
      (\<And>x. fst (critical i s) \<noteq> Inr (Inr (Ready x))) \<Longrightarrow> latest (snd (critical i s)) = latest s"
begin

definition lock_inv ::
  "('tid, 'inp, 's, ('e + ('id, 'ty) poll) res) lock_config \<Rightarrow> bool" where
  "lock_inv c \<longleftrightarrow>
     inv (content c) \<and> (\<forall>t i. sampled c t = Some i \<longrightarrow> admissible i) \<and>
     sorted_wrt (>) (ready_ids (map snd (lock_log c))) \<and>
     (\<forall>x \<in> set (ready_ids (map snd (lock_log c))). x \<le> latest (content c))"

lemma lock_inv_step: "lock_step admissible critical c d \<Longrightarrow> lock_inv c \<Longrightarrow> lock_inv d"
proof (induction rule: lock_step.induct)
  case (lock_sample c t i)
  then show ?case by (auto simp: lock_inv_def)
next
  case (lock_enter c t i out s)
  have c: "inv (content c)" "admissible i"
    using lock_enter.hyps(1) lock_enter.prems by (auto simp: lock_inv_def)
  have cr: "fst (critical i (content c)) = out" "snd (critical i (content c)) = s"
    using lock_enter.hyps(2) by simp_all
  show ?case
  proof (cases "\<exists>x. out = Inr (Inr (Ready x))")
    case True
    then obtain x where x: "out = Inr (Inr (Ready x))" by blast
    with ready [OF c] cr have "latest (content c) < x" "latest s = x" by auto
    with lock_enter.prems keeps [OF c] cr x show ?thesis
      by (auto simp: lock_inv_def intro: order_le_less_trans less_imp_le split: if_splits)
  next
    case False
    with not_ready [OF c] cr have "latest s = latest (content c)" by auto
    moreover have "ready_ids (out # map snd (lock_log c)) = ready_ids (map snd (lock_log c))"
      using False by (auto simp: ready_ids_Cons split: sum.split poll.split)
    ultimately show ?thesis
      using lock_enter.prems keeps [OF c] cr by (auto simp: lock_inv_def split: if_splits)
  qed
qed

theorem lock_ids_sorted:
  assumes "(lock_step admissible critical)\<^sup>*\<^sup>* (lock_start s) c" and "inv s"
  shows "sorted_wrt (>) (ready_ids (map snd (lock_log c)))"
    and "distinct (ready_ids (map snd (lock_log c)))"
proof -
  have "lock_inv (lock_start s)" using assms(2) by (simp add: lock_inv_def lock_start_def)
  with assms(1) have "lock_inv c" by induction (auto intro: lock_inv_step)
  then show *: "sorted_wrt (>) (ready_ids (map snd (lock_log c)))" by (simp add: lock_inv_def)
  from * show "distinct (ready_ids (map snd (lock_log c)))"
    by (metis distinct_rev sorted_wrt_rev strict_sorted_iff)
qed

end

subsection \<open>The generators as instances\<close>

text \<open>Which clock readings are admissible: all in a debug build, those that fit in a release build.\<close>

definition readings_fit :: "build \<Rightarrow> nat \<Rightarrow> ('a::len word \<Rightarrow> bool) \<Rightarrow> bool" where
  "readings_fit b bits admissible \<longleftrightarrow>
     b = Debug \<or> (\<forall>now. admissible now \<longrightarrow> unat now < 2 ^ bits)"

locale snow_threads = wf_snowflake_layout ty L
  for ty :: "64 itself" and L +
  fixes b :: build and admissible :: "u64 \<Rightarrow> bool" and m :: u64
  assumes fit: "readings_fit b (timestamp_bits L) admissible"
begin

lemma decide_fresh:
  fixes x :: "u64 snowflake"
  assumes "snow_is_valid L x" "admissible now" "snow_decide b L now x = Inr (Ready y)"
  shows "snow_is_valid L y \<and> x < y \<and> snow_machine_id L y = snow_machine_id L x"
  using decide_ready [OF assms(1) _ assms(3)] assms(2) fit by (auto simp: readings_fit_def)

end

sublocale snow_threads \<subseteq> cas: cas_generator
  admissible "atomic_snow_propose b L" atomic_snow_commit snow_to_raw
  "\<lambda>raw. snow_is_valid L (snow_from_raw raw) \<and> snow_machine_id L (snow_from_raw raw) = m"
  "0 :: u64"
proof unfold_locales
  fix raw i x
  assume "snow_is_valid L (snow_from_raw raw) \<and> snow_machine_id L (snow_from_raw raw) = m"
    and "admissible i" and "atomic_snow_propose b L i raw = Inr (Ready x)"
  then show "(snow_is_valid L (snow_from_raw (snow_to_raw x)) \<and>
      snow_machine_id L (snow_from_raw (snow_to_raw x)) = m) \<and> raw < snow_to_raw x"
    using decide_fresh [of "snow_from_raw raw" i x]
    by (auto simp: atomic_snow_propose_eq less_snowflake_def)
qed (auto simp: atomic_snow_commit_def Let_def split: sum.split poll.split)

sublocale snow_threads \<subseteq> lock: lock_generator
  admissible "lock_snow_critical parking_lot b L" ls_state
  "\<lambda>g. snow_is_valid L (ls_state g) \<and> snow_machine_id L (ls_state g) = m"
  for parking_lot
proof unfold_locales
  fix s :: "(u64 snowflake, 'c) lock_snow_gen" and i
  assume s: "snow_is_valid L (ls_state s) \<and> snow_machine_id L (ls_state s) = m" and i: "admissible i"
  let ?r = "snow_decide b L i (ls_state s)"
  show "snow_is_valid L (ls_state (snd (lock_snow_critical parking_lot b L i s))) \<and>
    snow_machine_id L (ls_state (snd (lock_snow_critical parking_lot b L i s))) = m"
    using s decide_fresh [of "ls_state s" i] i
    by (auto simp: lock_snow_critical_eq Let_def installed_def split: sum.split poll.split)
  show "ls_state s < x \<and> ls_state (snd (lock_snow_critical parking_lot b L i s)) = x"
    if "fst (lock_snow_critical parking_lot b L i s) = Inr (Inr (Ready x))" for x
    using that s decide_fresh [of "ls_state s" i x] i
    by (auto simp: lock_snow_critical_eq Let_def map_ok_Ready split: if_splits)
  show "ls_state (snd (lock_snow_critical parking_lot b L i s)) = ls_state s"
    if "\<And>x. fst (lock_snow_critical parking_lot b L i s) \<noteq> Inr (Inr (Ready x))"
    using that
    by (auto simp: lock_snow_critical_eq Let_def map_ok_Ready installed_other split: if_splits)
qed

locale ulid_threads = wf_ulid_layout ty L
  for ty :: "128 itself" and L +
  fixes b :: build and admissible :: "u128 \<Rightarrow> bool"
  assumes fit: "readings_fit b (u_timestamp_bits L) admissible"
begin

lemma decide_fresh:
  fixes x :: "u128 ulid"
  assumes "ulid_is_valid_id L x" "admissible now" "ulid_decide b L now random x = Inr (Ready y)"
  shows "ulid_is_valid_id L y \<and> x < y"
  using decide_ready [OF assms(1) _ assms(3)] assms(2) fit by (auto simp: readings_fit_def)

end

sublocale ulid_threads \<subseteq> cas: cas_generator
  "\<lambda>(now, random). admissible now"
  "\<lambda>(now, random) raw. fst (atomic_mono_propose (\<lambda>r. (r, r)) b L now raw random)"
  atomic_mono_commit ulid_to_raw "\<lambda>raw. ulid_is_valid_id L (ulid_from_raw raw)" "0 :: u128"
proof unfold_locales
  fix raw x and i :: "u128 \<times> u128"
  assume "ulid_is_valid_id L (ulid_from_raw raw)" and "case i of (now, random) \<Rightarrow> admissible now"
    and "(case i of (now, random) \<Rightarrow> \<lambda>raw. fst (atomic_mono_propose (\<lambda>r. (r, r)) b L now raw random)) raw
      = Inr (Ready x)"
  then show "ulid_is_valid_id L (ulid_from_raw (ulid_to_raw x)) \<and> raw < ulid_to_raw x"
    using decide_fresh [of "ulid_from_raw raw" "fst i" "snd i" x]
    by (auto simp: atomic_mono_propose_eq less_ulid_def)
qed (auto simp: atomic_mono_commit_def Let_def split: sum.split poll.split)

sublocale ulid_threads \<subseteq> lock: lock_generator
  admissible "lock_mono_critical rand parking_lot b L" lm_state
  "\<lambda>g. ulid_is_valid_id L (lm_state g)"
  for rand parking_lot
proof unfold_locales
  fix s :: "(u128 ulid, 'b, 'a) lock_mono_gen" and i
  assume s: "ulid_is_valid_id L (lm_state s)" and i: "admissible i"
  let ?r = "ulid_decide b L i (fst (rand (lm_rng s))) (lm_state s)"
  show "ulid_is_valid_id L (lm_state (snd (lock_mono_critical rand parking_lot b L i s)))"
    using s decide_fresh [of "lm_state s" i "fst (rand (lm_rng s))"] i
    by (auto simp: lock_mono_critical_eq Let_def installed_def split: sum.split poll.split)
  show "lm_state s < x \<and> lm_state (snd (lock_mono_critical rand parking_lot b L i s)) = x"
    if "fst (lock_mono_critical rand parking_lot b L i s) = Inr (Inr (Ready x))" for x
    using that s decide_fresh [of "lm_state s" i "fst (rand (lm_rng s))" x] i
    by (auto simp: lock_mono_critical_eq Let_def map_ok_Ready split: if_splits)
  show "lm_state (snd (lock_mono_critical rand parking_lot b L i s)) = lm_state s"
    if "\<And>x. fst (lock_mono_critical rand parking_lot b L i s) \<noteq> Inr (Inr (Ready x))"
    using that
    by (auto simp: lock_mono_critical_eq Let_def map_ok_Ready installed_other split: if_splits)
qed

interpretation twitter_threads: snow_threads "TYPE(64)" SnowflakeTwitterId Debug "\<lambda>_. True" m for m
  by unfold_locales (simp add: readings_fit_def)

interpretation ulid128_threads: ulid_threads "TYPE(128)" ULID Debug "\<lambda>_. True"
  by unfold_locales (simp add: readings_fit_def)

interpretation ulid128_release_threads: ulid_threads "TYPE(128)" ULID Release
  "\<lambda>now. now < 2 ^ 48"
  by unfold_locales (simp add: readings_fit_def ULID_def word_less_nat_alt)

context snow_threads
begin

lemmas snow_cas_sorted = cas.cas_ids_sorted
lemmas snow_cas_progress = cas.cas_progress
lemmas snow_lock_sorted = lock.lock_ids_sorted

end

context ulid_threads
begin

lemmas ulid_cas_sorted = cas.cas_ids_sorted
lemmas ulid_cas_progress = cas.cas_progress
lemmas ulid_lock_sorted = lock.lock_ids_sorted

end

lemma snow_threadsI:
  "layout_wf TYPE(64) L \<Longrightarrow> readings_fit b (timestamp_bits L) admissible \<Longrightarrow>
     snow_threads TYPE(64) L b admissible"
  by (simp add: snow_threads_def snow_threads_axioms_def wf_snowflake_layoutI)

lemma ulid_threadsI:
  "ulid_layout_wf TYPE(128) L \<Longrightarrow> readings_fit b (u_timestamp_bits L) admissible \<Longrightarrow>
     ulid_threads TYPE(128) L b admissible"
  by (simp add: ulid_threads_def ulid_threads_axioms_def wf_ulid_layoutI)

lemma sorted_map_snow_to_raw:
  "sorted_wrt (>) (map snow_to_raw xs) \<longleftrightarrow> sorted_wrt (>) xs"
  by (simp add: sorted_wrt_map less_snowflake_def)

lemma sorted_map_ulid_to_raw: "sorted_wrt (>) (map ulid_to_raw xs) \<longleftrightarrow> sorted_wrt (>) xs"
  by (simp add: sorted_wrt_map less_ulid_def)

subsection \<open>Properties\<close>

text \<open>C2: any number of threads polling one \<open>AtomicSnowflakeGenerator\<close> under relaxed memory
  ordering, with arbitrary interleaving, stale loads and arbitrary clock readings, never receive
  the same identifier twice: the identifiers are strictly increasing in the order of the
  successful exchanges, valid, and of the generator's machine.\<close>

theorem atomic_snow_threads_unique:
  assumes "layout_wf TYPE(64) L" and "readings_fit b (timestamp_bits L) admissible"
    and "snow_is_valid L start"
    and "(atomic_snow_step admissible b L)\<^sup>*\<^sup>* (cas_start (snow_to_raw start)) c"
  shows "sorted_wrt (>) (log_ids (cas_log c)) \<and> distinct (log_ids (cas_log c)) \<and>
    (\<forall>x \<in> set (log_ids (cas_log c)).
       snow_is_valid L x \<and> snow_machine_id L x = snow_machine_id L start)"
proof -
  have "sorted_wrt (>) (map snow_to_raw (log_ids (cas_log c)))"
    "distinct (map snow_to_raw (log_ids (cas_log c)))"
    "\<forall>x \<in> set (log_ids (cas_log c)). snow_is_valid L (snow_from_raw (snow_to_raw x)) \<and>
       snow_machine_id L (snow_from_raw (snow_to_raw x)) = snow_machine_id L start"
    using assms(3,4) unfolding atomic_snow_step_def
    by (intro snow_threads.snow_cas_sorted [OF snow_threadsI [OF assms(1,2)],
          of "snow_to_raw start"]; simp)+
  then show ?thesis by (simp add: sorted_map_snow_to_raw distinct_map)
qed

text \<open>Progress of the compare-and-swap loop: in any configuration, an idle thread that samples
  a reading at which the newest identifier allows another one obtains it when it runs without
  interference from its load to its exchange.\<close>

lemma atomic_snow_thread_progress:
  assumes "layout_wf TYPE(64) L" and "readings_fit b (timestamp_bits L) admissible"
    and "pcs c t = Idle" and "admissible now" and "history c \<noteq> []"
    and "atomic_snow_propose b L now (hd (history c)) = Inr (Ready x)"
  shows "\<exists>d. (atomic_snow_step admissible b L)\<^sup>*\<^sup>* c d \<and>
    cas_log d = (t, Inr (Ready x)) # cas_log c"
  using snow_threads.snow_cas_progress [OF snow_threadsI [OF assms(1,2)], of c t now x] assms(3-6)
  unfolding atomic_snow_step_def by simp

lemma atomic_snow_thread_progress_witness:
  "\<exists>d. (atomic_snow_step (\<lambda>_. True) Debug SnowflakeTwitterId)\<^sup>*\<^sup>* (cas_start 0) d \<and>
    cas_log d = [(0 :: nat, Inr (Ready (Snowflake 4194304)))]"
proof -
  have "readings_fit Debug (timestamp_bits SnowflakeTwitterId) (\<lambda>_ :: u64. True)"
    by (simp add: readings_fit_def)
  moreover have "atomic_snow_propose Debug SnowflakeTwitterId 1 0 = Inr (Ready (Snowflake 4194304))"
    by code_simp
  ultimately show ?thesis
    using atomic_snow_thread_progress [OF twitter_wf, of Debug "\<lambda>_. True" "cas_start 0" "0 :: nat" 1]
    by (simp add: cas_start_def)
qed

theorem atomic_snow_threads_unique_witness:
  "\<exists>c. (atomic_snow_step (\<lambda>_. True) Debug SnowflakeTwitterId)\<^sup>*\<^sup>*
      (cas_start (snow_to_raw (Snowflake 0))) c \<and>
    cas_log c = [(0 :: nat, Inr (Ready (Snowflake 4194304)))] \<and>
    sorted_wrt (>) (log_ids (cas_log c)) \<and> distinct (log_ids (cas_log c))"
proof -
  have fit: "readings_fit Debug (timestamp_bits SnowflakeTwitterId) (\<lambda>_ :: u64. True)"
    by (simp add: readings_fit_def)
  have v: "snow_is_valid SnowflakeTwitterId (Snowflake (0 :: u64))"
    and "atomic_snow_propose Debug SnowflakeTwitterId 1 0 = Inr (Ready (Snowflake 4194304))"
    by code_simp+
  then obtain d where "(atomic_snow_step (\<lambda>_. True) Debug SnowflakeTwitterId)\<^sup>*\<^sup>*
      (cas_start (snow_to_raw (Snowflake 0))) d" "cas_log d = [(0 :: nat, Inr (Ready (Snowflake 4194304)))]"
    using snow_threads.snow_cas_progress [OF snow_threadsI [OF twitter_wf fit],
        of "cas_start 0" "0 :: nat" 1]
    by (auto simp: cas_start_def atomic_snow_step_def)
  with atomic_snow_threads_unique [OF twitter_wf fit v] show ?thesis by blast
qed

text \<open>C11: the same for any number of threads on one \<open>AtomicMonoUlidGenerator\<close>, whatever the
  random source returns.\<close>

theorem atomic_mono_threads_unique:
  assumes "readings_fit b 48 admissible"
    and "(atomic_mono_step admissible b ULID)\<^sup>*\<^sup>* (cas_start (ulid_to_raw start)) c"
  shows "sorted_wrt (>) (log_ids (cas_log c)) \<and> distinct (log_ids (cas_log c))"
proof -
  have fit: "readings_fit b (u_timestamp_bits ULID) admissible" using assms(1) by (simp add: ULID_def)
  have v: "ulid_is_valid_id ULID start"
    unfolding ulid128.is_valid_iff
    using unsigned_less [of "ulid_to_raw start"] by (simp add: ulid_consts ULID_def)
  have "sorted_wrt (>) (map ulid_to_raw (log_ids (cas_log c)))"
    "distinct (map ulid_to_raw (log_ids (cas_log c)))"
    using assms(2) v unfolding atomic_mono_step_def
    by (intro ulid_threads.ulid_cas_sorted [OF ulid_threadsI [OF ULID_wf fit],
          of "ulid_to_raw start"]; simp)+
  then show ?thesis by (simp add: sorted_map_ulid_to_raw distinct_map)
qed

theorem atomic_mono_threads_unique_witness:
  "\<exists>c. (atomic_mono_step (\<lambda>_. True) Debug ULID)\<^sup>*\<^sup>* (cas_start (ulid_to_raw (Ulid 5))) c \<and>
    cas_log c = [(0 :: nat, Inr (Ready (Ulid (2 ^ 80 + 9))))] \<and> sorted_wrt (>) (log_ids (cas_log c))"
proof -
  have fit: "readings_fit Debug 48 (\<lambda>_ :: u128. True)" by (simp add: readings_fit_def)
  have "fst (atomic_mono_propose (\<lambda>r. (r, r)) Debug ULID 1 5 9) = Inr (Ready (Ulid (2 ^ 80 + 9)))"
    by code_simp
  then obtain c where "(atomic_mono_step (\<lambda>_. True) Debug ULID)\<^sup>*\<^sup>* (cas_start (ulid_to_raw (Ulid 5))) c"
      "cas_log c = [(0 :: nat, Inr (Ready (Ulid (2 ^ 80 + 9))))]"
    using ulid128_threads.cas.cas_progress [of "cas_start 5" "0 :: nat" "(1, 9)" "Ulid (2 ^ 80 + 9)"]
    by (auto simp: cas_start_def atomic_mono_step_def)
  with atomic_mono_threads_unique [OF fit] show ?thesis by blast
qed

text \<open>Extending a run of the lock machine by one step.\<close>

lemma lock_run_sample:
  assumes "(lock_step admissible critical)\<^sup>*\<^sup>* c0 \<lparr>content = s, sampled = f, lock_log = l\<rparr>"
    and "f t = None" and "admissible i"
  shows "(lock_step admissible critical)\<^sup>*\<^sup>* c0
    \<lparr>content = s, sampled = f(t := Some i), lock_log = l\<rparr>"
  using rtranclp.rtrancl_into_rtrancl [OF assms(1) lock_sample [where t = t and i = i]] assms(2,3)
  by simp

lemma lock_run_enter:
  assumes "(lock_step admissible critical)\<^sup>*\<^sup>* c0 \<lparr>content = s, sampled = f, lock_log = l\<rparr>"
    and "critical i s = (out, s')" and "f t = Some i"
  shows "(lock_step admissible critical)\<^sup>*\<^sup>* c0
    \<lparr>content = s', sampled = f(t := None), lock_log = (t, out) # l\<rparr>"
  using rtranclp.rtrancl_into_rtrancl [OF assms(1) lock_enter [where t = t and i = i]] assms(2,3)
  by simp

text \<open>A race of two threads: both have read the clock before either takes the lock, so thread 1
  enters with a reading that is already behind, is told to wait, and succeeds on its second
  attempt.\<close>

lemma twitter_race_decisions:
  "snow_decide Debug SnowflakeTwitterId 2 (Snowflake (0 :: u64)) = Inr (Ready (Snowflake 8388608))"
  "snow_decide Debug SnowflakeTwitterId 1 (Snowflake (8388608 :: u64)) = Inr (Pending 1)"
  "snow_decide Debug SnowflakeTwitterId 2 (Snowflake (8388608 :: u64)) =
    Inr (Ready (Snowflake 8388609))"
proof -
  show "snow_decide Debug SnowflakeTwitterId 2 (Snowflake (0 :: u64)) =
      Inr (Ready (Snowflake 8388608))"
    and "snow_decide Debug SnowflakeTwitterId 1 (Snowflake (8388608 :: u64)) = Inr (Pending 1)"
    by code_simp+
  have "snow_next_sequence Debug SnowflakeTwitterId (Snowflake (8388608 :: u64)) = Inr 1"
  proof -
    have "snow_sequence SnowflakeTwitterId (Snowflake (8388608 :: u64)) = 0" by code_simp
    then show ?thesis by (simp add: snow_next_sequence_def rust_add_def)
  qed
  moreover have "snow_from_components Debug SnowflakeTwitterId
      (snow_timestamp SnowflakeTwitterId (Snowflake (8388608 :: u64)))
      (snow_machine_id SnowflakeTwitterId (Snowflake 8388608)) 1 = Inr (Snowflake 8388609)"
    by code_simp
  moreover have "snow_timestamp SnowflakeTwitterId (Snowflake (8388608 :: u64)) = 2"
    and "snow_has_sequence_room SnowflakeTwitterId (Snowflake (8388608 :: u64))"
    by code_simp+
  ultimately show "snow_decide Debug SnowflakeTwitterId 2 (Snowflake (8388608 :: u64)) =
      Inr (Ready (Snowflake 8388609))"
    by (simp add: snow_decide_def snow_increment_sequence_def)
qed

lemma twitter_lock_race:
  "\<exists>c. (lock_snow_step (\<lambda>_. True) False Debug SnowflakeTwitterId)\<^sup>*\<^sup>*
      (lock_start \<lparr>ls_state = Snowflake 0, ls_poisoned = False, ls_time = ()\<rparr>) c \<and>
    lock_log c = [(1 :: nat, Inr (Inr (Ready (Snowflake 8388609)))), (1, Inr (Inr (Pending 1))),
      (0, Inr (Inr (Ready (Snowflake 8388608))))]"
proof -
  let ?g = "\<lambda>raw :: u64. \<lparr>ls_state = Snowflake raw, ls_poisoned = False, ls_time = ()\<rparr>"
  let ?crit = "lock_snow_critical False Debug SnowflakeTwitterId"
  let ?run = "(lock_step (\<lambda>_. True) ?crit)\<^sup>*\<^sup>* (lock_start (?g 0))"
  have crit: "?crit 2 (?g 0) = (Inr (Inr (Ready (Snowflake 8388608))), ?g 8388608)"
    "?crit 1 (?g 8388608) = (Inr (Inr (Pending 1)), ?g 8388608)"
    "?crit 2 (?g 8388608) = (Inr (Inr (Ready (Snowflake 8388609))), ?g 8388609)"
    by (simp_all add: lock_snow_critical_eq twitter_race_decisions installed_def)
  let ?log = "[(1, Inr (Inr (Ready (Snowflake 8388609)))), (1, Inr (Inr (Pending 1))),
    (0, Inr (Inr (Ready (Snowflake 8388608))))]
    :: (nat \<times> (gen_error + (u64 snowflake, u64) poll) res) list"
  let ?c = "\<lparr>content = ?g 8388609, sampled = \<lambda>_. None :: u64 option, lock_log = ?log\<rparr>"
  have run: "?run ?c"
  proof -
    have "?run \<lparr>content = ?g 0, sampled = \<lambda>_ :: nat. None, lock_log = []\<rparr>" by (simp add: lock_start_def)
    then have "?run \<lparr>content = ?g 0, sampled = (\<lambda>_ :: nat. None)(0 := Some 2), lock_log = []\<rparr>"
      by (rule lock_run_sample) simp_all
    then have "?run \<lparr>content = ?g 0, sampled = (\<lambda>_ :: nat. None)(0 := Some 2, 1 := Some 1), lock_log = []\<rparr>"
      by (rule lock_run_sample) simp_all
    note lock_run_enter [OF this crit(1), of 0]
    then have "?run \<lparr>content = ?g 8388608, sampled = (\<lambda>_ :: nat. None)(1 := Some 1),
        lock_log = [(0, Inr (Inr (Ready (Snowflake 8388608))))]\<rparr>"
      by (simp add: fun_upd_twist)
    note lock_run_enter [OF this crit(2), of 1]
    then have "?run \<lparr>content = ?g 8388608, sampled = \<lambda>_ :: nat. None,
        lock_log = [(1, Inr (Inr (Pending 1))), (0, Inr (Inr (Ready (Snowflake 8388608))))]\<rparr>"
      by (simp add: fun_upd_idem)
    then have "?run \<lparr>content = ?g 8388608, sampled = (\<lambda>_ :: nat. None)(1 := Some 2),
        lock_log = [(1, Inr (Inr (Pending 1))), (0, Inr (Inr (Ready (Snowflake 8388608))))]\<rparr>"
      by (rule lock_run_sample) simp_all
    note lock_run_enter [OF this crit(3), of 1]
    then show ?thesis by (simp add: fun_upd_idem)
  qed
  then show ?thesis
    unfolding lock_snow_step_def by (intro exI [of _ ?c]) simp_all
qed

text \<open>C12: any number of threads on one \<open>LockSnowflakeGenerator\<close>, each of which reads the clock
  before it takes the lock, receive distinct identifiers, strictly increasing in the order in
  which they held the lock, with either mutex and also after a poisoning panic.\<close>

theorem lock_snow_threads_unique:
  assumes "layout_wf TYPE(64) L" and "readings_fit b (timestamp_bits L) admissible"
    and "snow_is_valid L (ls_state start)"
    and "(lock_snow_step admissible parking_lot b L)\<^sup>*\<^sup>* (lock_start start) c"
  shows "sorted_wrt (>) (ready_ids (map snd (lock_log c))) \<and>
    distinct (ready_ids (map snd (lock_log c)))"
  using snow_threads.snow_lock_sorted [OF snow_threadsI [OF assms(1,2)],
      of parking_lot start c "snow_machine_id L (ls_state start)"] assms(3,4)
  unfolding lock_snow_step_def by simp

theorem lock_snow_threads_unique_witness:
  "\<exists>c :: (nat, u64, (u64 snowflake, unit) lock_snow_gen,
      (gen_error + (u64 snowflake, u64) poll) res) lock_config.
    (lock_snow_step (\<lambda>_. True) False Debug SnowflakeTwitterId)\<^sup>*\<^sup>*
      (lock_start \<lparr>ls_state = Snowflake 0, ls_poisoned = False, ls_time = ()\<rparr>) c \<and>
    lock_log c = [(1, Inr (Inr (Ready (Snowflake 8388609)))), (1, Inr (Inr (Pending 1))),
      (0, Inr (Inr (Ready (Snowflake 8388608))))] \<and>
    sorted_wrt (>) (ready_ids (map snd (lock_log c))) \<and>
    distinct (ready_ids (map snd (lock_log c)))"
proof -
  have "readings_fit Debug (timestamp_bits SnowflakeTwitterId) (\<lambda>_ :: u64. True)"
    by (simp add: readings_fit_def)
  moreover have "snow_is_valid SnowflakeTwitterId (Snowflake (0 :: u64))" by code_simp
  ultimately show ?thesis
    using twitter_lock_race lock_snow_threads_unique [OF twitter_wf, of Debug "\<lambda>_. True"
        "\<lparr>ls_state = Snowflake 0, ls_poisoned = False, ls_time = ()\<rparr>" False]
    by fastforce
qed

end
