(* ===== verification/Generator_Traits.thy ===== *)
theory Generator_Traits
  imports Snowflake_Generators Ulid_Generators
begin

text \<open>
  The traits \<open>SnowflakeGenerator\<close> and \<open>UlidGenerator\<close> of
  \<^verbatim>\<open>crates/ferroid/src/generator/snowflake/interface.rs\<close> and
  \<^verbatim>\<open>generator/ulid/interface.rs\<close>: the methods with a default body, and how the
  generators that cannot fail implement the fallible methods. A default body matches on the
  value of an uninhabited type in its error branch; the model makes that the fault
  \<open>Undefined\<close>, and shows that it is never reached for these generators.
\<close>

subsection \<open>Default methods\<close>

definition unwrap_infallible :: "('e + 'a) res \<Rightarrow> 'a res" where
  "unwrap_infallible r =
     and_then r (\<lambda>x. case x of
       Inr y \<Rightarrow> Inr y
     | Inl _ \<Rightarrow> Inl (Undefined ''value of an empty type''))"

definition snowflake_generator_next_id ::
  "('g \<Rightarrow> (('e + 'id) res \<times> 'g \<times> 'ty list) option) \<Rightarrow> 'g \<Rightarrow> ('id res \<times> 'g \<times> 'ty list) option" where
  "snowflake_generator_next_id try_next_id g =
     (case try_next_id g of
        None \<Rightarrow> None
      | Some (r, g, waits) \<Rightarrow> Some (unwrap_infallible r, g, waits))"

definition snowflake_generator_poll_id ::
  "('g \<Rightarrow> ('e + ('id, 'ty) poll) res \<times> 'g) \<Rightarrow> 'g \<Rightarrow> ('id, 'ty) poll res \<times> 'g" where
  "snowflake_generator_poll_id try_poll_id g =
     (let (r, g) = try_poll_id g in (unwrap_infallible r, g))"

definition ulid_generator_next_id ::
  "('g \<Rightarrow> (('e + 'id) res \<times> 'g \<times> 'ty list) option) \<Rightarrow> 'g \<Rightarrow> ('id res \<times> 'g \<times> 'ty list) option" where
  "ulid_generator_next_id try_next_id g =
     (case try_next_id g of
        None \<Rightarrow> None
      | Some (r, g, waits) \<Rightarrow> Some (unwrap_infallible r, g, waits))"

definition ulid_generator_poll_id ::
  "('g \<Rightarrow> ('e + ('id, 'ty) poll) res \<times> 'g) \<Rightarrow> 'g \<Rightarrow> ('id, 'ty) poll res \<times> 'g" where
  "ulid_generator_poll_id try_poll_id g =
     (let (r, g) = try_poll_id g in (unwrap_infallible r, g))"

subsection \<open>Fallible methods of the infallible generators\<close>

text \<open>\<open>Ok(self.next_id(f))\<close>.\<close>

definition ok_next ::
  "('id res \<times> 'g \<times> 'ty list) option \<Rightarrow> ((gen_error + 'id) res \<times> 'g \<times> 'ty list) option" where
  "ok_next r = map_option (\<lambda>(x, g, waits). (map_ok Inr x, g, waits)) r"

definition basic_snow_try_next_id ::
  "('t \<Rightarrow> 'a::len word \<times> 't) \<Rightarrow> build \<Rightarrow> snowflake_layout \<Rightarrow> ('a word snowflake, 't) basic_snow_gen \<Rightarrow>
     ((gen_error + 'a word snowflake) res \<times> ('a word snowflake, 't) basic_snow_gen \<times> 'a word list) option"
  where
  "basic_snow_try_next_id current_millis b L g = ok_next (basic_snow_next_id current_millis b L g)"

definition atomic_snow_try_next_id ::
  "('t \<Rightarrow> u64 \<times> 't) \<Rightarrow> build \<Rightarrow> snowflake_layout \<Rightarrow> (u64, 't) atomic_snow_gen \<Rightarrow>
     ((gen_error + u64 snowflake) res \<times> (u64, 't) atomic_snow_gen \<times> u64 list) option" where
  "atomic_snow_try_next_id current_millis b L g = ok_next (atomic_snow_next_id current_millis b L g)"

definition basic_ulid_try_next_id ::
  "('t \<Rightarrow> 'a::len word \<times> 't) \<Rightarrow> ('r \<Rightarrow> 'a word \<times> 'r) \<Rightarrow> build \<Rightarrow> ulid_layout \<Rightarrow> ('t, 'r) basic_ulid_gen \<Rightarrow>
     ((gen_error + 'a word ulid) res \<times> ('t, 'r) basic_ulid_gen \<times> 'a word list) option" where
  "basic_ulid_try_next_id current_millis rand b L g =
     ok_next (basic_ulid_next_id current_millis rand b L g)"

definition basic_ulid_try_poll_id ::
  "('t \<Rightarrow> 'a::len word \<times> 't) \<Rightarrow> ('r \<Rightarrow> 'a word \<times> 'r) \<Rightarrow> build \<Rightarrow> ulid_layout \<Rightarrow> ('t, 'r) basic_ulid_gen \<Rightarrow>
     (gen_error + ('a word ulid, 'a word) poll) res \<times> ('t, 'r) basic_ulid_gen" where
  "basic_ulid_try_poll_id current_millis rand b L g =
     ok_poll (basic_ulid_poll_id current_millis rand b L g)"

definition basic_mono_try_next_id ::
  "('t \<Rightarrow> 'a::len word \<times> 't) \<Rightarrow> ('r \<Rightarrow> 'a word \<times> 'r) \<Rightarrow> build \<Rightarrow> ulid_layout \<Rightarrow>
     ('a word ulid, 't, 'r) basic_mono_gen \<Rightarrow>
     ((gen_error + 'a word ulid) res \<times> ('a word ulid, 't, 'r) basic_mono_gen \<times> 'a word list) option" where
  "basic_mono_try_next_id current_millis rand b L g =
     ok_next (basic_mono_next_id current_millis rand b L g)"

definition atomic_mono_try_next_id ::
  "('t \<Rightarrow> u128 \<times> 't) \<Rightarrow> ('r \<Rightarrow> u128 \<times> 'r) \<Rightarrow> build \<Rightarrow> ulid_layout \<Rightarrow> (u128, 't, 'r) atomic_mono_gen \<Rightarrow>
     ((gen_error + u128 ulid) res \<times> (u128, 't, 'r) atomic_mono_gen \<times> u128 list) option" where
  "atomic_mono_try_next_id current_millis rand b L g =
     ok_next (atomic_mono_next_id current_millis rand b L g)"

subsection \<open>The defaults agree with the inherent methods\<close>

lemma unwrap_ok [simp]: "unwrap_infallible (map_ok Inr r) = r"
  by (cases r) (simp_all add: unwrap_infallible_def)

lemma defaults_of_ok:
  "snowflake_generator_poll_id (\<lambda>g. ok_poll (poll_id g)) = poll_id"
  "ulid_generator_poll_id (\<lambda>g. ok_poll (poll_id g)) = poll_id"
  "snowflake_generator_next_id (\<lambda>g. ok_next (next_id g)) = next_id"
  "ulid_generator_next_id (\<lambda>g. ok_next (next_id g)) = next_id"
  by (auto simp: snowflake_generator_poll_id_def ulid_generator_poll_id_def ok_poll_def
      snowflake_generator_next_id_def ulid_generator_next_id_def ok_next_def case_prod_beta
      option.map_comp split: option.split)

text \<open>Whether a client calls a generator's own methods or those of the trait makes no difference:
  for every generator that cannot fail, the default \<open>next_id\<close> and \<open>poll_id\<close> of the traits, built
  from the fallible methods, are the generator's own, panics and waits included, and never reach
  the branch of the uninhabited error.\<close>

lemma trait_methods_agree:
  "snowflake_generator_poll_id (basic_snow_try_poll_id cm b L) = basic_snow_poll_id cm b L \<and>
   snowflake_generator_next_id (basic_snow_try_next_id cm b L) = basic_snow_next_id cm b L \<and>
   snowflake_generator_poll_id (atomic_snow_try_poll_id ca b L) = atomic_snow_poll_id ca b L \<and>
   snowflake_generator_next_id (atomic_snow_try_next_id ca b L) = atomic_snow_next_id ca b L \<and>
   ulid_generator_poll_id (basic_ulid_try_poll_id cu rand b U) = basic_ulid_poll_id cu rand b U \<and>
   ulid_generator_next_id (basic_ulid_try_next_id cu rand b U) = basic_ulid_next_id cu rand b U \<and>
   ulid_generator_poll_id (basic_mono_try_poll_id cu rand b U) = basic_mono_poll_id cu rand b U \<and>
   ulid_generator_next_id (basic_mono_try_next_id cu rand b U) = basic_mono_next_id cu rand b U \<and>
   ulid_generator_poll_id (atomic_mono_try_poll_id ct rng b U) = atomic_mono_poll_id ct rng b U \<and>
   ulid_generator_next_id (atomic_mono_try_next_id ct rng b U) = atomic_mono_next_id ct rng b U"
  unfolding basic_snow_try_poll_id_def atomic_snow_try_poll_id_def basic_snow_try_next_id_def
    atomic_snow_try_next_id_def basic_ulid_try_poll_id_def basic_ulid_try_next_id_def
    basic_mono_try_poll_id_def basic_mono_try_next_id_def atomic_mono_try_poll_id_def
    atomic_mono_try_next_id_def
  by (simp add: defaults_of_ok)

end
