(* ===== verification/Clock.thy ===== *)
theory Clock
  imports Generator_Interface
begin

text \<open>
  The clock of \<^verbatim>\<open>crates/ferroid/src/time/mono_clock.rs\<close> and the epochs of
  \<^verbatim>\<open>time/interface.rs\<close>: a background thread stores the elapsed milliseconds in a
  shared atomic about once per millisecond, and every clock adds its epoch offset to the
  stored value and divides by its granularity.

  The instants the ticker observes (nanoseconds since its start) are inputs of the model:
  \<open>now\<close> before the sleep and \<open>woken\<close> after it. What the ticker relies on is
  documented behaviour of the standard library: \<open>Instant\<close> never goes backwards and
  \<open>thread::sleep\<close> sleeps at least as long as asked.

  What a reader of the shared value can rely on is the locale \<open>lagging_clock\<close>: the value never
  goes back, never runs ahead and is late by a bounded time. It is derived for every history of the
  ticker (locale \<open>ticker_history\<close>), with the longest time between two wakings as its bound.
\<close>

subsection \<open>Epochs\<close>

definition UNIX_EPOCH :: nat where
  "UNIX_EPOCH = 0"

definition TWITTER_EPOCH :: nat where
  "TWITTER_EPOCH = 1288834974657"

definition DISCORD_EPOCH :: nat where
  "DISCORD_EPOCH = 1420070400000"

definition INSTAGRAM_EPOCH :: nat where
  "INSTAGRAM_EPOCH = 1293840000000"

definition MASTODON_EPOCH :: nat where
  "MASTODON_EPOCH = UNIX_EPOCH"

subsection \<open>Ticker\<close>

record ticker =
  tk_tick :: u64
  tk_current :: u64
  tk_base_system_now :: u64

text \<open>\<open>system_now\<close> is the system time in nanoseconds since the Unix epoch, negative before it.\<close>

definition ticker_start :: "int \<Rightarrow> ticker" where
  "ticker_start system_now =
     \<lparr>tk_tick = 0, tk_current = 0,
      tk_base_system_now = word_of_nat (nat (max 0 system_now) div 1000000)\<rparr>"

text \<open>The sleep an iteration asks for, given the instant it observes first.\<close>

definition ticker_sleep :: "ticker \<Rightarrow> nat \<Rightarrow> nat option" where
  "ticker_sleep tk now =
     (let target = unat (tk_tick tk) * 1000000
      in if now < target then Some (target - now) else None)"

text \<open>The rest of the iteration, with the instant observed after waking.\<close>

definition ticker_store :: "build \<Rightarrow> nat \<Rightarrow> ticker \<Rightarrow> ticker res" where
  "ticker_store b woken tk =
     (let now_ms = word_of_nat (woken div 1000000) :: u64
      in map_ok (\<lambda>tick. tk\<lparr>tk_current := now_ms, tk_tick := tick\<rparr>) (rust_add b now_ms 1))"

fun ticker_run :: "build \<Rightarrow> (nat \<times> nat) list \<Rightarrow> ticker \<Rightarrow> u64 list res" where
  "ticker_run b [] tk = Inr []"
| "ticker_run b ((now, woken) # obs) tk =
     and_then (ticker_store b woken tk) (\<lambda>tk'.
       map_ok (\<lambda>vs. tk_current tk' # vs) (ticker_run b obs tk'))"

text \<open>
  Observations the standard library allows: instants do not decrease and a sleep lasts at
  least as long as the iteration asked for.
\<close>

fun observations_ok :: "build \<Rightarrow> nat \<Rightarrow> (nat \<times> nat) list \<Rightarrow> ticker \<Rightarrow> bool" where
  "observations_ok b earliest [] tk \<longleftrightarrow> True"
| "observations_ok b earliest ((now, woken) # obs) tk \<longleftrightarrow>
     earliest \<le> now \<and> now \<le> woken \<and>
     (case ticker_sleep tk now of None \<Rightarrow> True | Some d \<Rightarrow> now + d \<le> woken) \<and>
     (case ticker_store b woken tk of Inl _ \<Rightarrow> True | Inr tk' \<Rightarrow> observations_ok b woken obs tk')"

text \<open>The value of \<open>current\<close> at a given instant: what the last iteration before it has stored. An
  iteration that panics ends the thread, and the value stays.\<close>

fun current_at :: "build \<Rightarrow> (nat \<times> nat) list \<Rightarrow> ticker \<Rightarrow> nat \<Rightarrow> u64" where
  "current_at b [] tk t = tk_current tk"
| "current_at b ((now, woken) # obs) tk t =
     (if t < woken then tk_current tk
      else case ticker_store b woken tk of Inl _ \<Rightarrow> tk_current tk | Inr tk' \<Rightarrow> current_at b obs tk' t)"

text \<open>How long the thread is off at most: the longest time \<open>gap\<close> between two wakings.\<close>

fun wakes_within :: "nat \<Rightarrow> nat \<Rightarrow> (nat \<times> nat) list \<Rightarrow> bool" where
  "wakes_within gap earlier [] \<longleftrightarrow> True"
| "wakes_within gap earlier ((now, woken) # obs) \<longleftrightarrow>
     woken \<le> earlier + gap \<and> wakes_within gap woken obs"

subsection \<open>Clock\<close>

record mono_clock =
  epoch_offset :: u64

text \<open>\<open>ASSERT_VALID_GRANULARITY\<close>: a granularity of zero does not compile.\<close>

definition valid_granularity :: "u64 \<Rightarrow> bool" where
  "valid_granularity N \<longleftrightarrow> N > 0"

definition with_epoch :: "ticker \<Rightarrow> nat \<Rightarrow> mono_clock" where
  "with_epoch tk epoch =
     \<lparr>epoch_offset = saturating_sub (tk_base_system_now tk) (word_of_nat epoch)\<rparr>"

definition clock_default :: "ticker \<Rightarrow> mono_clock" where
  "clock_default tk = with_epoch tk UNIX_EPOCH"

definition current_millis_u64 :: "build \<Rightarrow> u64 \<Rightarrow> mono_clock \<Rightarrow> u64 \<Rightarrow> u64 res" where
  "current_millis_u64 b N clock current =
     map_ok (\<lambda>ms. ms div N) (rust_add b (epoch_offset clock) current)"

definition current_millis_u128 :: "build \<Rightarrow> u64 \<Rightarrow> mono_clock \<Rightarrow> u64 \<Rightarrow> u128 res" where
  "current_millis_u128 b N clock current = map_ok ucast (current_millis_u64 b N clock current)"

subsection \<open>Lemmas\<close>

lemma ticker_store_value:
  assumes "ticker_store b woken tk = Inr tk'" and "woken div 1000000 < 2 ^ 64 - 1"
  shows "unat (tk_current tk') = woken div 1000000"
    and "unat (tk_tick tk') = Suc (woken div 1000000)"
proof -
  let ?ms = "word_of_nat (woken div 1000000) :: u64"
  have ms: "unat ?ms = woken div 1000000" using assms(2) by (simp add: unat_of_nat)
  with assms(2) have "rust_add b ?ms 1 = Inr (?ms + 1)" and "unat (?ms + 1) = Suc (unat ?ms)"
    by (simp_all add: rust_add_no_overflow unat_word_ariths)
  with assms(1) ms show "unat (tk_current tk') = woken div 1000000"
    and "unat (tk_tick tk') = Suc (woken div 1000000)"
    by (auto simp: ticker_store_def Let_def)
qed

lemma ticker_store_ok:
  assumes "woken div 1000000 < 2 ^ 64 - 1"
  obtains tk' where "ticker_store b woken tk = Inr tk'"
proof -
  have "unat (word_of_nat (woken div 1000000) :: u64) = woken div 1000000"
    using assms by (simp add: unat_of_nat)
  with assms that show thesis
    by (simp add: ticker_store_def rust_add_no_overflow Let_def)
qed

text \<open>An observation after the target of the tick stores at least the tick.\<close>

lemma ticker_reaches_tick:
  assumes "now \<le> woken" and "case ticker_sleep tk now of None \<Rightarrow> True | Some d \<Rightarrow> now + d \<le> woken"
  shows "unat (tk_tick tk) \<le> woken div 1000000"
proof -
  have "unat (tk_tick tk) * 1000000 \<le> woken"
    using assms by (auto simp: ticker_sleep_def Let_def split: if_splits)
  then show ?thesis by (simp add: less_eq_div_iff_mult_less_eq)
qed

lemma ticker_run_increasing:
  assumes "\<forall>(now, woken) \<in> set obs. woken div 1000000 < 2 ^ 64 - 1"
    and "observations_ok b e obs tk"
  shows "\<exists>vs. ticker_run b obs tk = Inr vs \<and> sorted_wrt (<) vs \<and>
    (\<forall>v \<in> set vs. tk_tick tk \<le> v) \<and> map unat vs = map (\<lambda>(now, woken). woken div 1000000) obs"
  using assms
proof (induction obs arbitrary: tk e)
  case (Cons ob obs)
  obtain now woken where ob: "ob = (now, woken)" by (cases ob)
  have small: "woken div 1000000 < 2 ^ 64 - 1" using Cons.prems(1) ob by simp
  obtain tk' where tk': "ticker_store b woken tk = Inr tk'" by (rule ticker_store_ok [OF small])
  note stored = ticker_store_value [OF tk' small]
  have "unat (tk_tick tk) \<le> woken div 1000000"
    using Cons.prems(2) by (intro ticker_reaches_tick) (auto simp: ob)
  then have first: "tk_tick tk \<le> tk_current tk'" using stored by (simp add: word_le_nat_alt)
  have less: "tk_current tk' < tk_tick tk'" using stored by (simp add: word_less_nat_alt)
  have "observations_ok b woken obs tk'" using Cons.prems(2) tk' by (simp add: ob)
  then obtain vs where vs: "ticker_run b obs tk' = Inr vs" "sorted_wrt (<) vs"
    "\<forall>v \<in> set vs. tk_tick tk' \<le> v" "map unat vs = map (\<lambda>(now, woken). woken div 1000000) obs"
    using Cons.IH Cons.prems(1) by fastforce
  from vs(3) less have "\<forall>v \<in> set vs. tk_current tk' < v" by (auto intro: less_le_trans)
  with vs tk' first stored show ?case
    by (auto simp: ob intro: order_trans [OF first] less_imp_le)
qed simp

lemma current_millis_value:
  assumes "unat (epoch_offset c) + unat current < 2 ^ 64"
  shows "current_millis_u64 b N c current = Inr ((epoch_offset c + current) div N)"
    and "unat ((epoch_offset c + current) div N) = (unat (epoch_offset c) + unat current) div unat N"
  using assms
  by (simp_all add: current_millis_u64_def rust_add_no_overflow unat_div_distrib unat_word_ariths)

lemma with_epoch_offset:
  assumes "epoch < 2 ^ 64"
  shows "unat (epoch_offset (with_epoch tk epoch)) = unat (tk_base_system_now tk) - epoch"
  using assms
  by (auto simp: with_epoch_def saturating_sub_def word_less_nat_alt unat_of_nat unat_sub_if')

subsection \<open>A clock that lags\<close>

text \<open>
  What a reader of the shared value can rely on, with instants in nanoseconds and the value in
  milliseconds: it never decreases, never runs ahead, and up to a horizon it is late by at most
  \<open>lag\<close>. Then a value is reached at the latest when its own time and the lag have passed.
\<close>

locale lagging_clock =
  fixes stored :: "nat \<Rightarrow> u64" and lag horizon :: nat
  assumes stored_mono: "t \<le> t' \<Longrightarrow> stored t \<le> stored t'"
    and stored_behind: "unat (stored t) * 1000000 \<le> t"
    and stored_lag: "t \<le> horizon \<Longrightarrow> t \<le> unat (stored t) * 1000000 + lag"
begin

lemma stored_reaches:
  assumes "m * 1000000 + lag \<le> t" and "m * 1000000 + lag \<le> horizon"
  shows "m \<le> unat (stored t)"
proof -
  have "m * 1000000 + lag \<le> unat (stored (min t horizon)) * 1000000 + lag"
    using stored_lag [of "min t horizon"] assms by simp
  then have "m \<le> unat (stored (min t horizon))" by simp
  also have "\<dots> \<le> unat (stored t)" using stored_mono [of "min t horizon" t] by (simp add: word_le_nat_alt)
  finally show ?thesis .
qed

end

text \<open>A history of the ticker: the observations of its iterations, and a view that takes the instant of
  a load to the instant whose value it sees, at most \<open>delay\<close> earlier.\<close>

locale ticker_history =
  fixes b :: build and obs :: "(nat \<times> nat) list" and system_now :: int and gap delay :: nat
    and view :: "nat \<Rightarrow> nat"
  assumes obs_fit: "\<forall>(now, woken) \<in> set obs. woken div 1000000 < 2 ^ 64 - 1"
    and obs_ok: "observations_ok b 0 obs (ticker_start system_now)"
    and obs_gap: "wakes_within gap 0 obs"
    and view_mono: "t \<le> t' \<Longrightarrow> view t \<le> view t'"
    and view_late: "view t \<le> t" "t \<le> view t + delay"

text \<open>One iteration: the value it stores is the time of its waking, rounded down.\<close>

definition rounds_down :: "u64 \<Rightarrow> nat \<Rightarrow> bool" where
  "rounds_down v e \<longleftrightarrow> unat v * 1000000 \<le> e \<and> e < unat v * 1000000 + 1000000"

lemma ticker_iteration:
  assumes "\<forall>(now, woken) \<in> set ((now, woken) # obs). woken div 1000000 < 2 ^ 64 - 1"
    and "observations_ok b e ((now, woken) # obs) tk" and "rounds_down (tk_current tk) e"
  obtains tk' where "ticker_store b woken tk = Inr tk'" "observations_ok b woken obs tk'"
    "rounds_down (tk_current tk') woken" "tk_current tk \<le> tk_current tk'" "e \<le> woken"
    "\<forall>(now, woken) \<in> set obs. woken div 1000000 < 2 ^ 64 - 1"
proof -
  have small: "woken div 1000000 < 2 ^ 64 - 1" using assms(1) by simp
  obtain tk' where tk': "ticker_store b woken tk = Inr tk'" by (rule ticker_store_ok [OF small])
  have cur: "unat (tk_current tk') = woken div 1000000" by (rule ticker_store_value [OF tk' small])
  have e: "e \<le> woken" using assms(2) by simp
  have "tk_current tk \<le> tk_current tk'"
    using assms(3) e by (simp add: rounds_down_def word_le_nat_alt cur less_eq_div_iff_mult_less_eq)
  moreover have "rounds_down (tk_current tk') woken"
    using dividend_less_div_times [of 1000000 woken] by (simp add: rounds_down_def cur)
  ultimately show thesis using that [OF tk'] assms(1,2) tk' e by simp
qed

lemma current_at_grows:
  assumes "\<forall>(now, woken) \<in> set obs. woken div 1000000 < 2 ^ 64 - 1" and "observations_ok b e obs tk"
    and "rounds_down (tk_current tk) e"
  shows "tk_current tk \<le> current_at b obs tk t"
  using assms
proof (induction obs arbitrary: tk e)
  case (Cons ob obs)
  obtain now woken where ob: "ob = (now, woken)" by (cases ob)
  obtain tk' where tk': "ticker_store b woken tk = Inr tk'" "observations_ok b woken obs tk'"
    "rounds_down (tk_current tk') woken" "tk_current tk \<le> tk_current tk'"
    "\<forall>(now, woken) \<in> set obs. woken div 1000000 < 2 ^ 64 - 1"
    by (rule ticker_iteration [OF Cons.prems [unfolded ob]])
  from order_trans [OF tk'(4) Cons.IH [OF tk'(5,2,3)]] tk'(1) show ?case by (simp add: ob)
qed simp

lemma current_at_mono:
  assumes "\<forall>(now, woken) \<in> set obs. woken div 1000000 < 2 ^ 64 - 1" and "observations_ok b e obs tk"
    and "rounds_down (tk_current tk) e" and "t \<le> t'"
  shows "current_at b obs tk t \<le> current_at b obs tk t'"
  using assms
proof (induction obs arbitrary: tk e)
  case (Cons ob obs)
  obtain now woken where ob: "ob = (now, woken)" by (cases ob)
  obtain tk' where tk': "ticker_store b woken tk = Inr tk'" "observations_ok b woken obs tk'"
    "rounds_down (tk_current tk') woken" "\<forall>(now, woken) \<in> set obs. woken div 1000000 < 2 ^ 64 - 1"
    by (rule ticker_iteration [OF Cons.prems(1-3) [unfolded ob]])
  show ?case
  proof (cases "t < woken")
    case True
    then show ?thesis
      using current_at_grows [OF Cons.prems(1-3), of t'] by (simp add: ob)
  next
    case False
    with Cons.IH [OF tk'(4,2,3)] Cons.prems(4) tk'(1) show ?thesis by (simp add: ob)
  qed
qed simp

lemma current_at_behind:
  assumes "\<forall>(now, woken) \<in> set obs. woken div 1000000 < 2 ^ 64 - 1" and "observations_ok b e obs tk"
    and "rounds_down (tk_current tk) e" and "e \<le> t"
  shows "unat (current_at b obs tk t) * 1000000 \<le> t"
  using assms
proof (induction obs arbitrary: tk e)
  case (Cons ob obs)
  obtain now woken where ob: "ob = (now, woken)" by (cases ob)
  obtain tk' where tk': "ticker_store b woken tk = Inr tk'" "observations_ok b woken obs tk'"
    "rounds_down (tk_current tk') woken" "\<forall>(now, woken) \<in> set obs. woken div 1000000 < 2 ^ 64 - 1"
    by (rule ticker_iteration [OF Cons.prems(1-3) [unfolded ob]])
  from Cons.IH [OF tk'(4,2,3)] Cons.prems(3,4) tk'(1) show ?case by (simp add: ob rounds_down_def)
qed (simp add: rounds_down_def)

lemma current_at_lag:
  assumes "\<forall>(now, woken) \<in> set obs. woken div 1000000 < 2 ^ 64 - 1" and "observations_ok b e obs tk"
    and "rounds_down (tk_current tk) e" and "wakes_within gap e obs" and "t \<le> last (e # map snd obs)"
  shows "t \<le> unat (current_at b obs tk t) * 1000000 + (gap + 1000000)"
  using assms
proof (induction obs arbitrary: tk e)
  case (Cons ob obs)
  obtain now woken where ob: "ob = (now, woken)" by (cases ob)
  obtain tk' where tk': "ticker_store b woken tk = Inr tk'" "observations_ok b woken obs tk'"
    "rounds_down (tk_current tk') woken" "\<forall>(now, woken) \<in> set obs. woken div 1000000 < 2 ^ 64 - 1"
    by (rule ticker_iteration [OF Cons.prems(1-3) [unfolded ob]])
  show ?case
  proof (cases "t < woken")
    case True
    with Cons.prems(3,4) show ?thesis by (simp add: ob rounds_down_def)
  next
    case False
    with Cons.IH [OF tk'(4,2,3)] Cons.prems(4,5) tk'(1) show ?thesis by (simp add: ob)
  qed
qed (simp add: rounds_down_def)

lemma ticker_start_rounds: "rounds_down (tk_current (ticker_start system_now)) 0"
  by (simp add: rounds_down_def ticker_start_def)

sublocale ticker_history \<subseteq> clock: lagging_clock
  "\<lambda>t. current_at b obs (ticker_start system_now) (view t)" "gap + delay + 1000000"
  "last (0 # map snd obs)"
proof unfold_locales
  note facts = obs_fit obs_ok ticker_start_rounds
  fix t t' :: nat
  show "current_at b obs (ticker_start system_now) (view t) \<le> current_at b obs (ticker_start system_now) (view t')"
    if "t \<le> t'"
    by (rule current_at_mono [OF facts view_mono [OF that]])
  show "unat (current_at b obs (ticker_start system_now) (view t)) * 1000000 \<le> t"
    using current_at_behind [OF facts, of "view t"] view_late(1) [of t] by simp
  show "t \<le> unat (current_at b obs (ticker_start system_now) (view t)) * 1000000 + (gap + delay + 1000000)"
    if "t \<le> last (0 # map snd obs)"
    using current_at_lag [OF facts obs_gap, of "view t"] view_late [of t] that by simp
qed

context ticker_history
begin

lemma lags:
  "lagging_clock (\<lambda>t. current_at b obs (ticker_start system_now) (view t)) (gap + delay + 1000000)
    (last (0 # map snd obs))"
  by (rule clock.lagging_clock_axioms)

end

text \<open>A ticker that wakes five times and then is off for ever, read with a delay of 50 ns.\<close>

interpretation short_history: ticker_history Debug
  "[(5, 9), (20, 1000000), (1500000, 2000001), (2000100, 3000000), (3000100, 4000000)]" 0 1000001 50 "\<lambda>t. t - 50"
  by unfold_locales
    (simp_all add: ticker_start_def ticker_sleep_def ticker_store_def rust_add_def Let_def)

subsection \<open>Properties\<close>

text \<open>C34: the ticker thread, from its start and for any observations that respect the guarantees of
  \<open>Instant\<close> and \<open>thread::sleep\<close>, never panics before the 64-bit millisecond limit and
  stores strictly increasing values, each the elapsed milliseconds at the moment of the store.\<close>

theorem ticker_stores_increase:
  assumes "\<forall>(now, woken) \<in> set obs. woken div 1000000 < 2 ^ 64 - 1"
    and "observations_ok b 0 obs (ticker_start system_now)"
  shows "\<exists>vs. ticker_run b obs (ticker_start system_now) = Inr vs \<and> sorted_wrt (<) vs \<and>
    map unat vs = map (\<lambda>(now, woken). woken div 1000000) obs"
  using ticker_run_increasing [OF assms] by blast

theorem ticker_stores_increase_witness:
  "\<exists>vs. ticker_run Debug [(5, 9), (20, 1000000), (1500000, 2000001)] (ticker_start 0) = Inr vs \<and>
    sorted_wrt (<) vs \<and> map unat vs = [0, 1, 2]"
proof -
  have "observations_ok Debug 0 [(5, 9), (20, 1000000), (1500000, 2000001)] (ticker_start 0)"
    by (simp add: ticker_start_def ticker_sleep_def ticker_store_def rust_add_def Let_def)
  then show ?thesis
    using ticker_stores_increase [of "[(5, 9), (20, 1000000), (1500000, 2000001)]" Debug 0] by simp
qed

text \<open>A clock with epoch \<open>E\<close> and granularity \<open>N\<close> reads
  \<open>(base + stored - E) div N\<close> as long as the sum fits 64 bits, zero-based when the epoch lies
  in the future of the system clock, in both builds and both widths; its readings never decrease
  while the stored values do not.\<close>

lemma clock_reads_elapsed_units:
  assumes "valid_granularity N" and "epoch < 2 ^ 64"
    and "unat (tk_base_system_now tk) - epoch + unat current' < 2 ^ 64" and "current \<le> current'"
  shows "\<exists>r r'. current_millis_u64 b N (with_epoch tk epoch) current = Inr r \<and>
    current_millis_u64 b N (with_epoch tk epoch) current' = Inr r' \<and> r \<le> r' \<and>
    unat r = (unat (tk_base_system_now tk) - epoch + unat current) div unat N \<and>
    current_millis_u128 b N (with_epoch tk epoch) current = Inr (ucast r) \<and>
    unat (ucast r :: u128) = unat r"
proof -
  let ?c = "with_epoch tk epoch"
  have off: "unat (epoch_offset ?c) = unat (tk_base_system_now tk) - epoch"
    by (rule with_epoch_offset [OF assms(2)])
  have le: "unat current \<le> unat current'" using assms(4) by (simp add: word_le_nat_alt)
  have c: "unat (epoch_offset ?c) + unat current < 2 ^ 64"
    and c': "unat (epoch_offset ?c) + unat current' < 2 ^ 64"
    using assms(3) le by (simp_all add: off)
  have wide: "unat (ucast r :: u128) = unat r" for r :: u64
  proof -
    have "unat r < 2 ^ LENGTH(64)" by (rule unsigned_less)
    then have "unat r < 2 ^ 128" by simp
    then show ?thesis by (simp add: unsigned_ucast_eq take_bit_nat_eq_self)
  qed
  show ?thesis
    using current_millis_value(1) [OF c, of b N] current_millis_value(1) [OF c', of b N]
      current_millis_value(2) [OF c, of N] current_millis_value(2) [OF c', of N] le wide
    by (simp add: off word_le_nat_alt div_le_mono current_millis_u128_def)
qed

lemma clock_reads_elapsed_units_witness:
  "\<exists>r r'. current_millis_u64 Debug 8 (with_epoch (ticker_start 2000000000000000000) TWITTER_EPOCH) 100 = Inr r \<and>
    current_millis_u64 Debug 8 (with_epoch (ticker_start 2000000000000000000) TWITTER_EPOCH) 900 = Inr r' \<and>
    r \<le> r' \<and> unat r = (2000000000000 - 1288834974657 + 100) div 8"
proof -
  have "unat (tk_base_system_now (ticker_start 2000000000000000000)) = 2000000000000"
    by (simp add: ticker_start_def)
  then show ?thesis
    using clock_reads_elapsed_units [of 8 TWITTER_EPOCH "ticker_start 2000000000000000000" 900 100 Debug]
    by (auto simp: valid_granularity_def TWITTER_EPOCH_def)
qed

end
