(* ===== verification/Async_Ext.thy ===== *)
theory Async_Ext
  imports Snowflake_Generators Ulid_Generators Clock
begin

text \<open>
  The asynchronous front ends of \<^verbatim>\<open>crates/ferroid/src/futures/\<close>. The future of
  \<open>try_next_id_async\<close> polls the generator, turns a wait in time-source units into
  milliseconds with saturation, awaits a sleep of that length and tries again; the runtime
  wrappers of \<^verbatim>\<open>futures/runtime\<close> only choose the sleep provider. A sleep provider is a
  parameter \<open>sleep_for\<close> that maps the requested milliseconds and the generator to the
  generator after the sleep (time has passed, other tasks may have run); the loop returns the
  sleeps it asked for.

  On the monotonic clock, whose readings lag behind the time a sleep takes, an uncontended call is
  shown to return, with a bound on the number of its sleeps (locale \<open>sleeping_generator\<close>).
\<close>

definition sleep_millis :: "('ty \<Rightarrow> u64) \<Rightarrow> u64 \<Rightarrow> 'ty \<Rightarrow> u64" where
  "sleep_millis to_u64 granularity yield_for = saturating_mul (to_u64 yield_for) granularity"

partial_function (option) async_loop ::
  "('ty \<Rightarrow> u64) \<Rightarrow> u64 \<Rightarrow> (u64 \<Rightarrow> 'g \<Rightarrow> 'g) \<Rightarrow> ('g \<Rightarrow> ('e + ('id, 'ty) poll) res \<times> 'g) \<Rightarrow>
     'g \<Rightarrow> u64 list \<Rightarrow> (('e + 'id) res \<times> 'g \<times> u64 list) option" where
  "async_loop to_u64 granularity sleep_for try_poll_id g sleeps =
     (case try_poll_id g of
        (Inl panic, g') \<Rightarrow> Some (Inl panic, g', sleeps)
      | (Inr (Inl e), g') \<Rightarrow> Some (Inr (Inl e), g', sleeps)
      | (Inr (Inr (Ready x)), g') \<Rightarrow> Some (Inr (Inr x), g', sleeps)
      | (Inr (Inr (Pending yield_for)), g') \<Rightarrow>
          (let dur = sleep_millis to_u64 granularity yield_for
           in async_loop to_u64 granularity sleep_for try_poll_id (sleep_for dur g')
                (sleeps @ [dur])))"

definition snow_try_next_id_async ::
  "('a::len word \<Rightarrow> u64) \<Rightarrow> u64 \<Rightarrow> (u64 \<Rightarrow> 'g \<Rightarrow> 'g) \<Rightarrow>
     ('g \<Rightarrow> (gen_error + ('a word snowflake, 'a word) poll) res \<times> 'g) \<Rightarrow> 'g \<Rightarrow>
     ((gen_error + 'a word snowflake) res \<times> 'g \<times> u64 list) option" where
  "snow_try_next_id_async to_u64 granularity sleep_for try_poll_id g =
     async_loop to_u64 granularity sleep_for try_poll_id g []"

definition snow_next_id_async ::
  "('a::len word \<Rightarrow> u64) \<Rightarrow> u64 \<Rightarrow> (u64 \<Rightarrow> 'g \<Rightarrow> 'g) \<Rightarrow>
     ('g \<Rightarrow> (gen_error + ('a word snowflake, 'a word) poll) res \<times> 'g) \<Rightarrow> 'g \<Rightarrow>
     ('a word snowflake res \<times> 'g \<times> u64 list) option" where
  "snow_next_id_async to_u64 granularity sleep_for try_poll_id g =
     (case snow_try_next_id_async to_u64 granularity sleep_for try_poll_id g of
        None \<Rightarrow> None
      | Some (Inl panic, r) \<Rightarrow> Some (Inl panic, r)
      | Some (Inr (Inl e), r) \<Rightarrow> Some (Inl (Undefined ''value of an empty type''), r)
      | Some (Inr (Inr x), r) \<Rightarrow> Some (Inr x, r))"

definition ulid_try_next_id_async ::
  "('a::len word \<Rightarrow> u64) \<Rightarrow> u64 \<Rightarrow> (u64 \<Rightarrow> 'g \<Rightarrow> 'g) \<Rightarrow>
     ('g \<Rightarrow> (gen_error + ('a word ulid, 'a word) poll) res \<times> 'g) \<Rightarrow> 'g \<Rightarrow>
     ((gen_error + 'a word ulid) res \<times> 'g \<times> u64 list) option" where
  "ulid_try_next_id_async to_u64 granularity sleep_for try_poll_id g =
     async_loop to_u64 granularity sleep_for try_poll_id g []"

definition ulid_next_id_async ::
  "('a::len word \<Rightarrow> u64) \<Rightarrow> u64 \<Rightarrow> (u64 \<Rightarrow> 'g \<Rightarrow> 'g) \<Rightarrow>
     ('g \<Rightarrow> (gen_error + ('a word ulid, 'a word) poll) res \<times> 'g) \<Rightarrow> 'g \<Rightarrow>
     ('a word ulid res \<times> 'g \<times> u64 list) option" where
  "ulid_next_id_async to_u64 granularity sleep_for try_poll_id g =
     (case ulid_try_next_id_async to_u64 granularity sleep_for try_poll_id g of
        None \<Rightarrow> None
      | Some (Inl panic, r) \<Rightarrow> Some (Inl panic, r)
      | Some (Inr (Inl e), r) \<Rightarrow> Some (Inl (Undefined ''value of an empty type''), r)
      | Some (Inr (Inr x), r) \<Rightarrow> Some (Inr x, r))"

subsection \<open>Runtimes\<close>

text \<open>
  The sleep providers of the two runtimes: a timer, or a yield to the scheduler that ignores the
  duration. The runtime's own operations are parameters. The extension traits of the runtimes
  choose the timer.
\<close>

definition TokioSleep_sleep_for :: "(u64 \<Rightarrow> 'g \<Rightarrow> 'g) \<Rightarrow> u64 \<Rightarrow> 'g \<Rightarrow> 'g" where
  "TokioSleep_sleep_for timer dur g = timer dur g"

definition TokioYield_sleep_for :: "('g \<Rightarrow> 'g) \<Rightarrow> u64 \<Rightarrow> 'g \<Rightarrow> 'g" where
  "TokioYield_sleep_for yield_now dur g = yield_now g"

definition SmolSleep_sleep_for :: "(u64 \<Rightarrow> 'g \<Rightarrow> 'g) \<Rightarrow> u64 \<Rightarrow> 'g \<Rightarrow> 'g" where
  "SmolSleep_sleep_for timer dur g = timer dur g"

definition SmolYield_sleep_for :: "('g \<Rightarrow> 'g) \<Rightarrow> u64 \<Rightarrow> 'g \<Rightarrow> 'g" where
  "SmolYield_sleep_for yield_now dur g = yield_now g"

definition tokio_snow_try_next_id_async ::
  "(u64 \<Rightarrow> 'g \<Rightarrow> 'g) \<Rightarrow> ('a::len word \<Rightarrow> u64) \<Rightarrow> u64 \<Rightarrow>
     ('g \<Rightarrow> (gen_error + ('a word snowflake, 'a word) poll) res \<times> 'g) \<Rightarrow> 'g \<Rightarrow>
     ((gen_error + 'a word snowflake) res \<times> 'g \<times> u64 list) option" where
  "tokio_snow_try_next_id_async timer to_u64 granularity try_poll_id g =
     snow_try_next_id_async to_u64 granularity (TokioSleep_sleep_for timer) try_poll_id g"

definition tokio_snow_next_id_async ::
  "(u64 \<Rightarrow> 'g \<Rightarrow> 'g) \<Rightarrow> ('a::len word \<Rightarrow> u64) \<Rightarrow> u64 \<Rightarrow>
     ('g \<Rightarrow> (gen_error + ('a word snowflake, 'a word) poll) res \<times> 'g) \<Rightarrow> 'g \<Rightarrow>
     ('a word snowflake res \<times> 'g \<times> u64 list) option" where
  "tokio_snow_next_id_async timer to_u64 granularity try_poll_id g =
     snow_next_id_async to_u64 granularity (TokioSleep_sleep_for timer) try_poll_id g"

definition tokio_ulid_try_next_id_async ::
  "(u64 \<Rightarrow> 'g \<Rightarrow> 'g) \<Rightarrow> ('a::len word \<Rightarrow> u64) \<Rightarrow> u64 \<Rightarrow>
     ('g \<Rightarrow> (gen_error + ('a word ulid, 'a word) poll) res \<times> 'g) \<Rightarrow> 'g \<Rightarrow>
     ((gen_error + 'a word ulid) res \<times> 'g \<times> u64 list) option" where
  "tokio_ulid_try_next_id_async timer to_u64 granularity try_poll_id g =
     ulid_try_next_id_async to_u64 granularity (TokioSleep_sleep_for timer) try_poll_id g"

definition tokio_ulid_next_id_async ::
  "(u64 \<Rightarrow> 'g \<Rightarrow> 'g) \<Rightarrow> ('a::len word \<Rightarrow> u64) \<Rightarrow> u64 \<Rightarrow>
     ('g \<Rightarrow> (gen_error + ('a word ulid, 'a word) poll) res \<times> 'g) \<Rightarrow> 'g \<Rightarrow>
     ('a word ulid res \<times> 'g \<times> u64 list) option" where
  "tokio_ulid_next_id_async timer to_u64 granularity try_poll_id g =
     ulid_next_id_async to_u64 granularity (TokioSleep_sleep_for timer) try_poll_id g"

definition smol_snow_try_next_id_async ::
  "(u64 \<Rightarrow> 'g \<Rightarrow> 'g) \<Rightarrow> ('a::len word \<Rightarrow> u64) \<Rightarrow> u64 \<Rightarrow>
     ('g \<Rightarrow> (gen_error + ('a word snowflake, 'a word) poll) res \<times> 'g) \<Rightarrow> 'g \<Rightarrow>
     ((gen_error + 'a word snowflake) res \<times> 'g \<times> u64 list) option" where
  "smol_snow_try_next_id_async timer to_u64 granularity try_poll_id g =
     snow_try_next_id_async to_u64 granularity (SmolSleep_sleep_for timer) try_poll_id g"

definition smol_snow_next_id_async ::
  "(u64 \<Rightarrow> 'g \<Rightarrow> 'g) \<Rightarrow> ('a::len word \<Rightarrow> u64) \<Rightarrow> u64 \<Rightarrow>
     ('g \<Rightarrow> (gen_error + ('a word snowflake, 'a word) poll) res \<times> 'g) \<Rightarrow> 'g \<Rightarrow>
     ('a word snowflake res \<times> 'g \<times> u64 list) option" where
  "smol_snow_next_id_async timer to_u64 granularity try_poll_id g =
     snow_next_id_async to_u64 granularity (SmolSleep_sleep_for timer) try_poll_id g"

definition smol_ulid_try_next_id_async ::
  "(u64 \<Rightarrow> 'g \<Rightarrow> 'g) \<Rightarrow> ('a::len word \<Rightarrow> u64) \<Rightarrow> u64 \<Rightarrow>
     ('g \<Rightarrow> (gen_error + ('a word ulid, 'a word) poll) res \<times> 'g) \<Rightarrow> 'g \<Rightarrow>
     ((gen_error + 'a word ulid) res \<times> 'g \<times> u64 list) option" where
  "smol_ulid_try_next_id_async timer to_u64 granularity try_poll_id g =
     ulid_try_next_id_async to_u64 granularity (SmolSleep_sleep_for timer) try_poll_id g"

definition smol_ulid_next_id_async ::
  "(u64 \<Rightarrow> 'g \<Rightarrow> 'g) \<Rightarrow> ('a::len word \<Rightarrow> u64) \<Rightarrow> u64 \<Rightarrow>
     ('g \<Rightarrow> (gen_error + ('a word ulid, 'a word) poll) res \<times> 'g) \<Rightarrow> 'g \<Rightarrow>
     ('a word ulid res \<times> 'g \<times> u64 list) option" where
  "smol_ulid_next_id_async timer to_u64 granularity try_poll_id g =
     ulid_next_id_async to_u64 granularity (SmolSleep_sleep_for timer) try_poll_id g"

subsection \<open>Sleeping on the monotonic clock\<close>

lemma async_loop_Ready:
  "try_poll g = (Inr (Inr (Ready x)), h) \<Longrightarrow>
     async_loop tu N sl try_poll g ds = Some (Inr (Inr x), h, ds)"
  by (subst async_loop.simps) simp

lemma async_loop_Pending:
  "try_poll g = (Inr (Inr (Pending y)), h) \<Longrightarrow>
     async_loop tu N sl try_poll g ds =
       async_loop tu N sl try_poll (sl (sleep_millis tu N y) h) (ds @ [sleep_millis tu N y])"
  by (subst async_loop.simps) (simp add: Let_def)

text \<open>
  An atomic generator that nobody else uses, on a clock of granularity \<open>N\<close> over a shared value that
  lags. The generator's time is the elapsed time in nanoseconds; loading the clock takes none,
  and a timer lasts at least as long as asked. Before it runs out of timestamps the clock must have
  time to pass the timestamp of the last identifier.
\<close>

locale sleeping_generator = layout: wf_snowflake_layout ty L + lagging_clock stored lag horizon
  for ty :: "64 itself" and L and stored lag horizon +
  fixes b :: build and N :: u64 and clk :: mono_clock and cm :: "nat \<Rightarrow> u64 \<times> nat"
    and timer :: "u64 \<Rightarrow> (u64, nat) atomic_snow_gen \<Rightarrow> (u64, nat) atomic_snow_gen"
    and x :: "u64 snowflake"
  assumes granularity: "valid_granularity N" and fits: "2 ^ timestamp_bits L * unat N \<le> 2 ^ 64"
    and cm: "current_millis_u64 b N clk (stored t) = Inr (fst (cm t))" "snd (cm t) = t"
    and in_range: "unat (epoch_offset clk) + unat (stored t) < 2 ^ timestamp_bits L * unat N"
    and timer: "as_state (timer d g) = as_state g" "as_time g + unat d * 1000000 \<le> as_time (timer d g)"
    and valid: "snow_is_valid L x"
    and in_time: "(unat (snow_timestamp L x) + 1) * unat N * 1000000 + lag \<le>
      unat (epoch_offset clk) * 1000000 + horizon"
begin

abbreviation off :: nat where
  "off \<equiv> unat (epoch_offset clk)"

abbreviation tick :: nat where
  "tick \<equiv> unat (snow_timestamp L x)"

abbreviation unit_ns :: nat where
  "unit_ns \<equiv> unat N * 1000000"

abbreviation now :: "nat \<Rightarrow> nat" where
  "now t \<equiv> unat (fst (cm t))"

abbreviation run :: "(u64, nat) atomic_snow_gen \<Rightarrow> u64 list \<Rightarrow>
    ((gen_error + u64 snowflake) res \<times> (u64, nat) atomic_snow_gen \<times> u64 list) option" where
  "run \<equiv> async_loop to_u64_from N timer (atomic_snow_try_poll_id cm b L)"

definition returns_within :: "nat \<Rightarrow> (u64, nat) atomic_snow_gen \<Rightarrow> bool" where
  "returns_within k g \<longleftrightarrow> (\<forall>ds. \<exists>y h es. run g ds = Some (Inr (Inr y), h, ds @ es) \<and>
     x < y \<and> length es \<le> k)"

lemma N_pos: "0 < unat N"
  using granularity by (simp add: valid_granularity_def word_less_nat_alt)

lemma now_eq: "now t = (off + unat (stored t)) div unat N"
proof -
  have "off + unat (stored t) < 2 ^ 64" using in_range [of t] fits by simp
  from current_millis_value(1) [OF this, of b N] current_millis_value(2) [OF this, of N] cm(1) [of t]
  show ?thesis by simp
qed

lemma now_range: "now t < 2 ^ timestamp_bits L"
  using in_range [of t] by (simp add: now_eq less_mult_imp_div_less)

text \<open>Once the timestamp's unit and the lag are over, the clock is past the timestamp.\<close>

lemma late_enough:
  assumes "(tick + 1) * unit_ns + lag \<le> off * 1000000 + t"
  shows "tick < now t"
proof -
  define c where "c = (tick + 1) * unat N"
  have bounds: "c * 1000000 + lag \<le> off * 1000000 + t" "c * 1000000 + lag \<le> off * 1000000 + horizon"
    using assms in_time by (simp_all only: c_def mult.assoc)
  have "c \<le> off + unat (stored t)"
  proof (cases "c \<le> off")
    case False
    then obtain m where m: "c = off + m" using nat_le_linear le_Suc_ex by blast
    then have "m * 1000000 + lag \<le> t" "m * 1000000 + lag \<le> horizon" using bounds by simp_all
    then have "m \<le> unat (stored t)" by (rule stored_reaches)
    with m show ?thesis by simp
  qed simp
  then have "tick + 1 \<le> now t"
    using N_pos by (simp add: now_eq less_eq_div_iff_mult_less_eq c_def)
  then show ?thesis by simp
qed

lemma tick_range: "tick + 1 < 2 ^ timestamp_bits L"
proof -
  have "tick < now ((tick + 1) * unit_ns + lag)" by (rule late_enough) simp
  with now_range [of "(tick + 1) * unit_ns + lag"] show ?thesis by simp
qed

lemma poll_eq:
  assumes "as_state g = snow_to_raw x"
  shows "\<exists>r h. atomic_snow_try_poll_id cm b L g = (Inr (Inr r), h) \<and>
    as_time h = as_time g \<and> (\<forall>d. r = Pending d \<longrightarrow> as_state h = snow_to_raw x) \<and>
    (\<forall>y. r = Ready y \<longrightarrow> x < y) \<and>
    map_poll (snow_key L) unat r =
      spec_poll (2 ^ sequence_bits L - 1) (now (as_time g)) 0 (snow_key L x)"
proof -
  let ?now = "fst (cm (as_time g))"
  have range: "unat ?now < 2 ^ timestamp_bits L" by (rule now_range)
  obtain r where r: "snow_decide b L ?now x = Inr r"
    "map_poll (snow_key L) unat r = spec_poll (2 ^ sequence_bits L - 1) (unat ?now) 0 (snow_key L x)"
    using layout.decide_refines [OF valid range] by blast
  let ?h = "snd (atomic_snow_try_poll_id cm b L g)"
  have "fst (atomic_snow_try_poll_id cm b L g) = Inr (Inr r)"
    and h: "snow_from_raw (as_state ?h) = installed x (Inr r)"
    by (simp_all add: atomic_snow_try_poll_eq assms r(1))
  moreover have "as_time ?h = as_time g" by (simp add: atomic_snow_try_poll_eq cm(2))
  moreover have "as_state ?h = snow_to_raw (installed x (Inr r))"
    by (metis h snow_raw_simps(1))
  moreover have "x < y" if "r = Ready y" for y
    using layout.decide_ready [OF valid _ r(1) [unfolded that]] range by simp
  ultimately show ?thesis
    using r(2) by (intro exI [of _ r] exI [of _ ?h]) (auto simp: prod_eq_iff)
qed

text \<open>The length of a wait: long enough to reach the timestamp, and at least one unit.\<close>

lemma sleep_value:
  fixes d :: u64
  assumes "unat d < 2 ^ timestamp_bits L"
  shows "unat (sleep_millis to_u64_from N d) = unat d * unat N"
proof -
  have "unat d * unat N < 2 ^ timestamp_bits L * unat N" using assms N_pos by simp
  then have lt: "unat d * unat N < 2 ^ 64" using fits by (rule order_less_le_trans)
  show ?thesis
    using lt by (simp add: sleep_millis_def saturating_mul_def unat_to_u64_from unat_word_ariths)
qed

lemma poll_cases:
  assumes "as_state g = snow_to_raw x"
  obtains (ready) "returns_within 0 g"
  | (pending) d h where "atomic_snow_try_poll_id cm b L g = (Inr (Inr (Pending d)), h)"
      "as_time h = as_time g" "as_state h = snow_to_raw x" "now (as_time g) \<le> tick"
      "tick \<le> now (as_time g) + unat d" "1 \<le> unat d"
      "unat (sleep_millis to_u64_from N d) = unat d * unat N"
proof -
  from poll_eq [OF assms] obtain r h where
    r: "atomic_snow_try_poll_id cm b L g = (Inr (Inr r), h)"
      "as_time h = as_time g" "\<forall>d. r = Pending d \<longrightarrow> as_state h = snow_to_raw x"
      "\<forall>y. r = Ready y \<longrightarrow> x < y"
      "map_poll (snow_key L) unat r =
        spec_poll (2 ^ sequence_bits L - 1) (now (as_time g)) 0 (snow_key L x)"
    by blast
  show thesis
  proof (cases r)
    case (Ready y)
    with r show thesis by (intro ready) (simp add: returns_within_def async_loop_Ready)
  next
    case (Pending d)
    with r(5) have d: "now (as_time g) \<le> tick" "tick \<le> now (as_time g) + unat d" "1 \<le> unat d"
      "unat d \<le> max 1 tick"
      by (auto simp: snow_key_def split: if_splits)
    from d(4) tick_range have "unat d < 2 ^ timestamp_bits L" by simp
    with r Pending d show thesis by (intro pending [of d h]) (simp_all add: sleep_value)
  qed
qed

lemma sleep_returns:
  assumes "atomic_snow_try_poll_id cm b L g = (Inr (Inr (Pending d)), h)"
    and "returns_within k (timer (sleep_millis to_u64_from N d) h)"
  shows "returns_within (Suc k) g"
  unfolding returns_within_def
proof
  fix ds
  let ?s = "sleep_millis to_u64_from N d"
  obtain y h' es where "run (timer ?s h) (ds @ [?s]) = Some (Inr (Inr y), h', (ds @ [?s]) @ es)"
      "x < y" "length es \<le> k"
    using assms(2) unfolding returns_within_def by blast
  then show "\<exists>y h es. run g ds = Some (Inr (Inr y), h, ds @ es) \<and> x < y \<and> length es \<le> Suc k"
    by (intro exI [of _ y] exI [of _ h'] exI [of _ "?s # es"])
      (simp add: async_loop_Pending [where try_poll = "atomic_snow_try_poll_id cm b L", OF assms(1)])
qed

lemma returns_within_mono: "returns_within j g \<Longrightarrow> j \<le> k \<Longrightarrow> returns_within k g"
  unfolding returns_within_def by (meson order_trans)

text \<open>From the timestamp on every sleep takes at least one unit, until the lag is over.\<close>

lemma climbing:
  assumes "as_state g = snow_to_raw x" and "(tick + j) * unit_ns \<le> off * 1000000 + as_time g"
    and "unit_ns + lag \<le> (j + k) * unit_ns"
  shows "returns_within k g"
  using assms
proof (induction k arbitrary: j g)
  case 0
  have "(tick + 1) * unit_ns + lag \<le> (tick + j) * unit_ns"
    using 0(3) by (simp add: add_mult_distrib)
  with 0(2) have "tick < now (as_time g)" by (intro late_enough) (rule order_trans)
  with 0(1) show ?case by (cases rule: poll_cases) simp_all
next
  case (Suc k)
  from Suc.prems(1) show ?case
  proof (cases g rule: poll_cases)
    case ready
    then show ?thesis by (rule returns_within_mono) simp
  next
    case (pending d h)
    let ?g = "timer (sleep_millis to_u64_from N d) h"
    have "as_time g + unat d * unit_ns \<le> as_time ?g"
      using timer(2) [of h "sleep_millis to_u64_from N d"] pending(2,7) by (simp add: mult.assoc)
    moreover have "1 * unit_ns \<le> unat d * unit_ns" using pending(6) by (rule mult_le_mono1)
    ultimately have "as_time g + unit_ns \<le> as_time ?g" by linarith
    then have "(tick + Suc j) * unit_ns \<le> off * 1000000 + as_time ?g"
      using Suc.prems(2) by (simp add: add_mult_distrib)
    moreover have "as_state ?g = snow_to_raw x" by (simp add: timer(1) pending(3))
    ultimately have "returns_within k ?g"
      using Suc.IH [of ?g "Suc j"] Suc.prems(3) by simp
    with pending(1) show ?thesis by (rule sleep_returns)
  qed
qed

theorem returns:
  assumes "as_state g = snow_to_raw x"
  shows "returns_within (2 + (lag + unit_ns - 1) div unit_ns) g"
  using assms
proof (cases g rule: poll_cases)
  case ready
  then show ?thesis by (rule returns_within_mono) simp
next
  case (pending d h)
  let ?g = "timer (sleep_millis to_u64_from N d) h" and ?k = "(lag + unit_ns - 1) div unit_ns"
  have "now (as_time g) * unat N \<le> off + unat (stored (as_time g))" by (simp add: now_eq)
  then have "now (as_time g) * unit_ns \<le> off * 1000000 + as_time g"
    using stored_behind [of "as_time g"] by (simp add: algebra_simps)
  moreover have "tick * unit_ns \<le> now (as_time g) * unit_ns + unat d * unit_ns"
    using pending(5) by (metis add_mult_distrib mult_le_mono1)
  moreover have "as_time g + unat d * unit_ns \<le> as_time ?g"
    using timer(2) [of h "sleep_millis to_u64_from N d"] pending(2,7) by (simp add: mult.assoc)
  ultimately have "(tick + 0) * unit_ns \<le> off * 1000000 + as_time ?g" by simp
  moreover have "unit_ns + lag \<le> (0 + Suc ?k) * unit_ns"
  proof -
    have "lag + unit_ns - 1 < unit_ns + ?k * unit_ns"
      using N_pos by (intro dividend_less_div_times) simp
    then show ?thesis using N_pos by simp
  qed
  moreover have "as_state ?g = snow_to_raw x" by (simp add: timer(1) pending(3))
  ultimately have "returns_within (Suc ?k) ?g" by (intro climbing)
  with pending(1) have "returns_within (Suc (Suc ?k)) g" by (rule sleep_returns)
  then show ?thesis by simp
qed

end

text \<open>The history of the clock theory on a fresh process: the last identifier used up the first
  millisecond, and the timer is 3 ns late.\<close>

abbreviation short_run :: "(nat \<times> nat) list" where
  "short_run \<equiv> [(5, 9), (20, 1000000), (1500000, 2000001), (2000100, 3000000), (3000100, 4000000)]"

lemma short_run_current: "unat (current_at Debug short_run (ticker_start 0) t) < 2199023255552"
  by (simp add: ticker_start_def ticker_store_def rust_add_def Let_def)

lemma short_run_offset: "epoch_offset (with_epoch (ticker_start 0) UNIX_EPOCH) = 0"
  by (simp add: with_epoch_def ticker_start_def UNIX_EPOCH_def saturating_sub_def)

lemma used_up: "snow_is_valid SnowflakeTwitterId (Snowflake (4194303 :: u64))"
  "snow_timestamp SnowflakeTwitterId (Snowflake (4194303 :: u64)) = 0"
  by code_simp+

lemma short_run_clock:
  "current_millis_u64 Debug 1 (with_epoch (ticker_start 0) UNIX_EPOCH)
    (current_at Debug short_run (ticker_start 0) t) = Inr (current_at Debug short_run (ticker_start 0) t)"
proof -
  have "unat (current_at Debug short_run (ticker_start 0) t) < 2 ^ 64"
    using short_run_current [of t] by (rule less_trans) simp
  then show ?thesis
    using current_millis_value(1) [of "with_epoch (ticker_start 0) UNIX_EPOCH"
        "current_at Debug short_run (ticker_start 0) t" Debug 1]
    by (simp only: short_run_offset) simp
qed

lemmas short_run_facts = short_run_clock short_run_offset used_up

interpretation twitter_sleeper: sleeping_generator "TYPE(64)" SnowflakeTwitterId
  "\<lambda>t. current_at Debug short_run (ticker_start 0) (t - 50)" "1000001 + 50 + 1000000"
  "last (0 # map snd short_run)" Debug 1 "with_epoch (ticker_start 0) UNIX_EPOCH"
  "\<lambda>t. (current_at Debug short_run (ticker_start 0) (t - 50), t)"
  "\<lambda>d g. g\<lparr>as_time := as_time g + unat d * 1000000 + 3\<rparr>" "Snowflake 4194303"
  by unfold_locales
    (simp_all only: short_run_facts, simp_all add: short_run_current valid_granularity_def
      SnowflakeTwitterId_def del: current_at.simps)

subsection \<open>Properties\<close>

text \<open>C36: \<open>next_id_async\<close> of either runtime on an atomic Snowflake generator that no other task uses, with the
  process-wide monotonic clock as its time source. The ticker wakes at most \<open>gap\<close> ns apart, a load
  sees its stores at most \<open>delay\<close> ns late, and the runtime's timer is never early: then the call
  returns a greater identifier, after at most two sleeps more than the clock's lag takes units,
  because a wait computed from a reading reaches the last timestamp and every further one takes a
  unit. The ticker must run until the timestamp's unit and the lag are over, and its readings must
  fit the timestamp field.\<close>

theorem async_returns_on_lagging_clock:
  fixes x :: "u64 snowflake" and timer :: "u64 \<Rightarrow> (u64, nat) atomic_snow_gen \<Rightarrow> (u64, nat) atomic_snow_gen"
  assumes "layout_wf TYPE(64) L" and "snow_is_valid L x"
    and "valid_granularity N" and "2 ^ timestamp_bits L * unat N \<le> 2 ^ 64"
    and "\<forall>(now, woken) \<in> set obs. woken div 1000000 < 2 ^ 64 - 1"
    and "observations_ok b 0 obs (ticker_start system_now)" and "wakes_within gap 0 obs"
    and "\<And>t t'. t \<le> t' \<Longrightarrow> view t \<le> view t'" and "\<And>t. view t \<le> t" and "\<And>t. t \<le> view t + delay"
    and "clk = with_epoch (ticker_start system_now) epoch"
    and "\<And>t. current_millis_u64 b N clk (current_at b obs (ticker_start system_now) (view t)) = Inr (fst (cm t))"
    and "\<And>t. snd (cm t) = t"
    and "\<And>t. unat (epoch_offset clk) + unat (current_at b obs (ticker_start system_now) (view t))
      < 2 ^ timestamp_bits L * unat N"
    and "\<And>d g. as_state (timer d g) = as_state g"
    and "\<And>d g. as_time g + unat d * 1000000 \<le> as_time (timer d g)"
    and "lag = gap + delay + 1000000"
    and "(unat (snow_timestamp L x) + 1) * unat N * 1000000 + lag \<le>
      unat (epoch_offset clk) * 1000000 + last (0 # map snd obs)"
  shows "\<exists>y h sleeps. tokio_snow_next_id_async timer to_u64_from N
      (atomic_snow_try_poll_id cm b L) \<lparr>as_state = snow_to_raw x, as_time = t\<rparr> = Some (Inr y, h, sleeps) \<and>
    smol_snow_next_id_async timer to_u64_from N
      (atomic_snow_try_poll_id cm b L) \<lparr>as_state = snow_to_raw x, as_time = t\<rparr> = Some (Inr y, h, sleeps) \<and>
    x < y \<and> length sleeps \<le> 2 + (lag + unat N * 1000000 - 1) div (unat N * 1000000)"
proof -
  have "ticker_history b obs system_now gap delay view"
    by (rule ticker_history.intro [OF assms(5-10)])
  then have "lagging_clock (\<lambda>t. current_at b obs (ticker_start system_now) (view t)) lag (last (0 # map snd obs))"
    unfolding assms(17) by (rule ticker_history.lags)
  then have gen: "sleeping_generator TYPE(64) L (\<lambda>t. current_at b obs (ticker_start system_now) (view t)) lag
      (last (0 # map snd obs)) b N clk cm timer x"
    using wf_snowflake_layoutI [OF assms(1)] assms(2-4,12-16,18)
    by (simp add: sleeping_generator_def sleeping_generator_axioms_def)
  let ?g = "\<lparr>as_state = snow_to_raw x, as_time = t\<rparr>"
  have "\<exists>y h sleeps. async_loop to_u64_from N timer (atomic_snow_try_poll_id cm b L) ?g [] =
      Some (Inr (Inr y), h, sleeps) \<and> x < y \<and>
      length sleeps \<le> 2 + (lag + unat N * 1000000 - 1) div (unat N * 1000000)"
    using sleeping_generator.returns [OF gen, of ?g]
    unfolding sleeping_generator.returns_within_def [OF gen]
    by (auto dest: spec [of _ "[]"])
  moreover have "TokioSleep_sleep_for timer = timer" "SmolSleep_sleep_for timer = timer"
    by (simp_all add: fun_eq_iff TokioSleep_sleep_for_def SmolSleep_sleep_for_def)
  ultimately show ?thesis
    unfolding tokio_snow_next_id_async_def smol_snow_next_id_async_def snow_next_id_async_def
      snow_try_next_id_async_def by fastforce
qed

theorem async_returns_on_lagging_clock_witness:
  "\<exists>y h sleeps. tokio_snow_next_id_async (\<lambda>d g. g\<lparr>as_time := as_time g + unat d * 1000000 + 3\<rparr>) to_u64_from 1
      (atomic_snow_try_poll_id (\<lambda>t. (current_at Debug short_run (ticker_start 0) (t - 50), t)) Debug SnowflakeTwitterId)
      \<lparr>as_state = snow_to_raw (Snowflake 4194303), as_time = 7\<rparr> = Some (Inr y, h, sleeps) \<and>
    Snowflake 4194303 < y \<and> length sleeps \<le> 5"
proof -
  let ?cm = "\<lambda>t. (current_at Debug short_run (ticker_start 0) (t - 50), t)"
  let ?timer = "\<lambda>d g. g\<lparr>as_time := as_time g + unat (d :: u64) * 1000000 + 3\<rparr>"
  let ?g = "\<lparr>as_state = snow_to_raw (Snowflake (4194303 :: u64)), as_time = 7\<rparr>"
  have "\<exists>y h sleeps. tokio_snow_next_id_async ?timer to_u64_from 1
      (atomic_snow_try_poll_id ?cm Debug SnowflakeTwitterId) ?g = Some (Inr y, h, sleeps) \<and>
    smol_snow_next_id_async ?timer to_u64_from 1
      (atomic_snow_try_poll_id ?cm Debug SnowflakeTwitterId) ?g = Some (Inr y, h, sleeps) \<and>
    Snowflake 4194303 < y \<and>
    length sleeps \<le> 2 + (2000051 + unat (1 :: u64) * 1000000 - 1) div (unat (1 :: u64) * 1000000)"
    by (rule async_returns_on_lagging_clock [OF twitter_wf used_up(1) _ _ short_history.obs_fit short_history.obs_ok
          short_history.obs_gap _ _ _ refl, where view = "\<lambda>t. t - 50" and delay = 50 and epoch = UNIX_EPOCH])
      (simp_all only: short_run_facts, simp_all add: short_run_current valid_granularity_def
        SnowflakeTwitterId_def del: current_at.simps)
  then show ?thesis by (simp del: current_at.simps) blast
qed

end
