(* ===== verification/Serde_Ext.thy ===== *)
theory Serde_Ext
  imports Base32
begin

text \<open>
  The serde adapters of \<^verbatim>\<open>crates/ferroid/src/serde/\<close>. The data format is not part of
  the crate: \<open>serialize\<close> is modelled by the value it hands to the serializer and
  \<open>deserialize\<close> by its result on the value the deserializer hands back, where the format's
  own failure is the error \<open>FormatError\<close>.
\<close>

datatype 'id serde_error =
    DecodeOverflowId 'id
  | Base32Error "'id base32_error"
  | FormatError string

definition snow_as_int_serialize :: "'a::len word snowflake \<Rightarrow> 'a word" where
  "snow_as_int_serialize x = snow_to_raw x"

definition snow_as_int_deserialize ::
  "snowflake_layout \<Rightarrow> (string + 'a::len word) \<Rightarrow>
     'a word snowflake serde_error + 'a word snowflake" where
  "snow_as_int_deserialize L d =
     and_then (map_err FormatError d) (\<lambda>n.
       let x = snow_from_raw n
       in if \<not> snow_is_valid L x then Inl (DecodeOverflowId x) else Inr x)"

definition snow_as_base32_serialize :: "build \<Rightarrow> 'a::len word snowflake \<Rightarrow> bytes res" where
  "snow_as_base32_serialize b x = and_then (snow_encode b x) snow_formatter_as_str"

definition snow_as_base32_deserialize ::
  "snowflake_layout \<Rightarrow> (string + bytes) \<Rightarrow>
     ('a::len word snowflake serde_error + 'a word snowflake) res" where
  "snow_as_base32_deserialize L d =
     (case d of
        Inl e \<Rightarrow> Inr (Inl (FormatError e))
      | Inr v \<Rightarrow> map_ok (map_err Base32Error) (snow_decode L v))"

definition ulid_as_int_serialize :: "'a::len word ulid \<Rightarrow> 'a word" where
  "ulid_as_int_serialize x = ulid_to_raw x"

definition ulid_as_int_deserialize ::
  "ulid_layout \<Rightarrow> (string + 'a::len word) \<Rightarrow> 'a word ulid serde_error + 'a word ulid" where
  "ulid_as_int_deserialize L d =
     and_then (map_err FormatError d) (\<lambda>n.
       let x = ulid_from_raw n
       in if \<not> ulid_is_valid_id L x then Inl (DecodeOverflowId x) else Inr x)"

definition ulid_as_base32_serialize :: "build \<Rightarrow> 'a::len word ulid \<Rightarrow> bytes res" where
  "ulid_as_base32_serialize b x = and_then (ulid_encode b x) ulid_formatter_as_str"

definition ulid_as_base32_deserialize ::
  "ulid_layout \<Rightarrow> (string + bytes) \<Rightarrow> ('a::len word ulid serde_error + 'a word ulid) res" where
  "ulid_as_base32_deserialize L d =
     (case d of
        Inl e \<Rightarrow> Inr (Inl (FormatError e))
      | Inr v \<Rightarrow> map_ok (map_err Base32Error) (ulid_decode L v))"

subsection \<open>Properties\<close>

text \<open>C37: both serde representations of a Snowflake identifier, native integer and Base32 text,
  round-trip valid identifiers through any format that carries the value, and reject an
  identifier with reserved bits set with the error of the representation.\<close>

theorem snow_serde_roundtrip:
  fixes x :: "'a::len word snowflake"
  assumes "layout_wf TYPE('a) L" and "be_type TYPE('a)"
  shows "snow_as_int_deserialize L (Inr (snow_as_int_serialize x)) =
      (if snow_is_valid L x then Inr x else Inl (DecodeOverflowId x)) \<and>
    (\<exists>s. snow_as_base32_serialize b x = Inr s \<and>
      snow_as_base32_deserialize L (Inr s) =
        Inr (if snow_is_valid L x then Inr x else Inl (Base32Error (DecodeOverflow x))))"
proof -
  note be = be_snowflakeI [OF assms]
  have "snow_as_base32_serialize b x = Inr (canonical_text (snow_to_raw x))"
    using be_snowflake.to_string_eq [OF be, of b x]
    by (simp add: snow_as_base32_serialize_def snow_to_string_def)
  then show ?thesis
    by (simp add: snow_as_int_deserialize_def snow_as_int_serialize_def Let_def
        snow_as_base32_deserialize_def be_snowflake.decode_canonical [OF be])
qed

theorem snow_serde_roundtrip_witness:
  "snow_as_int_deserialize SnowflakeTwitterId (Inr (snow_as_int_serialize (Snowflake (- 1 :: u64)))) =
     Inl (DecodeOverflowId (Snowflake (- 1))) \<and>
   (\<exists>s. snow_as_base32_serialize Debug (Snowflake (42 :: u64)) = Inr s \<and>
      snow_as_base32_deserialize SnowflakeTwitterId (Inr s) = Inr (Inr (Snowflake (42 :: u64))))"
proof -
  have be: "be_type TYPE(64)" by (simp add: be_type_def)
  have "\<not> snow_is_valid SnowflakeTwitterId (Snowflake (- 1 :: u64))"
    and "snow_is_valid SnowflakeTwitterId (Snowflake (42 :: u64))"
    by code_simp+
  then show ?thesis
    using snow_serde_roundtrip [OF twitter_wf be, of "Snowflake (- 1)" Debug]
      snow_serde_roundtrip [OF twitter_wf be, of "Snowflake 42" Debug]
    by (simp del: snow_raw_simps)
qed

end
