(* ===== verification/Text_Format.thy ===== *)
theory Text_Format
  imports Prelude
begin

text \<open>
  What the repository uses of Rust's formatting: decimal and hexadecimal numbers, and the builders
  behind \<open>debug_struct\<close> and \<open>debug_tuple\<close> with the layout of \<open>{:?}\<close> and of \<open>{:#?}\<close>. Text is a list
  of characters. The lemmas say that a number can be read off a text in which something other
  than a digit follows it.
\<close>

subsection \<open>Numbers\<close>

text \<open>Decimal text of a number, as the format macros print it.\<close>

fun show_nat :: "nat \<Rightarrow> string" where
  "show_nat n =
     (if n < 10 then [char_of (48 + n)] else show_nat (n div 10) @ [char_of (48 + n mod 10)])"

declare show_nat.simps [simp del]

text \<open>\<open>{:x}\<close>: lower-case hexadecimal digits.\<close>

definition hex_digit :: "nat \<Rightarrow> char" where
  "hex_digit d = (if d < 10 then char_of (48 + d) else char_of (87 + d))"

fun show_hex :: "nat \<Rightarrow> string" where
  "show_hex n = (if n < 16 then [hex_digit n] else show_hex (n div 16) @ [hex_digit (n mod 16)])"

declare show_hex.simps [simp del]

subsection \<open>Builders\<close>

text \<open>
  \<open>Formatter::debug_struct\<close> and \<open>debug_tuple\<close> with the texts of the fields. The alternate form
  puts every field on a line of its own and indents what the field's value puts on further lines.
\<close>

definition pad_adapter :: "string \<Rightarrow> string" where
  "pad_adapter v = concat (map (\<lambda>c. if c = CHR 10 then c # ''    '' else [c]) v)"

fun comma_separated :: "string list \<Rightarrow> string" where
  "comma_separated [] = ''''"
| "comma_separated [x] = x"
| "comma_separated (x # y # xs) = x @ '', '' @ comma_separated (y # xs)"

definition debug_struct :: "bool \<Rightarrow> string \<Rightarrow> (string \<times> string) list \<Rightarrow> string" where
  "debug_struct alternate name fields =
     (if fields = [] then name
      else if alternate then
        name @ '' {'' @ [CHR 10] @
          concat (map (\<lambda>(field, v). ''    '' @ field @ '': '' @ pad_adapter v @ '','' @ [CHR 10]) fields) @ ''}''
      else name @ '' { '' @ comma_separated (map (\<lambda>(field, v). field @ '': '' @ v) fields) @ '' }'')"

definition debug_tuple :: "bool \<Rightarrow> string \<Rightarrow> string list \<Rightarrow> string" where
  "debug_tuple alternate name fields =
     (if fields = [] then name
      else if alternate then
        name @ ''('' @ [CHR 10] @
          concat (map (\<lambda>v. ''    '' @ pad_adapter v @ '','' @ [CHR 10]) fields) @ '')''
      else name @ ''('' @ comma_separated fields @ '')'')"

text \<open>\<open>{:?}\<close> of an ASCII string: quotes, and escapes for what is not printable.\<close>

definition escape_debug :: "char \<Rightarrow> string" where
  "escape_debug ch =
     (let n = of_char ch :: nat; bs = CHR 0x5C
      in if n = 0 then [bs, CHR ''0'']
         else if n = 9 then [bs, CHR ''t'']
         else if n = 10 then [bs, CHR ''n'']
         else if n = 13 then [bs, CHR ''r'']
         else if n = 34 \<or> n = 92 then [bs, ch]
         else if n < 32 \<or> n = 127 then [bs, CHR ''u'', CHR 0x7B] @ show_hex n @ [CHR 0x7D]
         else [ch])"

definition debug_str :: "string \<Rightarrow> string" where
  "debug_str s = CHR 34 # concat (map escape_debug s) @ [CHR 34]"

text \<open>\<open>str::rsplit("::").next()\<close>: what follows the last double colon.\<close>

fun until_colons :: "string \<Rightarrow> string" where
  "until_colons (c # d # cs) =
     (if c = CHR '':'' \<and> d = CHR '':'' then [] else c # until_colons (d # cs))"
| "until_colons cs = cs"

definition last_segment :: "string \<Rightarrow> string" where
  "last_segment full = rev (until_colons (rev full))"

subsection \<open>Reading numbers back\<close>

definition is_digit :: "char \<Rightarrow> bool" where
  "is_digit c \<longleftrightarrow> c \<in> set ''0123456789''"

definition digit_value :: "char \<Rightarrow> nat" where
  "digit_value c = of_char c - 48"

definition read_nat :: "string \<Rightarrow> nat" where
  "read_nat s = foldl (\<lambda>n c. 10 * n + digit_value c) 0 s"

lemma digit_char:
  assumes "n < 10"
  shows "is_digit (char_of (48 + n))" and "digit_value (char_of (48 + n)) = n"
proof -
  have n: "n \<in> {0, 1, 2, 3, 4, 5, 6, 7, 8, 9}" using assms by auto
  have "\<forall>n \<in> {0, 1, 2, 3, 4, 5, 6, 7, 8, 9}. is_digit (char_of (48 + n :: nat))"
    unfolding is_digit_def by code_simp
  with n show "is_digit (char_of (48 + n))" by blast
  show "digit_value (char_of (48 + n)) = n"
    using assms by (simp add: digit_value_def of_char_of)
qed

lemma show_nat_digits: "\<forall>c \<in> set (show_nat n). is_digit c"
proof (induction n rule: show_nat.induct)
  case (1 n)
  then show ?case
    by (subst show_nat.simps) (auto simp: digit_char)
qed

lemma show_nat_not_Nil [simp]: "show_nat n \<noteq> []"
  by (subst show_nat.simps) simp

lemma read_show_nat [simp]: "read_nat (show_nat n) = n"
proof (induction n rule: show_nat.induct)
  case (1 n)
  then show ?case
    by (subst show_nat.simps) (auto simp: read_nat_def digit_char)
qed

lemma show_nat_inject [simp]: "show_nat m = show_nat n \<longleftrightarrow> m = n"
  using read_show_nat by metis

text \<open>A number ends at the first character that is not a digit.\<close>

lemma takeWhile_show_nat:
  assumes "\<not> is_digit c"
  shows "takeWhile is_digit (show_nat n @ c # cs) = show_nat n"
    and "dropWhile is_digit (show_nat n @ c # cs) = c # cs"
  using show_nat_digits [of n] assms by (simp_all add: takeWhile_append2 dropWhile_append2)

lemma show_nat_append_eq:
  assumes "\<not> is_digit c" and "\<not> is_digit d"
  shows "show_nat m @ c # cs = show_nat n @ d # ds \<longleftrightarrow> m = n \<and> c = d \<and> cs = ds"
  using assms takeWhile_show_nat [of c m cs] takeWhile_show_nat [of d n ds]
  by (metis append_same_eq list.inject show_nat_inject)

end
