(* ===== verification/Text_Views.thy ===== *)
theory Text_Views
  imports Serde_Ext Text_Format
begin

text \<open>
  The views of a formatted identifier and the texts of errors. A formatter, with a buffer of its own
  or in the caller's buffer, can be read as bytes, as a string slice or as an owned string, printed,
  hashed and compared (\<^verbatim>\<open>crates/ferroid/src/base32/snowflake.rs\<close>, \<^verbatim>\<open>base32/ulid.rs\<close>).
  \<open>Borrow<str>\<close> carries an obligation, stated as the locale \<open>borrowed_str\<close>: the formatter
  compares and hashes as its text does. Then come the \<open>Debug\<close> forms of identifiers
  (\<^verbatim>\<open>id/snowflake.rs\<close>, \<^verbatim>\<open>id/ulid.rs\<close>) and the messages of decoding errors
  (\<^verbatim>\<open>base32/error.rs\<close>, \<^verbatim>\<open>serde/error.rs\<close>).
\<close>

definition str_chars :: "bytes \<Rightarrow> string" where
  "str_chars s = map (\<lambda>c. char_of (unat c)) s"

subsection \<open>Snowflake formatters\<close>

text \<open>The hasher's treatment of a string slice is the parameter \<open>hash_str\<close>.\<close>

definition snow_formatter_as_string :: "snow_formatter \<Rightarrow> bytes res" where
  "snow_formatter_as_string f = from_utf8_unchecked (snow_formatter_as_bytes f)"

definition snow_formatter_into_inner :: "snow_formatter \<Rightarrow> bytes" where
  "snow_formatter_into_inner f = snow_buf f"

definition snow_formatter_hash :: "(bytes \<Rightarrow> 'h \<Rightarrow> 'h) \<Rightarrow> snow_formatter \<Rightarrow> 'h \<Rightarrow> 'h res" where
  "snow_formatter_hash hash_str f state = map_ok (\<lambda>s. hash_str s state) (snow_formatter_as_str f)"

definition snow_formatter_fmt :: "snow_formatter \<Rightarrow> string res" where
  "snow_formatter_fmt f = map_ok str_chars (snow_formatter_as_str f)"

definition snow_formatter_debug :: "bool \<Rightarrow> snow_formatter \<Rightarrow> string res" where
  "snow_formatter_debug alternate f = map_ok (\<lambda>s. debug_tuple alternate ''Base32SnowFormatter'' [debug_str (str_chars s)])
     (snow_formatter_as_str f)"

definition snow_formatter_to_string :: "snow_formatter \<Rightarrow> bytes res" where
  "snow_formatter_to_string f = snow_formatter_as_string f"

definition snow_formatter_as_ref :: "snow_formatter \<Rightarrow> bytes res" where
  "snow_formatter_as_ref f = snow_formatter_as_str f"

definition snow_formatter_as_ref_bytes :: "snow_formatter \<Rightarrow> bytes" where
  "snow_formatter_as_ref_bytes f = snow_formatter_as_bytes f"

definition snow_formatter_deref :: "snow_formatter \<Rightarrow> bytes res" where
  "snow_formatter_deref f = snow_formatter_as_str f"

definition snow_formatter_borrow :: "snow_formatter \<Rightarrow> bytes res" where
  "snow_formatter_borrow f = snow_formatter_as_str f"

text \<open>\<open>Base32SnowFormatterRef\<close>, whose buffer is the caller's.\<close>

definition snow_formatter_ref_as_bytes :: "snow_formatter \<Rightarrow> bytes" where
  "snow_formatter_ref_as_bytes f = snow_buf f"

definition snow_formatter_ref_as_str :: "snow_formatter \<Rightarrow> bytes res" where
  "snow_formatter_ref_as_str f = from_utf8_unchecked (snow_formatter_ref_as_bytes f)"

definition snow_formatter_ref_as_string :: "snow_formatter \<Rightarrow> bytes res" where
  "snow_formatter_ref_as_string f = from_utf8_unchecked (snow_formatter_ref_as_bytes f)"

definition snow_formatter_ref_hash :: "(bytes \<Rightarrow> 'h \<Rightarrow> 'h) \<Rightarrow> snow_formatter \<Rightarrow> 'h \<Rightarrow> 'h res" where
  "snow_formatter_ref_hash hash_str f state = map_ok (\<lambda>s. hash_str s state) (snow_formatter_ref_as_str f)"

definition snow_formatter_ref_fmt :: "snow_formatter \<Rightarrow> string res" where
  "snow_formatter_ref_fmt f = map_ok str_chars (snow_formatter_ref_as_str f)"

definition snow_formatter_ref_debug :: "bool \<Rightarrow> snow_formatter \<Rightarrow> string res" where
  "snow_formatter_ref_debug alternate f = map_ok (\<lambda>s. debug_tuple alternate ''Base32SnowFormatterRef'' [debug_str (str_chars s)])
     (snow_formatter_ref_as_str f)"

definition snow_formatter_ref_to_string :: "snow_formatter \<Rightarrow> bytes res" where
  "snow_formatter_ref_to_string f = snow_formatter_ref_as_string f"

definition snow_formatter_ref_as_ref :: "snow_formatter \<Rightarrow> bytes res" where
  "snow_formatter_ref_as_ref f = snow_formatter_ref_as_str f"

definition snow_formatter_ref_as_ref_bytes :: "snow_formatter \<Rightarrow> bytes" where
  "snow_formatter_ref_as_ref_bytes f = snow_formatter_ref_as_bytes f"

definition snow_formatter_ref_deref :: "snow_formatter \<Rightarrow> bytes res" where
  "snow_formatter_ref_deref f = snow_formatter_ref_as_str f"

definition snow_formatter_ref_borrow :: "snow_formatter \<Rightarrow> bytes res" where
  "snow_formatter_ref_borrow f = snow_formatter_ref_as_str f"

definition snow_formatter_ref_eq_str :: "snow_formatter \<Rightarrow> bytes \<Rightarrow> bool res" where
  "snow_formatter_ref_eq_str f other = map_ok (\<lambda>s. s = other) (snow_formatter_ref_as_str f)"

subsection \<open>ULID formatters\<close>

definition ulid_formatter_as_string :: "ulid_formatter \<Rightarrow> bytes res" where
  "ulid_formatter_as_string f = from_utf8_unchecked (ulid_formatter_as_bytes f)"

definition ulid_formatter_into_inner :: "ulid_formatter \<Rightarrow> bytes" where
  "ulid_formatter_into_inner f = ulid_buf f"

definition ulid_formatter_hash :: "(bytes \<Rightarrow> 'h \<Rightarrow> 'h) \<Rightarrow> ulid_formatter \<Rightarrow> 'h \<Rightarrow> 'h res" where
  "ulid_formatter_hash hash_str f state = map_ok (\<lambda>s. hash_str s state) (ulid_formatter_as_str f)"

definition ulid_formatter_fmt :: "ulid_formatter \<Rightarrow> string res" where
  "ulid_formatter_fmt f = map_ok str_chars (ulid_formatter_as_str f)"

definition ulid_formatter_debug :: "bool \<Rightarrow> ulid_formatter \<Rightarrow> string res" where
  "ulid_formatter_debug alternate f = map_ok (\<lambda>s. debug_tuple alternate ''Base32UlidFormatter'' [debug_str (str_chars s)])
     (ulid_formatter_as_str f)"

definition ulid_formatter_to_string :: "ulid_formatter \<Rightarrow> bytes res" where
  "ulid_formatter_to_string f = ulid_formatter_as_string f"

definition ulid_formatter_as_ref :: "ulid_formatter \<Rightarrow> bytes res" where
  "ulid_formatter_as_ref f = ulid_formatter_as_str f"

definition ulid_formatter_as_ref_bytes :: "ulid_formatter \<Rightarrow> bytes" where
  "ulid_formatter_as_ref_bytes f = ulid_formatter_as_bytes f"

definition ulid_formatter_deref :: "ulid_formatter \<Rightarrow> bytes res" where
  "ulid_formatter_deref f = ulid_formatter_as_str f"

definition ulid_formatter_borrow :: "ulid_formatter \<Rightarrow> bytes res" where
  "ulid_formatter_borrow f = ulid_formatter_as_str f"

definition ulid_formatter_ref_as_bytes :: "ulid_formatter \<Rightarrow> bytes" where
  "ulid_formatter_ref_as_bytes f = ulid_buf f"

definition ulid_formatter_ref_as_str :: "ulid_formatter \<Rightarrow> bytes res" where
  "ulid_formatter_ref_as_str f = from_utf8_unchecked (ulid_formatter_ref_as_bytes f)"

definition ulid_formatter_ref_as_string :: "ulid_formatter \<Rightarrow> bytes res" where
  "ulid_formatter_ref_as_string f = from_utf8_unchecked (ulid_formatter_ref_as_bytes f)"

definition ulid_formatter_ref_hash :: "(bytes \<Rightarrow> 'h \<Rightarrow> 'h) \<Rightarrow> ulid_formatter \<Rightarrow> 'h \<Rightarrow> 'h res" where
  "ulid_formatter_ref_hash hash_str f state = map_ok (\<lambda>s. hash_str s state) (ulid_formatter_ref_as_str f)"

definition ulid_formatter_ref_fmt :: "ulid_formatter \<Rightarrow> string res" where
  "ulid_formatter_ref_fmt f = map_ok str_chars (ulid_formatter_ref_as_str f)"

definition ulid_formatter_ref_debug :: "bool \<Rightarrow> ulid_formatter \<Rightarrow> string res" where
  "ulid_formatter_ref_debug alternate f = map_ok (\<lambda>s. debug_tuple alternate ''Base32UlidFormatterRef'' [debug_str (str_chars s)])
     (ulid_formatter_ref_as_str f)"

definition ulid_formatter_ref_to_string :: "ulid_formatter \<Rightarrow> bytes res" where
  "ulid_formatter_ref_to_string f = ulid_formatter_ref_as_string f"

definition ulid_formatter_ref_as_ref :: "ulid_formatter \<Rightarrow> bytes res" where
  "ulid_formatter_ref_as_ref f = ulid_formatter_ref_as_str f"

definition ulid_formatter_ref_as_ref_bytes :: "ulid_formatter \<Rightarrow> bytes" where
  "ulid_formatter_ref_as_ref_bytes f = ulid_formatter_ref_as_bytes f"

definition ulid_formatter_ref_deref :: "ulid_formatter \<Rightarrow> bytes res" where
  "ulid_formatter_ref_deref f = ulid_formatter_ref_as_str f"

definition ulid_formatter_ref_borrow :: "ulid_formatter \<Rightarrow> bytes res" where
  "ulid_formatter_ref_borrow f = ulid_formatter_ref_as_str f"

definition ulid_formatter_ref_eq_str :: "ulid_formatter \<Rightarrow> bytes \<Rightarrow> bool res" where
  "ulid_formatter_ref_eq_str f other = map_ok (\<lambda>s. s = other) (ulid_formatter_ref_as_str f)"

subsection \<open>Formatters as keys\<close>

text \<open>The derived order of a formatter is the order of its buffer.\<close>

instantiation snow_formatter :: linorder
begin

definition less_eq_snow_formatter :: "snow_formatter \<Rightarrow> snow_formatter \<Rightarrow> bool" where
  "less_eq_snow_formatter f g \<longleftrightarrow> snow_buf f \<le> snow_buf g"

definition less_snow_formatter :: "snow_formatter \<Rightarrow> snow_formatter \<Rightarrow> bool" where
  "less_snow_formatter f g \<longleftrightarrow> snow_buf f < snow_buf g"

instance
  by intro_classes
    (auto simp: less_eq_snow_formatter_def less_snow_formatter_def snow_formatter.expand)

end

instantiation ulid_formatter :: linorder
begin

definition less_eq_ulid_formatter :: "ulid_formatter \<Rightarrow> ulid_formatter \<Rightarrow> bool" where
  "less_eq_ulid_formatter f g \<longleftrightarrow> ulid_buf f \<le> ulid_buf g"

definition less_ulid_formatter :: "ulid_formatter \<Rightarrow> ulid_formatter \<Rightarrow> bool" where
  "less_ulid_formatter f g \<longleftrightarrow> ulid_buf f < ulid_buf g"

instance
  by intro_classes
    (auto simp: less_eq_ulid_formatter_def less_ulid_formatter_def ulid_formatter.expand)

end

text \<open>
  How a hash map looks for a borrowed key \<open>q\<close>: entries whose key has the hash of \<open>q\<close> are
  candidates, and the first whose borrowed key equals \<open>q\<close> is it.
\<close>

definition borrowed_get ::
  "('f \<Rightarrow> bytes res) \<Rightarrow> ((bytes \<Rightarrow> 'h \<Rightarrow> 'h) \<Rightarrow> 'f \<Rightarrow> 'h \<Rightarrow> 'h res) \<Rightarrow> (bytes \<Rightarrow> 'h \<Rightarrow> 'h) \<Rightarrow> 'h \<Rightarrow>
     bytes \<Rightarrow> ('f \<times> 'v) list \<Rightarrow> 'v option" where
  "borrowed_get borrow hash hash_str state q entries =
     map_option snd (find (\<lambda>(k, v). hash hash_str k state = Inr (hash_str q state) \<and> borrow k = Inr q) entries)"

lemma map_of_find: "map_of kvs k = map_option snd (find (\<lambda>(k', v). k' = k) kvs)"
  by (induction kvs) auto

locale borrowed_str =
  fixes borrow :: "'f::linorder \<Rightarrow> bytes res"
    and hash :: "(bytes \<Rightarrow> 'h \<Rightarrow> 'h) \<Rightarrow> 'f \<Rightarrow> 'h \<Rightarrow> 'h res"
    and eq_str :: "'f \<Rightarrow> bytes \<Rightarrow> bool res"
  assumes borrow_eq: "borrow f = Inr s \<Longrightarrow> borrow g = Inr t \<Longrightarrow> f = g \<longleftrightarrow> s = t"
    and borrow_less: "borrow f = Inr s \<Longrightarrow> borrow g = Inr t \<Longrightarrow> f < g \<longleftrightarrow> s < t"
    and borrow_hash: "borrow f = Inr s \<Longrightarrow> hash hash_str f state = Inr (hash_str s state)"
    and borrow_eq_str: "borrow f = Inr s \<Longrightarrow> eq_str f t = Inr (s = t)"
begin

lemma get_by_text:
  assumes "\<forall>k \<in> fst ` set entries. is_ok (borrow k)" and "borrow f = Inr q"
  shows "borrowed_get borrow hash hash_str state q entries = map_of entries f"
proof -
  have "hash hash_str k state = Inr (hash_str q state) \<and> borrow k = Inr q \<longleftrightarrow> k = f"
    if kv: "(k, v) \<in> set entries" for k v
  proof -
    obtain s where "borrow k = Inr s" using assms(1) kv by (force simp: is_ok_iff)
    with borrow_eq [OF this assms(2)] borrow_hash [of k] assms(2) show ?thesis by auto
  qed
  then have "find (\<lambda>(k, v). hash hash_str k state = Inr (hash_str q state) \<and> borrow k = Inr q) entries =
      find (\<lambda>(k, v). k = f) entries"
    by (intro find_cong) auto
  then show ?thesis by (simp add: borrowed_get_def map_of_find)
qed

end

lemmas snow_view_defs = snow_formatter_borrow_def snow_formatter_ref_borrow_def
  snow_formatter_hash_def snow_formatter_ref_hash_def
  snow_formatter_eq_str_def snow_formatter_ref_eq_str_def
  snow_formatter_as_str_def snow_formatter_ref_as_str_def
  snow_formatter_as_bytes_def snow_formatter_ref_as_bytes_def

lemmas ulid_view_defs = ulid_formatter_borrow_def ulid_formatter_ref_borrow_def
  ulid_formatter_hash_def ulid_formatter_ref_hash_def
  ulid_formatter_eq_str_def ulid_formatter_ref_eq_str_def
  ulid_formatter_as_str_def ulid_formatter_ref_as_str_def
  ulid_formatter_as_bytes_def ulid_formatter_ref_as_bytes_def

lemma utf8_Inr_iff: "from_utf8_unchecked s = Inr t \<longleftrightarrow> s = t \<and> (\<forall>c \<in> set s. c < 128)"
  by (auto simp: from_utf8_unchecked_def)

interpretation snow_key: borrowed_str
  snow_formatter_borrow snow_formatter_hash snow_formatter_eq_str
  by unfold_locales
    (auto simp: snow_view_defs utf8_Inr_iff less_snow_formatter_def snow_formatter.expand map_ok_eq_Inr_iff)

interpretation snow_ref_key: borrowed_str
  snow_formatter_ref_borrow snow_formatter_ref_hash snow_formatter_ref_eq_str
  by unfold_locales
    (auto simp: snow_view_defs utf8_Inr_iff less_snow_formatter_def snow_formatter.expand map_ok_eq_Inr_iff)

interpretation ulid_key: borrowed_str
  ulid_formatter_borrow ulid_formatter_hash ulid_formatter_eq_str
  by unfold_locales
    (auto simp: ulid_view_defs utf8_Inr_iff less_ulid_formatter_def ulid_formatter.expand map_ok_eq_Inr_iff)

interpretation ulid_ref_key: borrowed_str
  ulid_formatter_ref_borrow ulid_formatter_ref_hash ulid_formatter_ref_eq_str
  by unfold_locales
    (auto simp: ulid_view_defs utf8_Inr_iff less_ulid_formatter_def ulid_formatter.expand map_ok_eq_Inr_iff)

subsection \<open>Debug forms and error messages\<close>

text \<open>\<open>format_args!("{:} (0x{:x})", v, v)\<close>\<close>

definition show_both :: "'a::len word \<Rightarrow> string" where
  "show_both v = show_nat (unat v) @ '' (0x'' @ show_hex (unat v) @ '')''"

text \<open>The name of the type as the compiler gives it is the argument \<open>full\<close>.\<close>

definition snow_debug ::
  "string \<Rightarrow> snowflake_layout \<Rightarrow> bool \<Rightarrow> 'a::len word snowflake \<Rightarrow> string" where
  "snow_debug full L alternate x =
     debug_struct alternate (last_segment full)
       [(''id'', show_both (snow_to_raw x)),
        (''timestamp'', show_both (snow_timestamp L x)),
        (''machine_id'', show_both (snow_machine_id L x)),
        (''sequence'', show_both (snow_sequence L x))]"

definition ulid_debug :: "string \<Rightarrow> ulid_layout \<Rightarrow> bool \<Rightarrow> 'a::len word ulid \<Rightarrow> string" where
  "ulid_debug full L alternate x =
     debug_struct alternate (last_segment full)
       [(''id'', show_both (ulid_to_raw x)),
        (''timestamp'', show_both (ulid_timestamp L x)),
        (''random'', show_both (ulid_random L x))]"

text \<open>\<open>Display\<close> and the derived \<open>Debug\<close> of a decoding error, given the \<open>Debug\<close> of the identifier.\<close>

definition base32_error_display :: "(bool \<Rightarrow> 'e \<Rightarrow> string) \<Rightarrow> 'e base32_error \<Rightarrow> string" where
  "base32_error_display debug_id e =
     (case e of
        DecodeInvalidAscii byte index \<Rightarrow>
          ''invalid ascii byte ('' @ show_nat (unat byte) @ '') at index ('' @ show_nat index @ '')''
      | DecodeInvalidLen len \<Rightarrow> ''invalid length: '' @ show_nat len
      | DecodeOverflow x \<Rightarrow> ''decode overflow: '' @ debug_id True x)"

definition base32_error_debug :: "(bool \<Rightarrow> 'e \<Rightarrow> string) \<Rightarrow> bool \<Rightarrow> 'e base32_error \<Rightarrow> string" where
  "base32_error_debug debug_id alternate e =
     (case e of
        DecodeInvalidLen len \<Rightarrow> debug_struct alternate ''DecodeInvalidLen'' [(''len'', show_nat len)]
      | DecodeInvalidAscii byte index \<Rightarrow>
          debug_struct alternate ''DecodeInvalidAscii''
            [(''byte'', show_nat (unat byte)), (''index'', show_nat index)]
      | DecodeOverflow x \<Rightarrow> debug_struct alternate ''DecodeOverflow'' [(''id'', debug_id alternate x)])"

text \<open>An error of the serde adapters prints its \<open>Debug\<close> form; a format's own error prints itself.\<close>

definition serde_error_display :: "(bool \<Rightarrow> 'e \<Rightarrow> string) \<Rightarrow> 'e serde_error \<Rightarrow> string" where
  "serde_error_display debug_id e =
     (case e of
        DecodeOverflowId x \<Rightarrow> debug_struct False ''DecodeOverflow'' [(''id'', debug_id False x)]
      | Base32Error e \<Rightarrow> debug_tuple False ''Base32Error'' [base32_error_debug debug_id False e]
      | FormatError msg \<Rightarrow> msg)"

lemma pad_adapter_append: "pad_adapter (u @ v) = pad_adapter u @ pad_adapter v"
  by (simp add: pad_adapter_def)

lemma pad_adapter_Cons: "c \<noteq> CHR 10 \<Longrightarrow> pad_adapter (c # v) = c # pad_adapter v"
  by (simp add: pad_adapter_def)

lemma pad_adapter_show_nat: "pad_adapter (show_nat n) = show_nat n"
proof -
  have "\<not> is_digit (CHR 10)" by (simp add: is_digit_def)
  then have "\<forall>c \<in> set (show_nat n). c \<noteq> CHR 10" using show_nat_digits [of n] by metis
  then show ?thesis by (induction "show_nat n") (auto simp: pad_adapter_def cong: map_cong)
qed

text \<open>The number of the identifier comes first and is followed by a space.\<close>

lemma debug_struct_first:
  "\<exists>rest. debug_struct alternate name ((''id'', show_both v) # fs) =
     name @ (if alternate then '' {'' @ [CHR 10] @ ''    id: '' else '' { id: '') @
       show_nat (unat v) @ CHR '' '' # rest"
proof -
  have "pad_adapter (show_both v) = show_nat (unat v) @ CHR '' '' # pad_adapter (''(0x'' @ show_hex (unat v) @ '')'')"
    by (simp add: show_both_def pad_adapter_append pad_adapter_show_nat pad_adapter_Cons)
  then show ?thesis
    by (cases fs) (simp_all add: debug_struct_def show_both_def)
qed

lemma debug_struct_first_inject:
  assumes "debug_struct alternate name ((''id'', show_both v) # fs) =
    debug_struct alternate name ((''id'', show_both w) # gs)"
  shows "v = w"
proof -
  have "\<not> is_digit (CHR '' '')" by (simp add: is_digit_def)
  with assms debug_struct_first [of alternate name v fs] debug_struct_first [of alternate name w gs]
  show ?thesis by (auto simp: show_nat_append_eq word_unat_eq_iff)
qed

lemma snow_debug_inject: "snow_debug full L alternate x = snow_debug full L alternate y \<longleftrightarrow> x = y"
  by (cases x; cases y) (auto simp: snow_debug_def dest!: debug_struct_first_inject)

lemma ulid_debug_inject: "ulid_debug full L alternate x = ulid_debug full L alternate y \<longleftrightarrow> x = y"
  by (cases x; cases y) (auto simp: ulid_debug_def dest!: debug_struct_first_inject)

lemma error_display_inject:
  assumes "\<And>x y. debug_id True x = debug_id True y \<longleftrightarrow> x = y"
  shows "base32_error_display debug_id e = base32_error_display debug_id e' \<longleftrightarrow> e = e'"
proof -
  have "\<not> is_digit (CHR '')'')" by (simp add: is_digit_def)
  then show ?thesis
    by (cases e; cases e') (simp_all add: base32_error_display_def assms show_nat_append_eq word_unat_eq_iff)
qed

subsection \<open>Properties\<close>

context be_snowflake
begin

lemma formatter_ref_new_eq: "length buf = be_BASE32_SIZE TYPE('a) \<Longrightarrow>
    snow_formatter_ref_new b (x :: 'a word snowflake) buf =
      Inr (SnowFormatter (canonical_text (snow_to_raw x)))"
  by (simp add: snow_formatter_ref_new_def inner_encode_canonical [OF be'])

lemma borrow_formatter:
  "snow_formatter_borrow (SnowFormatter (canonical_text r)) = Inr (canonical_text r)"
  by (simp add: snow_view_defs)

lemmas text_inject = snow_text.repr_inject

lemma get_by_identifier:
  fixes x :: "'a word snowflake"
  shows "borrowed_get snow_formatter_borrow snow_formatter_hash hash_str state
      (canonical_text (snow_to_raw x))
      (map (\<lambda>(y, v). (SnowFormatter (canonical_text (snow_to_raw y)), v)) entries) = map_of entries x"
proof -
  let ?key = "\<lambda>y :: 'a word snowflake. SnowFormatter (canonical_text (snow_to_raw y))"
  have "map_of (map (\<lambda>(y, v). (?key y, v)) entries) (?key x) = map_of entries x"
    by (induction entries) (auto simp: snow_text.repr_inject)
  then show ?thesis
    by (subst snow_key.get_by_text [where f = "?key x"]) (auto simp: borrow_formatter)
qed

end

text \<open>The views of a formatted Snowflake identifier. Whether the formatter has a buffer of its
  own or uses the caller's, it can be made without a panic, and the string slice, the owned string,
  the printed text and the borrowed key are all the text of the identifier. Formatters compare
  like their identifiers, and they keep the promise of \<open>Borrow<str>\<close>: in a hash map whose keys
  are formatters, with any hasher, looking for the text of an identifier finds what was stored
  for that identifier, and nothing when nothing was.\<close>

lemma formatters_are_text_keys:
  fixes x :: "'a::len word snowflake"
  assumes "layout_wf TYPE('a) L" and "be_type TYPE('a)" and "length buf = be_BASE32_SIZE TYPE('a)"
  shows "\<exists>key text. (\<forall>y. snow_formatter_new b y = Inr (key y) \<and>
        snow_formatter_ref_new b y buf = Inr (key y) \<and> snow_to_string b y = Inr (text y) \<and>
        snow_formatter_as_string (key y) = Inr (text y) \<and>
        snow_formatter_fmt (key y) = Inr (str_chars (text y)) \<and>
        snow_formatter_deref (key y) = Inr (text y) \<and>
        snow_formatter_ref_deref (key y) = Inr (text y) \<and>
        snow_formatter_ref_fmt (key y) = Inr (str_chars (text y)) \<and>
        (key x = key y \<longleftrightarrow> x = y) \<and> (key x < key y \<longleftrightarrow> x < y)) \<and>
      borrowed_get snow_formatter_borrow snow_formatter_hash hash_str state (text x)
        (map (\<lambda>(y, v). (key y, v)) entries) = map_of entries x"
proof -
  note be = be_snowflakeI [OF assms(1,2)]
  let ?text = "\<lambda>y :: 'a word snowflake. canonical_text (snow_to_raw y)"
  show ?thesis
    using assms(3)
    by (intro exI [of _ "\<lambda>y. SnowFormatter (?text y)"] exI [of _ ?text])
      (simp add: be_snowflake.formatter_new_eq [OF be] be_snowflake.formatter_ref_new_eq [OF be]
        be_snowflake.to_string_eq [OF be] be_snowflake.get_by_identifier [OF be]
        snow_formatter_as_string_def snow_formatter_fmt_def snow_formatter_ref_fmt_def
        snow_formatter_deref_def snow_formatter_ref_deref_def snow_view_defs
        be_snowflake.text_inject [OF be] less_snow_formatter_def canonical_text_less_iff [OF assms(2)] less_snowflake_def)
qed

lemma formatters_are_text_keys_witness:
  "\<exists>key text. (\<forall>y :: u64 snowflake. snow_formatter_new Debug y = Inr (key y) \<and>
      snow_to_string Debug y = Inr (text y)) \<and>
    borrowed_get snow_formatter_borrow snow_formatter_hash (\<lambda>s h. h + length s) 0
      (text (Snowflake 42)) [(key (Snowflake 7), ''seven''), (key (Snowflake 42), ''answer'')] =
        Some ''answer''"
proof -
  have "be_type TYPE(64)" "length (replicate 13 0 :: bytes) = be_BASE32_SIZE TYPE(64)"
    by (simp_all add: be_type_def be_BASE32_SIZE_def base32_size_def be_SIZE_def)
  from formatters_are_text_keys [OF twitter_wf this, of Debug "Snowflake 42" "\<lambda>s h. h + length s" 0
      "[(Snowflake 7, ''seven''), (Snowflake 42, ''answer'')]"]
  show ?thesis by auto
qed

text \<open>A decoding error can be read off its message. For both families, two errors have the
  same \<open>Display\<close> text only if they are the same error: the message tells the kind, the length,
  the offending byte and its index, or every bit of the identifier that overflowed.\<close>

lemma decode_error_messages:
  "(base32_error_display (snow_debug full L) e = base32_error_display (snow_debug full L) e' \<longleftrightarrow> e = e') \<and>
   (base32_error_display (ulid_debug full M) d = base32_error_display (ulid_debug full M) d' \<longleftrightarrow> d = d')"
  by (simp add: error_display_inject snow_debug_inject ulid_debug_inject)

end
