(* ===== verification/Stream_Worker.thy ===== *)
theory Stream_Worker
  imports Snowflake_Generators Be_Bytes
begin

text \<open>
  The workers of the gRPC server: the packing of identifiers into byte chunks
  (\<^verbatim>\<open>crates/ferroid-tonic-server/src/server/streaming/processor.rs\<close>), the request type
  (\<^verbatim>\<open>streaming/request.rs\<close>), the loop of a worker task (\<^verbatim>\<open>pool/worker.rs\<close>) and the
  constants of \<^verbatim>\<open>ferroid-tonic-core/src/common/types.rs\<close>.

  A channel is a parameter: \<open>is_closed\<close> and \<open>send\<close> take its state to an answer and
  its next state, so that the receiver may disappear between any two calls. A worker keeps
  its buffer and write position from request to request. The wait for a generator that is
  pending is a loop, which may not end: \<open>None\<close>.
\<close>

subsection \<open>Constants\<close>

definition SnowflakeId :: snowflake_layout where
  "SnowflakeId = SnowflakeTwitterId"

definition SNOWFLAKE_ID_SIZE :: nat where
  "SNOWFLAKE_ID_SIZE = 8"

subsection \<open>Streaming one request\<close>

record ('g, 'c) proc =
  p_buf :: bytes
  p_pos :: nat
  p_gen :: 'g
  p_chan :: 'c

text \<open>\<open>chunk_buf[pos..pos + 8].copy_from_slice(id_bytes)\<close>, which panics out of range.\<close>

definition write_id :: "bytes \<Rightarrow> nat \<Rightarrow> bytes \<Rightarrow> bytes res" where
  "write_id buf pos id_bytes =
     (if pos + SNOWFLAKE_ID_SIZE \<le> length buf
      then Inr (take pos buf @ id_bytes @ drop (pos + SNOWFLAKE_ID_SIZE) buf)
      else Inl (Panic ''range end index out of range for slice''))"

text \<open>The end of the function: flush what is left in the buffer.\<close>

definition flush ::
  "('c \<Rightarrow> bool \<times> 'c) \<Rightarrow> (bytes \<Rightarrow> 'c \<Rightarrow> bool \<times> 'c) \<Rightarrow> ('g, 'c) proc \<Rightarrow> ('g, 'c) proc" where
  "flush is_closed send s =
     (if 0 < p_pos s then
        let (closed, c) = is_closed (p_chan s)
        in if closed then s\<lparr>p_chan := c\<rparr>
           else let packed_ids = take (p_pos s) (p_buf s);
                    (_, c) = send packed_ids c
                in s\<lparr>p_pos := 0, p_chan := c\<rparr>
      else s)"

partial_function (option) stream_loop ::
  "('c \<Rightarrow> bool \<times> 'c) \<Rightarrow> (bytes \<Rightarrow> 'c \<Rightarrow> bool \<times> 'c) \<Rightarrow>
     ('g \<Rightarrow> (u64 snowflake, u64) poll res \<times> 'g) \<Rightarrow> nat \<Rightarrow> nat \<Rightarrow> nat \<Rightarrow> ('g, 'c) proc \<Rightarrow>
     (unit res \<times> ('g, 'c) proc) option" where
  "stream_loop is_closed send poll_id chunk_bytes chunk_size generated s =
     (if generated < chunk_size then
        (case poll_id (p_gen s) of
           (Inl panic, g) \<Rightarrow> Some (Inl panic, s\<lparr>p_gen := g\<rparr>)
         | (Inr (Pending _), g) \<Rightarrow>
             stream_loop is_closed send poll_id chunk_bytes chunk_size generated (s\<lparr>p_gen := g\<rparr>)
         | (Inr (Ready x), g) \<Rightarrow>
             (let s = s\<lparr>p_gen := g\<rparr>;
                  id_bytes = to_le_bytes (snow_to_raw x)
              in case write_id (p_buf s) (p_pos s) id_bytes of
                   Inl panic \<Rightarrow> Some (Inl panic, s)
                 | Inr buf \<Rightarrow>
                     (let s = s\<lparr>p_buf := buf, p_pos := p_pos s + SNOWFLAKE_ID_SIZE\<rparr>
                      in if p_pos s = chunk_bytes then
                           (let (closed, c) = is_closed (p_chan s)
                            in if closed then Some (Inr (), s\<lparr>p_chan := c\<rparr>)
                               else let (sent, c) = send (p_buf s) c
                                    in if \<not> sent then Some (Inr (), s\<lparr>p_chan := c\<rparr>)
                                       else stream_loop is_closed send poll_id chunk_bytes
                                              chunk_size (generated + 1)
                                              (s\<lparr>p_chan := c, p_pos := 0\<rparr>))
                         else stream_loop is_closed send poll_id chunk_bytes chunk_size
                                (generated + 1) s)))
      else Some (Inr (), flush is_closed send s))"

definition handle_stream_request ::
  "('c \<Rightarrow> bool \<times> 'c) \<Rightarrow> (bytes \<Rightarrow> 'c \<Rightarrow> bool \<times> 'c) \<Rightarrow>
     ('g \<Rightarrow> (u64 snowflake, u64) poll res \<times> 'g) \<Rightarrow> nat \<Rightarrow> nat \<Rightarrow> ('g, 'c) proc \<Rightarrow>
     (unit res \<times> ('g, 'c) proc) option" where
  "handle_stream_request is_closed send poll_id chunk_bytes chunk_size s =
     stream_loop is_closed send poll_id chunk_bytes chunk_size 0 s"

subsection \<open>Worker\<close>

text \<open>
  A request to a worker. The channel of a \<open>Stream\<close> request stays open as long as the
  worker holds its sender: \<open>feed_chunks\<close> receives until all senders are gone. It is the
  list of the messages sent. The state of a worker is its task's locals; the task has ended
  (\<open>None\<close>) after a shutdown request or a panic, and then its own channel is closed.
\<close>

datatype work_request = Stream nat | Shutdown

record 'g worker =
  w_buf :: bytes
  w_pos :: nat
  w_gen :: 'g

definition worker_start :: "nat \<Rightarrow> 'g \<Rightarrow> 'g worker" where
  "worker_start chunk_bytes g = \<lparr>w_buf = replicate chunk_bytes 0, w_pos = 0, w_gen = g\<rparr>"

definition open_channel :: "bytes list \<Rightarrow> bool \<times> bytes list" where
  "open_channel c = (False, c)"

definition push_message :: "bytes \<Rightarrow> bytes list \<Rightarrow> bool \<times> bytes list" where
  "push_message m c = (True, c @ [m])"

text \<open>
  One round of \<open>worker_loop\<close>: the messages it sent (or the acknowledgement of a shutdown),
  and the worker afterwards. Its chunk channel is never closed and never full: the coordinator keeps
  the receiver until the worker is done, and a request sends one message at most. The early
  returns of \<open>handle_stream_request\<close> are therefore not reached from here; the lemma
  \<open>closed_receiver_wedges_worker\<close> shows what they do.
\<close>

definition worker_round ::
  "('g \<Rightarrow> (u64 snowflake, u64) poll res \<times> 'g) \<Rightarrow> nat \<Rightarrow> work_request \<Rightarrow> 'g worker \<Rightarrow>
     (bytes list \<times> 'g worker option) option" where
  "worker_round poll_id chunk_bytes work w =
     (case work of
        Stream chunk_size \<Rightarrow>
          (case handle_stream_request open_channel push_message poll_id chunk_bytes chunk_size
                  \<lparr>p_buf = w_buf w, p_pos = w_pos w, p_gen = w_gen w, p_chan = []\<rparr> of
             None \<Rightarrow> None
           | Some (Inl panic, s) \<Rightarrow> Some (p_chan s, None)
           | Some (Inr _, s) \<Rightarrow>
               Some (p_chan s, Some \<lparr>w_buf = p_buf s, w_pos = p_pos s, w_gen = p_gen s\<rparr>))
      | Shutdown \<Rightarrow> Some ([], None))"

subsection \<open>Collecting identifiers\<close>

text \<open>The next \<open>n\<close> identifiers of a generator, waiting as long as it takes.\<close>

fun collect ::
  "('g \<Rightarrow> ('id, 'ty) poll res \<times> 'g) \<Rightarrow> nat \<Rightarrow> 'g \<Rightarrow> ('id list \<times> 'g) option" where
  "collect poll_id 0 g = Some ([], g)"
| "collect poll_id (Suc n) g =
     (case next_loop poll_id g [] of
        Some (Inr x, h, _) \<Rightarrow> map_option (\<lambda>(xs, k). (x # xs, k)) (collect poll_id n h)
      | _ \<Rightarrow> None)"

lemma collect_length: "collect poll_id n g = Some (xs, h) \<Longrightarrow> length xs = n"
  by (induction n arbitrary: g xs h) (auto split: option.splits sum.splits)

lemma collect_append:
  "collect poll_id (m + n) g =
     (case collect poll_id m g of
        None \<Rightarrow> None
      | Some (xs, h) \<Rightarrow> map_option (\<lambda>(ys, k). (xs @ ys, k)) (collect poll_id n h))"
proof (induction m arbitrary: g)
  case 0
  show ?case by (simp add: option.map_id case_prod_beta)
next
  case (Suc m)
  show ?case
    by (auto simp: Suc.IH option.map_comp comp_def case_prod_beta split: option.split sum.split)
qed

lemma collect_less: "collect poll_id (m + n) g \<noteq> None \<Longrightarrow> collect poll_id n g \<noteq> None"
  using collect_append [of poll_id n m g] by (auto simp: add.commute split: option.splits)

text \<open>
  What a generator collects, by its contract: increasing identifiers above the last one, each of
  them the last identifier of a state the generator went through.
\<close>

context id_generator
begin

lemma pending_steps_keep:
  assumes "\<And>g. try_poll g = ok_poll (poll_id g)" and "inv g" and "(pending_step poll_id)\<^sup>*\<^sup>* g k"
  shows "inv k \<and> latest k = latest g"
  using assms(3)
proof induction
  case base
  show ?case using assms(2) by simp
next
  case (step k l)
  then obtain d where "poll_id k = (Inr (Pending d), l)" by (auto simp: pending_step_def)
  with step.IH keeps_inv [of k] not_ready [of k] show ?case
    by (simp add: assms(1) ok_poll_def)
qed

lemma next_loop_ready:
  assumes "\<And>g. try_poll g = ok_poll (poll_id g)" and "inv g"
    and "next_loop poll_id g ws = Some (Inr x, h, ws')"
  shows "inv h \<and> latest g < x \<and> latest h = x"
proof -
  obtain k where
    k: "(pending_step poll_id)\<^sup>*\<^sup>* g k" "poll_id k = (Inr (Ready x), h)"
    by (rule next_loop_chain [OF assms(3)]) simp
  have "inv k" "latest k = latest g" using pending_steps_keep [OF assms(1,2) k(1)] by simp_all
  with keeps_inv [of k] ready [of k x] k(2) show ?thesis
    by (simp add: assms(1) ok_poll_def)
qed

lemma collect_inv:
  assumes ok: "\<And>g. try_poll g = ok_poll (poll_id g)"
  shows "inv g \<Longrightarrow> collect poll_id n g = Some (xs, h) \<Longrightarrow>
    inv h \<and> sorted_wrt (<) (latest g # xs) \<and> latest h = last (latest g # xs) \<and>
    (\<forall>x \<in> set xs. \<exists>k. inv k \<and> latest k = x)"
proof (induction n arbitrary: g xs)
  case (Suc n)
  from Suc.prems(2) obtain x k ws ys where
    x: "next_loop poll_id g [] = Some (Inr x, k, ws)" "collect poll_id n k = Some (ys, h)"
      "xs = x # ys"
    by (auto split: option.splits sum.splits)
  have k: "inv k" "latest g < x" "latest k = x"
    using next_loop_ready [OF ok Suc.prems(1) x(1)] by simp_all
  with Suc.IH [OF k(1) x(2)] x(3) show ?case by force
qed simp

end

context snowflake_generation
begin

lemmas basic_collect = basic.collect_inv [of "basic_snow_poll_id cm b L"]

end

lemma basic_snow_collect:
  fixes g :: "('a::len word snowflake, 't) basic_snow_gen"
  assumes "layout_wf TYPE('a) L" and "snow_gen_inv cm b L m (bs_state g) (bs_time g)"
    and "collect (basic_snow_poll_id cm b L) n g = Some (xs, h)"
  shows "snow_gen_inv cm b L m (bs_state h) (bs_time h)"
    and "sorted_wrt (<) (bs_state g # xs)" and "bs_state h = last (bs_state g # xs)"
    and "\<forall>x \<in> set xs. snow_is_valid L x \<and> snow_machine_id L x = m"
  using snowflake_generation.basic_collect [OF snowflake_generationI [OF assms(1)] _ assms(2,3)]
  by (auto simp: basic_snow_try_poll_id_def snow_gen_inv_def)

definition pack_ids :: "u64 snowflake list \<Rightarrow> bytes" where
  "pack_ids xs = concat (map (\<lambda>x. to_le_bytes (snow_to_raw x)) xs)"

definition unpack_ids :: "bytes \<Rightarrow> u64 snowflake list" where
  "unpack_ids m = map snow_from_raw (unpack 8 from_le_bytes (length m div 8) m)"

lemma length_le_bytes: "length (to_le_bytes (r :: u64)) = 8"
  by (simp add: to_le_bytes_eq_rev be_SIZE_def)

lemma pack_ids_simps:
  "pack_ids [] = []"
  "pack_ids (xs @ ys) = pack_ids xs @ pack_ids ys"
  "pack_ids [x] = to_le_bytes (snow_to_raw x)"
  "length (pack_ids xs) = 8 * length xs"
  by (induction xs) (simp_all add: pack_ids_def length_le_bytes)

lemma unpack_pack: "unpack_ids (pack_ids xs) = xs"
proof -
  have "concat (map (\<lambda>x. to_le_bytes (snow_to_raw x)) xs) = concat (map to_le_bytes (map snow_to_raw xs))"
    by (simp add: comp_def)
  then show ?thesis
    using le64.unpack_packed [of "map snow_to_raw xs"] pack_ids_simps(4) [of xs]
    by (simp add: unpack_ids_def pack_ids_def comp_def)
qed

subsection \<open>What a request sends\<close>

lemma stream_loop_pending:
  assumes "(pending_step poll_id)\<^sup>*\<^sup>* g k" and "n < cs"
  shows "stream_loop ic sd poll_id cb cs n (s\<lparr>p_gen := g\<rparr>) =
    stream_loop ic sd poll_id cb cs n (s\<lparr>p_gen := k\<rparr>)"
  using assms(1)
proof induction
  case (step k l)
  then show ?case
    by (subst (asm) (2) stream_loop.simps) (auto simp: pending_step_def assms(2))
qed simp

text \<open>A write that does not fill the buffer, and one that does.\<close>

lemma stream_loop_ready:
  assumes "next_loop poll_id g ws = Some (Inr x, h, ws')" and "n < cs"
    and "p_gen s = g" and "p_pos s + 8 \<le> length (p_buf s)"
  shows "stream_loop ic sd poll_id cb cs n s =
    (let s = s\<lparr>p_gen := h, p_buf := take (p_pos s) (p_buf s) @ to_le_bytes (snow_to_raw x) @
           drop (p_pos s + 8) (p_buf s), p_pos := p_pos s + 8\<rparr>
     in if p_pos s = cb then
          (let (closed, c) = ic (p_chan s)
           in if closed then Some (Inr (), s\<lparr>p_chan := c\<rparr>)
              else let (sent, c) = sd (p_buf s) c
                   in if \<not> sent then Some (Inr (), s\<lparr>p_chan := c\<rparr>)
                      else stream_loop ic sd poll_id cb cs (n + 1) (s\<lparr>p_chan := c, p_pos := 0\<rparr>))
        else stream_loop ic sd poll_id cb cs (n + 1) s)"
proof -
  obtain k where
    k: "(pending_step poll_id)\<^sup>*\<^sup>* g k" "poll_id k = (Inr (Ready x), h)"
    by (rule next_loop_chain [OF assms(1)]) simp
  have "stream_loop ic sd poll_id cb cs n s = stream_loop ic sd poll_id cb cs n (s\<lparr>p_gen := k\<rparr>)"
    using stream_loop_pending [OF k(1) assms(2), of ic sd cb s] assms(3) by (cases s) simp
  then show ?thesis
    using assms(2,4)
    by (subst (asm) (2) stream_loop.simps)
      (simp add: k(2) write_id_def SNOWFLAKE_ID_SIZE_def Let_def)
qed

lemma stream_loop_done:
  "stream_loop ic sd poll_id cb cs cs s = Some (Inr (), flush ic sd s)"
  by (subst stream_loop.simps) simp

lemma channel_simps [simp]:
  "(case open_channel c of (closed, c') \<Rightarrow> f closed c') = f False c"
  "(case push_message m c of (sent, c') \<Rightarrow> f sent c') = f True (c @ [m])"
  by (simp_all add: open_channel_def push_message_def)

lemma flush_open:
  assumes "p_pos s = 8 * length ds" and "take (p_pos s) (p_buf s) = pack_ids ds"
  shows "flush open_channel push_message s =
    s\<lparr>p_pos := 0, p_chan := p_chan s @ (if ds = [] then [] else [pack_ids ds])\<rparr>"
  using assms by (cases s) (simp add: flush_def)

text \<open>
  With \<open>ds\<close> already in the buffer, \<open>r\<close> more identifiers to generate and room for all of
  them, the loop sends exactly one message with all of them.
\<close>

lemma stream_loop_fill:
  assumes "collect poll_id r (p_gen s) = Some (xs, h)"
    and "p_pos s = 8 * length ds" and "take (p_pos s) (p_buf s) = pack_ids ds"
    and "length (p_buf s) = cb" and "8 * (length ds + r) \<le> cb" and "n + r = cs"
  shows "\<exists>s'. stream_loop open_channel push_message poll_id cb cs n s = Some (Inr (), s') \<and>
    p_gen s' = h \<and> p_pos s' = 0 \<and> length (p_buf s') = cb \<and>
    p_chan s' = p_chan s @ (if ds @ xs = [] then [] else [pack_ids (ds @ xs)])"
  using assms
proof (induction r arbitrary: n s ds xs)
  case 0
  then show ?case by (simp add: stream_loop_done flush_open)
next
  case (Suc r)
  from Suc.prems(1) obtain x g ws xs' where
    x: "next_loop poll_id (p_gen s) [] = Some (Inr x, g, ws)" "collect poll_id r g = Some (xs', h)"
      "xs = x # xs'"
    by (auto split: option.splits sum.splits)
  let ?buf = "take (p_pos s) (p_buf s) @ to_le_bytes (snow_to_raw x) @ drop (p_pos s + 8) (p_buf s)"
  let ?s = "s\<lparr>p_gen := g, p_buf := ?buf, p_pos := p_pos s + 8\<rparr>"
  have fits: "p_pos s + 8 \<le> length (p_buf s)" using Suc.prems(2,4,5) by simp
  have buf: "length ?buf = cb" "take (p_pos s + 8) ?buf = pack_ids (ds @ [x])"
    using fits Suc.prems(2,3,4) by (simp_all add: length_le_bytes pack_ids_simps min_def)
  note step = stream_loop_ready [OF x(1) _ refl fits, of n cs open_channel push_message cb]
  show ?case
  proof (cases "p_pos s + 8 = cb")
    case True
    then have "r = 0" "xs' = []" "h = g"
      using Suc.prems(2,5) x(2) by auto
    moreover have "?buf = pack_ids (ds @ [x])" using buf True by simp
    ultimately show ?thesis
      using step True Suc.prems(6) buf(1) x(3)
      by (simp add: Let_def stream_loop_done flush_def)
  next
    case False
    have "\<exists>s'. stream_loop open_channel push_message poll_id cb cs (n + 1) ?s = Some (Inr (), s') \<and>
        p_gen s' = h \<and> p_pos s' = 0 \<and> length (p_buf s') = cb \<and>
        p_chan s' = p_chan ?s @ (if (ds @ [x]) @ xs' = [] then [] else [pack_ids ((ds @ [x]) @ xs')])"
      by (rule Suc.IH)
        (use x(2) buf Suc.prems in \<open>simp_all add: length_le_bytes pack_ids_simps\<close>)
    with step False Suc.prems(6) x(3) show ?thesis by (simp add: Let_def)
  qed
qed

text \<open>The state of a worker between requests.\<close>

definition worker_ok :: "nat \<Rightarrow> 'g worker \<Rightarrow> bool" where
  "worker_ok chunk_bytes w \<longleftrightarrow> w_pos w = 0 \<and> length (w_buf w) = chunk_bytes"

lemma worker_start_ok: "worker_ok chunk_bytes (worker_start chunk_bytes g)"
  by (simp add: worker_ok_def worker_start_def)

lemma worker_round_stream:
  assumes "worker_ok chunk_bytes w" and "8 * chunk_size \<le> chunk_bytes" and "0 < chunk_size"
    and "collect poll_id chunk_size (w_gen w) = Some (xs, h)"
  obtains w' where "worker_round poll_id chunk_bytes (Stream chunk_size) w = Some ([pack_ids xs], Some w')"
    "worker_ok chunk_bytes w'" "w_gen w' = h"
proof -
  let ?s = "\<lparr>p_buf = w_buf w, p_pos = w_pos w, p_gen = w_gen w, p_chan = []\<rparr>"
  have "xs \<noteq> []" using assms(3) collect_length [OF assms(4)] by auto
  then obtain s where s: "stream_loop open_channel push_message poll_id chunk_bytes chunk_size 0 ?s =
      Some (Inr (), s)" "p_gen s = h" "p_pos s = 0" "length (p_buf s) = chunk_bytes"
      "p_chan s = [pack_ids xs]"
    using stream_loop_fill [of poll_id chunk_size ?s xs h "[]" chunk_bytes 0 chunk_size] assms
    by (auto simp: worker_ok_def pack_ids_simps)
  then show thesis
    using that [of "\<lparr>w_buf = p_buf s, w_pos = p_pos s, w_gen = p_gen s\<rparr>"]
    by (simp add: worker_round_def handle_stream_request_def worker_ok_def)
qed

text \<open>The same loop when the receiver has gone before the buffer is full.\<close>

lemma stream_loop_closed:
  assumes "collect poll_id r (p_gen s) = Some (xs, h)" and "0 < r"
    and "length (p_buf s) = cb" and "p_pos s + 8 * r = cb" and "n + r \<le> cs"
  shows "\<exists>s'. stream_loop (\<lambda>c. (True, c)) sd poll_id cb cs n s = Some (Inr (), s') \<and>
    p_gen s' = h \<and> p_pos s' = cb \<and> length (p_buf s') = cb"
  using assms
proof (induction r arbitrary: n s xs)
  case (Suc r)
  from Suc.prems(1) obtain x g ws xs' where
    x: "next_loop poll_id (p_gen s) [] = Some (Inr x, g, ws)" "collect poll_id r g = Some (xs', h)"
    by (auto split: option.splits sum.splits)
  let ?buf = "take (p_pos s) (p_buf s) @ to_le_bytes (snow_to_raw x) @ drop (p_pos s + 8) (p_buf s)"
  let ?s = "s\<lparr>p_gen := g, p_buf := ?buf, p_pos := p_pos s + 8\<rparr>"
  have fits: "p_pos s + 8 \<le> length (p_buf s)" using Suc.prems(3,4) by simp
  have buf: "length ?buf = cb" using fits Suc.prems(3) by (simp add: length_le_bytes)
  note step = stream_loop_ready [OF x(1) _ refl fits, of n cs "\<lambda>c. (True, c)" sd cb]
  show ?case
  proof (cases "r = 0")
    case True
    with step Suc.prems(4,5) x(2) buf show ?thesis by (simp add: Let_def)
  next
    case False
    then have "\<exists>s'. stream_loop (\<lambda>c. (True, c)) sd poll_id cb cs (n + 1) ?s = Some (Inr (), s') \<and>
        p_gen s' = h \<and> p_pos s' = cb \<and> length (p_buf s') = cb"
      by (intro Suc.IH) (use x(2) buf Suc.prems in simp_all)
    with step False Suc.prems(4,5) show ?thesis by (simp add: Let_def)
  qed
qed simp

lemma stream_loop_full_panics:
  assumes "next_loop poll_id (p_gen s) ws = Some (Inr x, h, ws')" and "n < cs"
    and "length (p_buf s) < p_pos s + 8"
  shows "\<exists>s'. stream_loop ic sd poll_id cb cs n s =
    Some (Inl (Panic ''range end index out of range for slice''), s')"
proof -
  obtain k where
    k: "(pending_step poll_id)\<^sup>*\<^sup>* (p_gen s) k" "poll_id k = (Inr (Ready x), h)"
    by (rule next_loop_chain [OF assms(1)]) simp
  have "stream_loop ic sd poll_id cb cs n s = stream_loop ic sd poll_id cb cs n (s\<lparr>p_gen := k\<rparr>)"
    using stream_loop_pending [OF k(1) assms(2), of ic sd cb s] by (cases s) simp
  then show ?thesis
    using assms(2,3)
    by (subst (asm) (2) stream_loop.simps)
      (simp add: k(2) write_id_def SNOWFLAKE_ID_SIZE_def Let_def)
qed

text \<open>
  A request that is answered at all: either the generator gave all its identifiers, or the worker
  panicked before it sent anything.
\<close>

lemma stream_loop_polls:
  assumes "stream_loop ic sd poll_id cb cs n s = Some y"
  shows "n < cs \<longrightarrow> (\<forall>ws. next_loop poll_id (p_gen s) ws \<noteq> None)"
proof (rule stream_loop.raw_induct [OF _ assms, where P = "\<lambda>ic sd poll_id cb cs n s y.
    n < cs \<longrightarrow> (\<forall>ws. next_loop poll_id (p_gen s) ws \<noteq> None)"], goal_cases)
  case (1 loop ic sd poll_id cb cs n s y)
  show ?case
  proof (cases "\<exists>d. fst (poll_id (p_gen s)) = Inr (Pending d)")
    case True
    then obtain d g where d: "poll_id (p_gen s) = (Inr (Pending d), g)" by (metis prod.collapse)
    then have "next_loop poll_id (p_gen s) ws = next_loop poll_id g (ws @ [d])" for ws
      by (subst next_loop.simps) simp
    with 1(1) [of ic sd poll_id cb cs n "s\<lparr>p_gen := g\<rparr>" y] 1(2) d show ?thesis
      by (cases "n < cs") simp_all
  next
    case False
    then show ?thesis
      by (subst next_loop.simps) (auto split: prod.split sum.split poll.split)
  qed
qed

lemma stream_loop_panics:
  assumes "next_loop poll_id (p_gen s) ws = Some (Inl e, h, ws')" and "n < cs"
  shows "stream_loop ic sd poll_id cb cs n s = Some (Inl e, s\<lparr>p_gen := h\<rparr>)"
proof -
  obtain k where k: "(pending_step poll_id)\<^sup>*\<^sup>* (p_gen s) k" "poll_id k = (Inl e, h)"
    by (rule next_loop_chain [OF assms(1)]) simp
  have "stream_loop ic sd poll_id cb cs n s = stream_loop ic sd poll_id cb cs n (s\<lparr>p_gen := k\<rparr>)"
    using stream_loop_pending [OF k(1) assms(2), of ic sd cb s] by (cases s) simp
  then show ?thesis
    using assms(2) by (subst (asm) (2) stream_loop.simps) (simp add: k(2))
qed

lemma stream_loop_all_or_nothing:
  assumes "stream_loop open_channel push_message poll_id cb cs n s = Some (r, s')"
    and "p_pos s + 8 * (cs - n) \<le> cb" and "length (p_buf s) = cb" and "n \<le> cs"
  shows "collect poll_id (cs - n) (p_gen s) \<noteq> None \<or> (\<exists>e. r = Inl e \<and> p_chan s' = p_chan s)"
  using assms
proof (induction "cs - n" arbitrary: n s)
  case (Suc m)
  then have n: "n < cs" "cs - n = Suc m" "cs - Suc n = m" by simp_all
  from stream_loop_polls [OF Suc.prems(1)] n(1) obtain q h ws where
    q: "next_loop poll_id (p_gen s) [] = Some (q, h, ws)" by force
  show ?case
  proof (cases q)
    case (Inl e)
    with q Suc.prems(1) show ?thesis by (auto simp: stream_loop_panics [OF _ n(1)])
  next
    case (Inr x)
    let ?s = "s\<lparr>p_gen := h, p_buf := take (p_pos s) (p_buf s) @ to_le_bytes (snow_to_raw x) @
      drop (p_pos s + 8) (p_buf s), p_pos := p_pos s + 8\<rparr>"
    have fits: "p_pos s + 8 \<le> length (p_buf s)" using Suc.prems(2,3) n(2) by simp
    note step = stream_loop_ready [OF q [unfolded Inr] n(1) refl fits, of open_channel push_message cb]
    have rest: "collect poll_id (Suc m) (p_gen s) \<noteq> None \<longleftrightarrow> collect poll_id m h \<noteq> None"
      by (simp add: q Inr)
    show ?thesis
    proof (cases "p_pos s + 8 = cb")
      case True
      then have "m = 0" using Suc.prems(2) n(2) by simp
      then show ?thesis using rest n(2) by simp
    next
      case False
      then have "stream_loop open_channel push_message poll_id cb cs (Suc n) ?s = Some (r, s')"
        using Suc.prems(1) step by (simp add: Let_def)
      from Suc.hyps(1) [OF _ this] fits Suc.prems(2-4) n rest show ?thesis
        by (simp add: length_le_bytes)
    qed
  qed
qed simp

lemma worker_round_all_or_nothing:
  assumes "worker_round poll_id chunk_bytes (Stream chunk_size) w = Some (msgs, ow)"
    and "worker_ok chunk_bytes w" and "8 * chunk_size \<le> chunk_bytes"
  shows "collect poll_id chunk_size (w_gen w) \<noteq> None \<or> msgs = [] \<and> ow = None"
  using assms stream_loop_all_or_nothing [of poll_id chunk_bytes chunk_size 0
      "\<lparr>p_buf = w_buf w, p_pos = w_pos w, p_gen = w_gen w, p_chan = []\<rparr>"]
  by (auto simp: worker_round_def handle_stream_request_def worker_ok_def simp del: not_None_eq
      split: option.splits sum.splits)

subsection \<open>Properties\<close>

text \<open>A worker that is asked for \<open>chunk_size\<close> identifiers, at most as many as its buffer
  holds, sends exactly one message as long as the receiver stays; unpacking the message eight
  little-endian bytes at a time gives exactly the next \<open>chunk_size\<close> identifiers of its
  generator, in order. The worker survives, with its generator advanced past them and its write
  position back at zero, ready for the next request.\<close>

lemma worker_sends_exactly_the_ids:
  assumes "worker_ok chunk_bytes w" and "8 * chunk_size \<le> chunk_bytes" and "0 < chunk_size"
    and "collect poll_id chunk_size (w_gen w) = Some (xs, h)"
  shows "\<exists>m w'. worker_round poll_id chunk_bytes (Stream chunk_size) w = Some ([m], Some w') \<and>
    unpack_ids m = xs \<and> length xs = chunk_size \<and> length m = 8 * chunk_size \<and>
    worker_ok chunk_bytes w' \<and> w_gen w' = h"
proof -
  obtain w' where "worker_round poll_id chunk_bytes (Stream chunk_size) w =
      Some ([pack_ids xs], Some w')" "worker_ok chunk_bytes w'" "w_gen w' = h"
    by (rule worker_round_stream [OF assms])
  with collect_length [OF assms(4)] show ?thesis
    by (simp add: unpack_pack pack_ids_simps)
qed

lemma worker_sends_exactly_the_ids_witness:
  "\<exists>m w'. worker_round (\<lambda>k :: u64. (Inr (if k AND 1 = 0 then Pending 1 else Ready (Snowflake k)), k + 1))
      16 (Stream 2) (worker_start 16 6) = Some ([m], Some w') \<and>
    unpack_ids m = [Snowflake 7, Snowflake 9] \<and> w_gen w' = 10"
proof -
  let ?poll = "\<lambda>k :: u64. (Inr (if k AND 1 = 0 then Pending 1 else Ready (Snowflake k)), k + 1)
    :: (u64 snowflake, u64) poll res \<times> u64"
  have "next_loop ?poll 6 [] = Some (Inr (Snowflake 7), 8, [1])"
    by (subst next_loop.simps, simp, subst next_loop.simps, simp)
  moreover have "next_loop ?poll 8 [] = Some (Inr (Snowflake 9), 10, [1])"
    by (subst next_loop.simps, simp, subst next_loop.simps, simp)
  ultimately have "collect ?poll 2 6 = Some ([Snowflake 7, Snowflake 9], 10)"
    by (simp add: numeral_2_eq_2)
  then show ?thesis
    using worker_sends_exactly_the_ids [OF worker_start_ok [of 16 6], of 2 ?poll]
    by (simp add: worker_start_def) blast
qed

text \<open>What happens when the receiver is gone at the moment the buffer is full:
  \<open>handle_stream_request\<close> returns without resetting the write position, and the next request
  the worker serves, whatever its channel does, panics at its first identifier. The position is
  reset only on the paths that send.\<close>

lemma closed_receiver_wedges_worker:
  assumes "collect poll_id k (p_gen s) = Some (xs, h)" and "0 < k"
    and "length (p_buf s) = 8 * k" and "p_pos s = 0"
    and "next_loop poll_id h [] = Some (Inr x, h', ws)" and "0 < chunk_size"
  shows "\<exists>s'. handle_stream_request (\<lambda>c. (True, c)) send poll_id (8 * k) k s = Some (Inr (), s') \<and>
    p_pos s' = 8 * k \<and>
    (\<exists>s''. handle_stream_request is_closed' send' poll_id (8 * k) chunk_size s' =
       Some (Inl (Panic ''range end index out of range for slice''), s''))"
proof -
  obtain s' where s': "stream_loop (\<lambda>c. (True, c)) send poll_id (8 * k) k 0 s = Some (Inr (), s')"
      "p_gen s' = h" "p_pos s' = 8 * k" "length (p_buf s') = 8 * k"
    using stream_loop_closed [OF assms(1,2,3), of 0 k send] assms(4) by auto
  with assms(5,6) stream_loop_full_panics [of poll_id s' "[]" x h' ws 0 chunk_size]
  show ?thesis by (simp add: handle_stream_request_def)
qed

lemma closed_receiver_wedges_worker_witness:
  "\<exists>s'. handle_stream_request (\<lambda>c. (True, c)) push_message
      (\<lambda>k :: u64. (Inr (Ready (Snowflake k)), k + 1)) (8 * 1) 1
      \<lparr>p_buf = replicate 8 0, p_pos = 0, p_gen = 3, p_chan = []\<rparr> = Some (Inr (), s') \<and>
    p_pos s' = 8 * 1 \<and>
    (\<exists>s''. handle_stream_request open_channel push_message
        (\<lambda>k :: u64. (Inr (Ready (Snowflake k)), k + 1)) (8 * 1) 5 s' =
       Some (Inl (Panic ''range end index out of range for slice''), s''))"
proof -
  let ?poll = "\<lambda>k :: u64. (Inr (Ready (Snowflake k)), k + 1) :: (u64 snowflake, u64) poll res \<times> u64"
  have n: "next_loop ?poll k [] = Some (Inr (Snowflake k), k + 1, [])" for k
    by (subst next_loop.simps) simp
  then have "collect ?poll 1 3 = Some ([Snowflake 3], 4)" by simp
  then show ?thesis
    by (intro closed_receiver_wedges_worker [where xs = "[Snowflake 3]" and h = 4 and x = "Snowflake 4"])
      (simp_all add: n)
qed

end
