(* ===== verification/Telemetry.thy ===== *)
theory Telemetry
  imports Prelude
begin

text \<open>
  The metrics of \<^verbatim>\<open>crates/ferroid-tonic-server/src/server/telemetry.rs\<close>. An instrument is a
  \<open>OnceLock\<close> that \<open>init_metric_handles\<close> sets when the server starts with metrics; before that,
  and without the feature, every call does nothing. The OpenTelemetry library is not part of the
  repository: the model records the calls to its instruments in their order, and \<open>metric_total\<close>
  is the sum that a counter shows. The set-up of exporters is in the theory \<open>Server_Process\<close>.
\<close>

subsection \<open>Instruments\<close>

datatype metric =
    REQUESTS_METRIC
  | STREAMS_INFLIGHT_METRIC
  | STREAM_ERRORS_METRIC
  | STREAM_DURATION_MS_METRIC
  | IDS_GENERATED_METRIC
  | IDS_PER_REQUEST_METRIC

record metrics =
  m_set :: "metric \<Rightarrow> bool"
  m_calls :: "(metric \<times> int) list"

definition no_metrics :: metrics where
  "no_metrics = \<lparr>m_set = (\<lambda>_. False), m_calls = []\<rparr>"

definition init_metric_handles :: "metrics \<Rightarrow> metrics" where
  "init_metric_handles m = m\<lparr>m_set := (\<lambda>_. True)\<rparr>"

text \<open>\<open>if let Some(instrument) = HANDLE.get() { instrument.add(v, &[]) }\<close>, or \<open>record\<close>.\<close>

definition metric_call :: "metric \<Rightarrow> int \<Rightarrow> metrics \<Rightarrow> metrics" where
  "metric_call k v m = (if m_set m k then m\<lparr>m_calls := m_calls m @ [(k, v)]\<rparr> else m)"

definition increment_requests_metric :: "metrics \<Rightarrow> metrics" where
  "increment_requests_metric m = metric_call REQUESTS_METRIC 1 m"

definition increment_streams_inflight_metric :: "metrics \<Rightarrow> metrics" where
  "increment_streams_inflight_metric m = metric_call STREAMS_INFLIGHT_METRIC 1 m"

definition decrement_streams_inflight_metric :: "metrics \<Rightarrow> metrics" where
  "decrement_streams_inflight_metric m = metric_call STREAMS_INFLIGHT_METRIC (- 1) m"

definition increment_stream_errors_metric :: "metrics \<Rightarrow> metrics" where
  "increment_stream_errors_metric m = metric_call STREAM_ERRORS_METRIC 1 m"

text \<open>The duration is a whole number of milliseconds, which the source passes as \<open>f64\<close>.\<close>

definition record_stream_duration_metric :: "int \<Rightarrow> metrics \<Rightarrow> metrics" where
  "record_stream_duration_metric duration_ms m = metric_call STREAM_DURATION_MS_METRIC duration_ms m"

definition increment_ids_generated_metric :: "u64 \<Rightarrow> metrics \<Rightarrow> metrics" where
  "increment_ids_generated_metric count m = metric_call IDS_GENERATED_METRIC (uint count) m"

definition record_ids_per_request_metric :: "u64 \<Rightarrow> metrics \<Rightarrow> metrics" where
  "record_ids_per_request_metric count m = metric_call IDS_PER_REQUEST_METRIC (uint count) m"

lemmas metric_ops = increment_requests_metric_def increment_streams_inflight_metric_def
  decrement_streams_inflight_metric_def increment_stream_errors_metric_def
  record_stream_duration_metric_def increment_ids_generated_metric_def
  record_ids_per_request_metric_def

subsection \<open>Totals\<close>

definition metric_values :: "metric \<Rightarrow> metrics \<Rightarrow> int list" where
  "metric_values k m = map snd (filter (\<lambda>c. fst c = k) (m_calls m))"

definition metric_total :: "metric \<Rightarrow> metrics \<Rightarrow> int" where
  "metric_total k m = sum_list (metric_values k m)"

lemma metric_call_set [simp]: "m_set (metric_call k v m) = m_set m"
  by (simp add: metric_call_def)

lemma metric_call_values:
  "metric_values j (metric_call k v m) =
     metric_values j m @ (if j = k \<and> m_set m k then [v] else [])"
  by (simp add: metric_values_def metric_call_def)

lemma metric_call_total:
  "metric_total j (metric_call k v m) = metric_total j m + (if j = k \<and> m_set m k then v else 0)"
  by (simp add: metric_total_def metric_call_values)

end
