(* ===== verification/Stream_Server.thy ===== *)
theory Stream_Server
  imports Stream_Worker Telemetry Text_Format
begin

text \<open>
  The gRPC server of \<^verbatim>\<open>crates/ferroid-tonic-server\<close> around its workers: configuration
  (\<^verbatim>\<open>server/config.rs\<close>), errors and their status codes
  (\<^verbatim>\<open>ferroid-tonic-core/src/common/error.rs\<close>), the worker pool
  (\<^verbatim>\<open>server/pool/manager.rs\<close>), the coordinator that splits a request into chunks
  (\<^verbatim>\<open>server/streaming/coordinator.rs\<close>) and the service (\<^verbatim>\<open>server/service/handler.rs\<close>).

  The response channel to the client is a parameter \<open>send_resp\<close>: it takes a message and
  the channel's state to an error, if the client is gone, and the next state. A worker's
  channel holds one request and the coordinator waits for the answer of one worker before it
  asks the next, so that sending a request and receiving its messages is one step of the
  pool; the theory \<open>Server_Machine\<close> takes that step apart. A worker that has ended is
  \<open>None\<close>. A shutdown runs against time: what the other tasks do meanwhile is a parameter,
  \<open>shutdown_run\<close>, and the counter and the metrics they change are not followed there. The variant \<open>IdGeneration\<close> of the error type holds a value of an empty type and is
  left out, as is tracing; the metrics are those of the theory \<open>Telemetry\<close>.

  The second part states what the pool promises to the coordinator, as the locale
  \<open>chunk_dispatch\<close>, and interprets it on the pool of Snowflake workers.
\<close>

subsection \<open>Errors\<close>

datatype status_code = Internal | Cancelled | InvalidArgument | Unavailable

datatype status = Status status_code string

datatype server_error =
    ChannelError string
  | RequestCancelled
  | InvalidRequest string
  | ServiceShutdown

definition status_of_error :: "server_error \<Rightarrow> status" where
  "status_of_error err =
     (case err of
        ChannelError context \<Rightarrow> Status Internal (''Channel error: '' @ context)
      | RequestCancelled \<Rightarrow> Status Cancelled ''Request was cancelled''
      | InvalidRequest reason \<Rightarrow> Status InvalidArgument reason
      | ServiceShutdown \<Rightarrow> Status Unavailable ''Service is shutting down'')"

subsection \<open>Configuration\<close>

record cli_args =
  a_server_addr :: string
  a_max_allowed_ids :: usize
  a_shard_offset :: usize
  a_num_workers :: usize
  a_ids_per_chunk :: usize
  a_stream_buffer_size :: usize
  a_uds :: bool
  a_shutdown_timeout :: usize

record server_config =
  max_allowed_ids :: usize
  shard_offset :: usize
  num_workers :: usize
  ids_per_chunk :: usize
  stream_buffer_size :: usize
  chunk_bytes :: usize
  server_addr :: string
  uds :: bool
  shutdown_timeout :: usize

definition config_try_from :: "cli_args \<Rightarrow> string + server_config" where
  "config_try_from args =
     (let max_machine_id = (snow_max_machine_id SnowflakeId :: usize) + 1
      in if a_num_workers args = 0 then Inl ''NUM_WORKERS must be greater than 0''
         else if a_num_workers args > max_machine_id then
           Inl (''NUM_WORKERS ('' @ show_nat (unat (a_num_workers args)) @
                '') exceeds available Snowflake machine ID space (max = '' @
                show_nat (unat max_machine_id) @ '')'')
         else case checked_mul (a_ids_per_chunk args) (word_of_nat SNOWFLAKE_ID_SIZE) of
             None \<Rightarrow> Inl ''Overflow in chunk_bytes computation''
           | Some bytes \<Rightarrow>
               Inr \<lparr>max_allowed_ids = a_max_allowed_ids args, shard_offset = a_shard_offset args,
                    num_workers = a_num_workers args, ids_per_chunk = a_ids_per_chunk args,
                    stream_buffer_size = a_stream_buffer_size args, chunk_bytes = bytes,
                    server_addr = a_server_addr args, uds = a_uds args,
                    shutdown_timeout = a_shutdown_timeout args\<rparr>)"

subsection \<open>Worker pool\<close>

record 'g pool =
  workers :: "'g worker option list"
  next_worker :: usize
  cancelled :: bool
  pool_timeout :: usize

definition pool_new :: "'g worker option list \<Rightarrow> usize \<Rightarrow> 'g pool" where
  "pool_new ws timeout =
     \<lparr>workers = ws, next_worker = 0, cancelled = False, pool_timeout = timeout\<rparr>"

definition next_worker_index :: "'g pool \<Rightarrow> nat res \<times> 'g pool" where
  "next_worker_index p =
     (let n = next_worker p; p = p\<lparr>next_worker := n + 1\<rparr>
      in if length (workers p) = 0
         then (Inl (Panic ''attempt to calculate the remainder with a divisor of zero''), p)
         else (Inr (unat n mod length (workers p)), p))"

definition send_to_next_worker ::
  "('g \<Rightarrow> (u64 snowflake, u64) poll res \<times> 'g) \<Rightarrow> nat \<Rightarrow> work_request \<Rightarrow> 'g pool \<Rightarrow>
     ((server_error + bytes list) res \<times> 'g pool) option" where
  "send_to_next_worker poll_id cb work p =
     (if cancelled p then Some (Inr (Inl ServiceShutdown), p)
      else case next_worker_index p of
          (Inl panic, p) \<Rightarrow> Some (Inl panic, p)
        | (Inr worker_idx, p) \<Rightarrow>
            (case workers p ! worker_idx of
               None \<Rightarrow> Some (Inr (Inl (ChannelError
                         (''Worker '' @ show_nat worker_idx @ '' channel closed''))), p)
             | Some w \<Rightarrow>
                 (case worker_round poll_id cb work w of
                    None \<Rightarrow> None
                  | Some (msgs, w') \<Rightarrow>
                      Some (Inr (Inr msgs), p\<lparr>workers := (workers p)[worker_idx := w']\<rparr>))))"

text \<open>
  The first phase of \<open>shutdown\<close>: look at the counter of streams in flight, which is a function
  of the time in milliseconds, every 100 ms until it is zero or the grace period is over. The
  result says whether it drained, and when the phase ended.
\<close>

function drain_loop :: "(nat \<Rightarrow> u64) \<Rightarrow> nat \<Rightarrow> nat \<Rightarrow> bool \<times> nat" where
  "drain_loop get_streams_inflight deadline now =
     (if get_streams_inflight now > 0 then
        if now + 100 \<le> deadline then drain_loop get_streams_inflight deadline (now + 100)
        else (False, deadline)
      else (True, now))"
  by auto
termination by (relation "measure (\<lambda>(_, deadline, now). deadline - now)") auto

declare drain_loop.simps [simp del]

definition drain :: "(nat \<Rightarrow> u64) \<Rightarrow> 'g pool \<Rightarrow> bool \<times> nat" where
  "drain get_streams_inflight p = drain_loop get_streams_inflight (1000 * unat (pool_timeout p)) 0"

text \<open>
  What the other tasks do while \<open>shutdown\<close> runs, with times in milliseconds since its call: the
  counter of streams in flight at each time; for each worker how the send of its stop request ends
  (accepted or refused after a wait, or never, when the worker is stuck behind a full queue), when
  the sender of the acknowledgement is used or dropped, if ever, and what a worker has become that
  is still at work.
\<close>

datatype send_end = Accepted nat | Refused nat | Blocked

datatype answer = Acked nat | Dropped nat | Silent

record 'g shutdown_run =
  inflight_at :: "nat \<Rightarrow> u64"
  send_stop :: "nat \<Rightarrow> send_end"
  stop_answer :: "nat \<Rightarrow> answer"
  left_as :: "nat \<Rightarrow> 'g worker \<Rightarrow> 'g worker"

datatype ack_result = Acknowledged | SenderDropped | TimedOut

text \<open>The loop over the workers: the stop requests are sent one after the other, each waiting for room
  in the worker's queue. A worker that has ended refuses at once. The result lists the workers
  that accepted and the time after the last send; it is missing if one of the sends never ends.\<close>

fun notify :: "(nat \<Rightarrow> send_end) \<Rightarrow> nat \<Rightarrow> 'g worker option list \<Rightarrow> nat \<Rightarrow> (nat list \<times> nat) option" where
  "notify send i [] now = Some ([], now)"
| "notify send i (None # ws) now = notify send (Suc i) ws now"
| "notify send i (Some w # ws) now =
     (case send i of
        Refused d \<Rightarrow> notify send (Suc i) ws (now + d)
      | Accepted d \<Rightarrow>
          map_option (\<lambda>(shutdown_handles, t). (i # shutdown_handles, t)) (notify send (Suc i) ws (now + d))
      | Blocked \<Rightarrow> None)"

text \<open>\<open>timeout(Duration::from_secs(3), rx).await\<close>: the outcome and the time it is known.\<close>

definition await_ack :: "answer \<Rightarrow> nat \<Rightarrow> ack_result \<times> nat" where
  "await_ack rx now =
     (case rx of
        Acked t \<Rightarrow> if t \<le> now + 3000 then (Acknowledged, max now t) else (TimedOut, now + 3000)
      | Dropped t \<Rightarrow> if t \<le> now + 3000 then (SenderDropped, max now t) else (TimedOut, now + 3000)
      | Silent \<Rightarrow> (TimedOut, now + 3000))"

text \<open>\<open>join_all\<close>: every wait starts now, and it is over when the last of them is.\<close>

definition join_acks :: "(nat \<Rightarrow> answer) \<Rightarrow> nat list \<Rightarrow> nat \<Rightarrow> (nat \<times> ack_result) list \<times> nat" where
  "join_acks rx shutdown_handles now =
     (map (\<lambda>i. (i, fst (await_ack (rx i) now))) shutdown_handles,
      fold (\<lambda>i. max (snd (await_ack (rx i) now))) shutdown_handles now)"

text \<open>A worker after the shutdown. One that acknowledged has left its loop, one that refused the request or
  dropped the sender had ended before; one that let the time pass goes on.\<close>

definition stop_worker ::
  "'g shutdown_run \<Rightarrow> ('g \<Rightarrow> (u64 snowflake, u64) poll res \<times> 'g) \<Rightarrow> nat \<Rightarrow>
     (nat \<times> ack_result) list \<Rightarrow> nat \<Rightarrow> 'g worker option \<Rightarrow> 'g worker option" where
  "stop_worker run poll_id cb acks i ow =
     (case ow of
        None \<Rightarrow> None
      | Some w \<Rightarrow>
          (case map_of acks i of
             Some Acknowledged \<Rightarrow>
               (case worker_round poll_id cb Shutdown w of Some (_, ow') \<Rightarrow> ow' | None \<Rightarrow> Some w)
           | Some TimedOut \<Rightarrow> Some (left_as run i w)
           | Some SenderDropped \<Rightarrow> None
           | None \<Rightarrow> None))"

record shutdown_report =
  drained :: bool
  cancelled_at :: nat
  notified_at :: nat
  ended_at :: nat

text \<open>
  \<open>shutdown\<close> after it has raised the flag: drain, cancel, notify, await. The first component is its
  result with the times of its phases; it is missing if the call never returns, and then the
  pool is the one the cancellation left.
\<close>

definition pool_shutdown ::
  "'g shutdown_run \<Rightarrow> ('g \<Rightarrow> (u64 snowflake, u64) poll res \<times> 'g) \<Rightarrow> nat \<Rightarrow> 'g pool \<Rightarrow>
     ((server_error + unit) \<times> shutdown_report) option \<times> 'g pool" where
  "pool_shutdown run poll_id cb p =
     (let (drain_result, now) = drain (inflight_at run) p;
          p = p\<lparr>cancelled := True\<rparr>
      in case notify (send_stop run) 0 (workers p) now of
           None \<Rightarrow> (None, p)
         | Some (shutdown_handles, later) \<Rightarrow>
             let (acks, finished_at) = join_acks (stop_answer run) shutdown_handles later
             in (Some (Inr (), \<lparr>drained = drain_result, cancelled_at = now, notified_at = later, ended_at = finished_at\<rparr>),
                 p\<lparr>workers := map (\<lambda>(i, ow). stop_worker run poll_id cb acks i ow) (enumerate 0 (workers p))\<rparr>))"

subsection \<open>Coordinator\<close>

type_synonym message = "status + bytes"

fun forward ::
  "(message \<Rightarrow> 'r \<Rightarrow> string option \<times> 'r) \<Rightarrow> bytes list \<Rightarrow> 'r \<Rightarrow> string option \<times> 'r" where
  "forward send_resp [] r = (None, r)"
| "forward send_resp (m # ms) r =
     (case send_resp (Inr m) r of
        (Some e, r) \<Rightarrow> (Some e, r)
      | (None, r) \<Rightarrow> forward send_resp ms r)"

text \<open>
  One iteration of the coordinator's loop: the result of the function if it returns, or else the
  number of identifiers that remain.
\<close>

definition feed_step ::
  "(message \<Rightarrow> 'r \<Rightarrow> string option \<times> 'r) \<Rightarrow>
     (nat \<Rightarrow> 'p \<Rightarrow> ((server_error + bytes list) res \<times> 'p) option) \<Rightarrow> nat \<Rightarrow> nat \<Rightarrow> 'p \<Rightarrow> 'r \<Rightarrow>
     (((server_error + unit) res + nat) \<times> 'p \<times> 'r) option" where
  "feed_step send_resp dispatch per_chunk remaining p r =
     (let chunk_size = min remaining per_chunk;
          remaining = remaining - chunk_size
      in case dispatch chunk_size p of
           None \<Rightarrow> None
         | Some (Inl panic, p) \<Rightarrow> Some (Inl (Inl panic), p, r)
         | Some (Inr (Inr msgs), p) \<Rightarrow>
             (case forward send_resp msgs r of
                (Some e, r) \<Rightarrow>
                  Some (Inl (Inr (Inl (ChannelError (''Failed to forward chunk: '' @ e)))), p, r)
              | (None, r) \<Rightarrow> Some (Inr remaining, p, r))
         | Some (Inr (Inl e), p) \<Rightarrow>
             (let (_, r) = send_resp (Inl (status_of_error e)) r
              in Some (Inl (Inr (Inl e)), p, r)))"

partial_function (option) feed_loop ::
  "(message \<Rightarrow> 'r \<Rightarrow> string option \<times> 'r) \<Rightarrow>
     (nat \<Rightarrow> 'p \<Rightarrow> ((server_error + bytes list) res \<times> 'p) option) \<Rightarrow> nat \<Rightarrow> nat \<Rightarrow> 'p \<Rightarrow> 'r \<Rightarrow>
     ((server_error + unit) res \<times> 'p \<times> 'r) option" where
  "feed_loop send_resp dispatch per_chunk remaining p r =
     (if remaining > 0 then
        (case feed_step send_resp dispatch per_chunk remaining p r of
           None \<Rightarrow> None
         | Some (Inl outcome, p, r) \<Rightarrow> Some (outcome, p, r)
         | Some (Inr remaining, p, r) \<Rightarrow> feed_loop send_resp dispatch per_chunk remaining p r)
      else Some (Inr (Inr ()), p, r))"

definition feed_chunks ::
  "('g \<Rightarrow> (u64 snowflake, u64) poll res \<times> 'g) \<Rightarrow> (message \<Rightarrow> 'r \<Rightarrow> string option \<times> 'r) \<Rightarrow>
     nat \<Rightarrow> 'g pool \<Rightarrow> 'r \<Rightarrow> server_config \<Rightarrow>
     ((server_error + unit) res \<times> 'g pool \<times> 'r) option" where
  "feed_chunks poll_id send_resp total_ids worker_pool resp_tx config =
     feed_loop send_resp
       (\<lambda>chunk_size. send_to_next_worker poll_id (unat (chunk_bytes config)) (Stream chunk_size))
       (unat (ids_per_chunk config)) total_ids worker_pool resp_tx"

subsection \<open>Service\<close>

record 'g service =
  s_config :: server_config
  s_pool :: "'g pool"
  s_shutdown :: bool
  s_inflight :: u64
  s_metrics :: metrics

text \<open>
  The loop of \<open>IdService::new\<close> over the worker ids. The clones of the clock all read the shared
  ticker; here each worker has its own copy of the readings, which start alike. What is proved of
  several workers rests on their machine numbers and never on that coincidence.
\<close>

fun new_workers ::
  "build \<Rightarrow> server_config \<Rightarrow> 't \<Rightarrow> nat list \<Rightarrow>
     (u64 snowflake, 't) basic_snow_gen worker option list res" where
  "new_workers b config clock [] = Inr []"
| "new_workers b config clock (worker_id # rest) =
     and_then (rust_add b (shard_offset config) (word_of_nat worker_id)) (\<lambda>machine.
     and_then (basic_snow_new b SnowflakeId machine clock) (\<lambda>generator.
     map_ok (\<lambda>ws. Some (worker_start (unat (chunk_bytes config)) generator) # ws)
       (new_workers b config clock rest)))"

definition service_new ::
  "build \<Rightarrow> server_config \<Rightarrow> 't \<Rightarrow> metrics \<Rightarrow> (u64 snowflake, 't) basic_snow_gen service res" where
  "service_new b config clock metrics =
     map_ok (\<lambda>ws. \<lparr>s_config = config, s_pool = pool_new ws (shutdown_timeout config),
                  s_shutdown = False, s_inflight = 0, s_metrics = metrics\<rparr>)
       (new_workers b config clock [0..<unat (num_workers config)])"

text \<open>
  \<open>stream_ids\<close> in three parts: the checks and counters before the stream exists, the task that
  feeds it, and the counters after \<open>feed_chunks\<close> has returned, with the time the stream took.
\<close>

definition stream_accept :: "u64 \<Rightarrow> 'g service \<Rightarrow> (status + nat) \<times> 'g service" where
  "stream_accept count svc =
     (if s_shutdown svc then (Inl (status_of_error ServiceShutdown), svc)
      else
        let total_ids = unat count
        in if total_ids = 0 then
             (Inl (status_of_error (InvalidRequest ''Count must be greater than 0'')),
              svc\<lparr>s_metrics := increment_stream_errors_metric (s_metrics svc)\<rparr>)
           else if total_ids > unat (max_allowed_ids (s_config svc)) then
             (Inl (status_of_error (InvalidRequest
                (''Count '' @ show_nat total_ids @ '' exceeds maximum allowed ('' @
                 show_nat (unat (max_allowed_ids (s_config svc))) @ '')''))),
              svc\<lparr>s_metrics := increment_stream_errors_metric (s_metrics svc)\<rparr>)
           else
             let m = increment_requests_metric (s_metrics svc);
                 m = record_ids_per_request_metric count m;
                 svc = svc\<lparr>s_inflight := s_inflight svc + 1\<rparr>;
                 m = increment_streams_inflight_metric m
             in (Inr total_ids, svc\<lparr>s_metrics := m\<rparr>))"

definition stream_finish :: "int \<Rightarrow> 'g service \<Rightarrow> 'g service" where
  "stream_finish elapsed svc =
     (let svc = svc\<lparr>s_inflight := s_inflight svc - 1\<rparr>;
          m = decrement_streams_inflight_metric (s_metrics svc);
          m = record_stream_duration_metric elapsed m
      in svc\<lparr>s_metrics := m\<rparr>)"

lemma stream_finish_simps [simp]:
  "s_config (stream_finish elapsed svc) = s_config svc"
  "s_pool (stream_finish elapsed svc) = s_pool svc"
  "s_shutdown (stream_finish elapsed svc) = s_shutdown svc"
  "s_inflight (stream_finish elapsed svc) = s_inflight svc - 1"
  by (simp_all add: stream_finish_def Let_def)

text \<open>A request that is accepted: the checks passed, one more stream in flight.\<close>

lemma stream_acceptI:
  assumes "\<not> s_shutdown svc" and "0 < unat count"
    and "unat count \<le> unat (max_allowed_ids (s_config svc))"
  obtains m where "stream_accept count svc =
    (Inr (unat count), svc\<lparr>s_inflight := s_inflight svc + 1, s_metrics := m\<rparr>)"
  using assms by (simp add: stream_accept_def Let_def)

text \<open>
  The answer is a status or a stream, fed by \<open>feed_chunks\<close> in a task of its own; the model runs
  that task to its end. Creating the response channel is the parameter \<open>channel\<close>, which may
  panic. A panic of the task skips \<open>stream_finish\<close>.
\<close>

definition stream_ids ::
  "int \<Rightarrow> ('g \<Rightarrow> (u64 snowflake, u64) poll res \<times> 'g) \<Rightarrow> (usize \<Rightarrow> 'r res) \<Rightarrow>
     (message \<Rightarrow> 'r \<Rightarrow> string option \<times> 'r) \<Rightarrow> u64 \<Rightarrow> 'g service \<Rightarrow>
     ((status + (server_error + unit) res \<times> 'r) res \<times> 'g service) option" where
  "stream_ids elapsed poll_id channel send_resp count svc =
     (case stream_accept count svc of
        (Inl status, svc) \<Rightarrow> Some (Inr (Inl status), svc)
      | (Inr total_ids, svc) \<Rightarrow>
          (case channel (stream_buffer_size (s_config svc)) of
             Inl panic \<Rightarrow> Some (Inl panic, svc)
           | Inr resp_tx \<Rightarrow>
               (case feed_chunks poll_id send_resp total_ids (s_pool svc) resp_tx (s_config svc) of
                  None \<Rightarrow> None
                | Some (Inl panic, p, r) \<Rightarrow> Some (Inr (Inr (Inl panic, r)), svc\<lparr>s_pool := p\<rparr>)
                | Some (Inr outcome, p, r) \<Rightarrow>
                    Some (Inr (Inr (Inr outcome, r)),
                          stream_finish elapsed (svc\<lparr>s_pool := p\<rparr>)))))"

text \<open>The hooks \<open>inspect_ok\<close> and \<open>inspect_err\<close> of the stream, run for each item the client takes.\<close>

definition stream_inspect :: "message \<Rightarrow> 'g service \<Rightarrow> 'g service" where
  "stream_inspect item svc =
     (case item of
        Inr packed_ids \<Rightarrow> svc\<lparr>s_metrics := increment_ids_generated_metric
          (word_of_nat (length packed_ids div SNOWFLAKE_ID_SIZE)) (s_metrics svc)\<rparr>
      | Inl _ \<Rightarrow> svc\<lparr>s_metrics := increment_stream_errors_metric (s_metrics svc)\<rparr>)"

text \<open>\<open>set_global_shutdown\<close>, and the shutdown of the service.\<close>

definition set_global_shutdown :: "'g service \<Rightarrow> 'g service" where
  "set_global_shutdown svc = svc\<lparr>s_shutdown := True\<rparr>"

definition service_shutdown ::
  "'g shutdown_run \<Rightarrow> ('g \<Rightarrow> (u64 snowflake, u64) poll res \<times> 'g) \<Rightarrow> 'g service \<Rightarrow>
     ((server_error + unit) \<times> shutdown_report) option \<times> 'g service" where
  "service_shutdown run poll_id svc =
     (let svc = set_global_shutdown svc;
          (outcome, p) = pool_shutdown run poll_id (unat (chunk_bytes (s_config svc))) (s_pool svc)
      in (outcome, svc\<lparr>s_pool := p\<rparr>))"

subsection \<open>The client's side of the response channel\<close>

text \<open>A client that stays: its messages in the order of their arrival.\<close>

definition deliver :: "message \<Rightarrow> message list \<Rightarrow> string option \<times> message list" where
  "deliver m r = (None, r @ [m])"

subsection \<open>Splitting a request into chunks\<close>

text \<open>
  The contract between the coordinator and the pool: as long as the stock lasts, a request
  for at most \<open>per_chunk\<close> identifiers is answered by one message with that many identifiers,
  distinct and fresh, and afterwards they are not fresh any more.
\<close>

locale chunk_dispatch =
  fixes dispatch :: "nat \<Rightarrow> 'p \<Rightarrow> ((server_error + bytes list) res \<times> 'p) option"
    and stocked :: "nat \<Rightarrow> 'p \<Rightarrow> bool"
    and fresh :: "'p \<Rightarrow> u64 snowflake \<Rightarrow> bool"
    and per_chunk :: nat
  assumes serve: "stocked (k + n) p \<Longrightarrow> 0 < k \<Longrightarrow> k \<le> per_chunk \<Longrightarrow>
      \<exists>xs p'. dispatch k p = Some (Inr (Inr [pack_ids xs]), p') \<and> stocked n p' \<and>
        length xs = k \<and> distinct xs \<and> (\<forall>x \<in> set xs. fresh p x \<and> \<not> fresh p' x) \<and>
        (\<forall>x. fresh p' x \<longrightarrow> fresh p x)"
    and room: "0 < per_chunk"
begin

lemma feed_chunk:
  assumes "stocked (n + m) p" and "0 < n"
  obtains xs p' where "length xs = min n per_chunk" "distinct xs"
    "\<forall>x \<in> set xs. fresh p x \<and> \<not> fresh p' x" "\<forall>x. fresh p' x \<longrightarrow> fresh p x"
    "stocked (n - min n per_chunk + m) p'"
    "\<And>r. feed_loop deliver dispatch per_chunk n p r =
       feed_loop deliver dispatch per_chunk (n - min n per_chunk) p' (r @ [Inr (pack_ids xs)])"
proof -
  let ?k = "min n per_chunk"
  have "stocked (?k + (n - ?k + m)) p" "0 < ?k" "?k \<le> per_chunk"
    using assms room by (simp_all add: add.assoc [symmetric])
  then obtain xs p' where d: "dispatch ?k p = Some (Inr (Inr [pack_ids xs]), p')"
      and p': "length xs = ?k" "distinct xs" "\<forall>x \<in> set xs. fresh p x \<and> \<not> fresh p' x"
        "\<forall>x. fresh p' x \<longrightarrow> fresh p x" "stocked (n - ?k + m) p'"
    using serve by blast
  have "feed_loop deliver dispatch per_chunk n p r =
      feed_loop deliver dispatch per_chunk (n - ?k) p' (r @ [Inr (pack_ids xs)])" for r
    using assms(2) by (subst feed_loop.simps) (simp add: feed_step_def Let_def d deliver_def)
  with p' that show thesis by blast
qed

theorem feed_delivers:
  "stocked (n + m) p \<Longrightarrow> \<exists>xss p'. feed_loop deliver dispatch per_chunk n p r =
      Some (Inr (Inr ()), p', r @ map (\<lambda>xs. Inr (pack_ids xs)) xss) \<and>
    length (concat xss) = n \<and> distinct (concat xss) \<and>
    (\<forall>x \<in> set (concat xss). fresh p x \<and> \<not> fresh p' x) \<and> (\<forall>x. fresh p' x \<longrightarrow> fresh p x) \<and>
    (\<forall>xs \<in> set xss. 0 < length xs \<and> length xs \<le> per_chunk) \<and> stocked m p'"
proof (induction n arbitrary: p r rule: less_induct)
  case (less n)
  show ?case
  proof (cases "n = 0")
    case True
    then have "feed_loop deliver dispatch per_chunk n p r = Some (Inr (Inr ()), p, r)"
      by (subst feed_loop.simps) simp
    with less.prems True show ?thesis by (intro exI [of _ "[]"] exI [of _ p]) simp
  next
    case False
    then have "0 < n" by simp
    from feed_chunk [OF less.prems this] obtain xs q where
      q: "length xs = min n per_chunk" "distinct xs" "\<forall>x \<in> set xs. fresh p x \<and> \<not> fresh q x"
        "\<forall>x. fresh q x \<longrightarrow> fresh p x" "stocked (n - min n per_chunk + m) q"
      and step: "\<And>r. feed_loop deliver dispatch per_chunk n p r =
         feed_loop deliver dispatch per_chunk (n - min n per_chunk) q (r @ [Inr (pack_ids xs)])"
      by blast
    have "n - min n per_chunk < n" using \<open>0 < n\<close> room by simp
    from less.IH [OF this q(5), of "r @ [Inr (pack_ids xs)]"] obtain xss p' where
      rest: "feed_loop deliver dispatch per_chunk (n - min n per_chunk) q (r @ [Inr (pack_ids xs)]) =
          Some (Inr (Inr ()), p', (r @ [Inr (pack_ids xs)]) @ map (\<lambda>xs. Inr (pack_ids xs)) xss)"
        "length (concat xss) = n - min n per_chunk" "distinct (concat xss)"
        "\<forall>x \<in> set (concat xss). fresh q x \<and> \<not> fresh p' x" "\<forall>x. fresh p' x \<longrightarrow> fresh q x"
        "\<forall>xs \<in> set xss. 0 < length xs \<and> length xs \<le> per_chunk" "stocked m p'"
      by blast
    have "set xs \<inter> set (concat xss) = {}" using q(3) rest(4) by blast
    then have "distinct (concat (xs # xss))" using q(2) rest(3) by simp
    moreover have "length (concat (xs # xss)) = n" using q(1) rest(2) by simp
    moreover have "\<forall>x \<in> set (concat (xs # xss)). fresh p x \<and> \<not> fresh p' x"
      using q(3,4) rest(4,5) by auto
    moreover have "\<forall>ys \<in> set (xs # xss). 0 < length ys \<and> length ys \<le> per_chunk"
      using q(1) rest(6) \<open>0 < n\<close> room by (metis min_less_iff_conj min.cobounded2 set_ConsD)
    ultimately show ?thesis
      using step [of r] rest(1,5,7) q(4)
      by (intro exI [of _ "xs # xss"] exI [of _ p']) (simp del: concat.simps)
  qed
qed

end

text \<open>
  Several streams share the pool. Each worker serves one request at a time, so what the pool does
  for all of them is some sequence of requests, in the order in which they reach the workers.
\<close>

fun dispatch_all ::
  "(nat \<Rightarrow> 'p \<Rightarrow> ((server_error + bytes list) res \<times> 'p) option) \<Rightarrow> nat list \<Rightarrow> 'p \<Rightarrow>
     (bytes list list \<times> 'p) option" where
  "dispatch_all dispatch [] p = Some ([], p)"
| "dispatch_all dispatch (k # ks) p =
     (case dispatch k p of
        Some (Inr (Inr msgs), p) \<Rightarrow>
          map_option (\<lambda>(mss, p). (msgs # mss, p)) (dispatch_all dispatch ks p)
      | _ \<Rightarrow> None)"

context chunk_dispatch
begin

theorem dispatch_all_unique:
  "stocked (sum_list ks) p \<Longrightarrow> \<forall>k \<in> set ks. 0 < k \<and> k \<le> per_chunk \<Longrightarrow>
    \<exists>xss p'. dispatch_all dispatch ks p = Some (map (\<lambda>xs. [pack_ids xs]) xss, p') \<and>
      map length xss = ks \<and> distinct (concat xss) \<and>
      (\<forall>x \<in> set (concat xss). fresh p x \<and> \<not> fresh p' x) \<and> (\<forall>x. fresh p' x \<longrightarrow> fresh p x)"
proof (induction ks arbitrary: p)
  case Nil
  show ?case by (intro exI [of _ "[]"]) simp
next
  case (Cons k ks)
  obtain xs q where q: "dispatch k p = Some (Inr (Inr [pack_ids xs]), q)" "stocked (sum_list ks) q"
      "length xs = k" "distinct xs" "\<forall>x \<in> set xs. fresh p x \<and> \<not> fresh q x"
      "\<forall>x. fresh q x \<longrightarrow> fresh p x"
    using serve [of k "sum_list ks" p] Cons.prems by auto
  obtain xss p' where p': "dispatch_all dispatch ks q = Some (map (\<lambda>xs. [pack_ids xs]) xss, p')"
      "map length xss = ks" "distinct (concat xss)"
      "\<forall>x \<in> set (concat xss). fresh q x \<and> \<not> fresh p' x" "\<forall>x. fresh p' x \<longrightarrow> fresh q x"
    using Cons.IH [OF q(2)] Cons.prems(2) by auto
  have "set xs \<inter> set (concat xss) = {}" using q(5) p'(4) by blast
  then have "distinct (concat (xs # xss))" using q(4) p'(3) by simp
  moreover have "\<forall>x \<in> set (concat (xs # xss)). fresh p x \<and> \<not> fresh p' x"
    using q(5,6) p'(4,5) by auto
  ultimately show ?case
    using q(1,3,6) p'(1,2,5)
    by (intro exI [of _ "xs # xss"] exI [of _ p']) (simp del: concat.simps)
qed

end

text \<open>With a chunk size of zero the loop never gets anywhere.\<close>

lemma feed_loop_diverges:
  fixes send_resp :: "message \<Rightarrow> 'r \<Rightarrow> string option \<times> 'r"
  assumes "\<And>p. alive p \<Longrightarrow> \<exists>q. dispatch 0 p = Some (Inr (Inr []), q) \<and> alive q"
    and "alive p" and "0 < n"
  shows "feed_loop send_resp dispatch 0 n p r = None"
proof (rule ccontr)
  assume "feed_loop send_resp dispatch 0 n p r \<noteq> None"
  then obtain y where "feed_loop send_resp dispatch 0 n p r = Some y" by blast
  then have "\<not> (dispatch = dispatch \<and> (0 :: nat) = 0 \<and> 0 < n \<and> alive p)"
  proof (rule feed_loop.raw_induct [where P = "\<lambda>_ d k n p _ _.
        \<not> (d = dispatch \<and> k = 0 \<and> 0 < n \<and> alive p)", rotated])
    fix loop :: "(message \<Rightarrow> 'r \<Rightarrow> string option \<times> 'r) \<Rightarrow>
        (nat \<Rightarrow> 'a \<Rightarrow> ((server_error + bytes list) res \<times> 'a) option) \<Rightarrow> nat \<Rightarrow> nat \<Rightarrow> 'a \<Rightarrow> 'r \<Rightarrow>
        ((server_error + unit) res \<times> 'a \<times> 'r) option"
      and sr d k n p r y
    assume IH: "\<And>sr d k n p r y. loop sr d k n p r = Some y \<Longrightarrow>
        \<not> (d = dispatch \<and> k = 0 \<and> 0 < n \<and> alive p)"
      and body: "(if 0 < n then
        (case feed_step sr d k n p r of
           None \<Rightarrow> None
         | Some (Inl outcome, p, r) \<Rightarrow> Some (outcome, p, r)
         | Some (Inr remaining, p, r) \<Rightarrow> loop sr d k remaining p r)
        else Some (Inr (Inr ()), p, r)) = Some y"
    show "\<not> (d = dispatch \<and> k = 0 \<and> 0 < n \<and> alive p)"
    proof
      assume a: "d = dispatch \<and> k = 0 \<and> 0 < n \<and> alive p"
      then obtain q where "dispatch 0 p = Some (Inr (Inr []), q)" "alive q"
        using assms(1) by blast
      with a body IH [of sr d k n q r y] show False by (simp add: feed_step_def Let_def)
    qed
  qed
  with assms(2,3) show False by simp
qed

subsection \<open>The pool as a source of chunks\<close>

text \<open>
  A pool whose worker \<open>i\<close> runs the generator of machine \<open>off + i\<close>: what a worker must be
  able to do for \<open>n\<close> more identifiers, and which identifiers it has not handed out yet.
\<close>

definition worker_stocked ::
  "('t \<Rightarrow> u64 \<times> 't) \<Rightarrow> build \<Rightarrow> nat \<Rightarrow> u64 \<Rightarrow> nat \<Rightarrow>
     (u64 snowflake, 't) basic_snow_gen worker option \<Rightarrow> bool" where
  "worker_stocked cm b cb m n ow \<longleftrightarrow>
     (case ow of
        None \<Rightarrow> False
      | Some w \<Rightarrow> worker_ok cb w \<and>
          snow_gen_inv cm b SnowflakeId m (bs_state (w_gen w)) (bs_time (w_gen w)) \<and>
          collect (basic_snow_poll_id cm b SnowflakeId) n (w_gen w) \<noteq> None)"

definition pool_stocked ::
  "('t \<Rightarrow> u64 \<times> 't) \<Rightarrow> build \<Rightarrow> nat \<Rightarrow> u64 \<Rightarrow> nat \<Rightarrow> (u64 snowflake, 't) basic_snow_gen pool \<Rightarrow> bool"
  where
  "pool_stocked cm b cb off n p \<longleftrightarrow>
     \<not> cancelled p \<and> 0 < length (workers p) \<and> unat off + length (workers p) \<le> 1024 \<and>
     (\<forall>i < length (workers p). worker_stocked cm b cb (off + word_of_nat i) n (workers p ! i))"

definition worker_fresh ::
  "u64 \<Rightarrow> (u64 snowflake, 't) basic_snow_gen worker option \<Rightarrow> u64 snowflake \<Rightarrow> bool" where
  "worker_fresh m ow x \<longleftrightarrow>
     (case ow of
        None \<Rightarrow> False
      | Some w \<Rightarrow> snow_machine_id SnowflakeId x = m \<and> bs_state (w_gen w) < x)"

definition pool_fresh ::
  "u64 \<Rightarrow> (u64 snowflake, 't) basic_snow_gen pool \<Rightarrow> u64 snowflake \<Rightarrow> bool" where
  "pool_fresh off p x \<longleftrightarrow>
     (\<exists>i < length (workers p). worker_fresh (off + word_of_nat i) (workers p ! i) x)"

lemma server_layout_wf: "layout_wf TYPE(64) SnowflakeId"
  by (simp add: SnowflakeId_def twitter_wf)

lemma worker_stocked_less:
  assumes "worker_stocked cm b cb m (k + n) ow"
  shows "worker_stocked cm b cb m n ow"
  using assms collect_less [of "basic_snow_poll_id cm b SnowflakeId" k n]
  by (auto simp: worker_stocked_def simp del: not_None_eq split: option.splits)

text \<open>One request to one worker.\<close>

lemma worker_serves:
  assumes "worker_stocked cm b cb m (k + n) (Some w)" and "0 < k" and "8 * k \<le> cb"
  obtains xs w' where
    "worker_round (basic_snow_poll_id cm b SnowflakeId) cb (Stream k) w =
       Some ([pack_ids xs], Some w')"
    "worker_stocked cm b cb m n (Some w')" "length xs = k" "distinct xs"
    "\<forall>x \<in> set xs. worker_fresh m (Some w) x \<and> \<not> worker_fresh m (Some w') x"
    "\<forall>x. worker_fresh m (Some w') x \<longrightarrow> worker_fresh m (Some w) x"
proof -
  let ?poll = "basic_snow_poll_id cm b SnowflakeId"
  have ok: "worker_ok cb w"
    and inv: "snow_gen_inv cm b SnowflakeId m (bs_state (w_gen w)) (bs_time (w_gen w))"
    and "collect ?poll (k + n) (w_gen w) \<noteq> None"
    using assms(1) by (simp_all add: worker_stocked_def)
  then obtain xs h where xs: "collect ?poll k (w_gen w) = Some (xs, h)"
      "collect ?poll n h \<noteq> None"
    unfolding collect_append by (auto split: option.splits)
  obtain w' where w': "worker_round ?poll cb (Stream k) w = Some ([pack_ids xs], Some w')"
      "worker_ok cb w'" "w_gen w' = h"
    by (rule worker_round_stream [OF ok assms(3,2) xs(1)])
  note c = basic_snow_collect [OF server_layout_wf inv xs(1)]
  have le: "bs_state (w_gen w) \<le> bs_state h" "\<forall>x \<in> set xs. x \<le> bs_state h"
    using strict_sorted_last [OF c(2)] by (simp_all add: c(3))
  show thesis
  proof (rule that [OF w'(1)])
    show "worker_stocked cm b cb m n (Some w')"
      using w'(2,3) c(1) xs(2) by (simp add: worker_stocked_def)
    show "distinct xs" using c(2) by (simp add: strict_sorted_iff)
    show "length xs = k" by (rule collect_length [OF xs(1)])
    show "\<forall>x \<in> set xs. worker_fresh m (Some w) x \<and> \<not> worker_fresh m (Some w') x"
      using c(2,4) le(2) w'(3) by (auto simp: worker_fresh_def not_less)
    show "\<forall>x. worker_fresh m (Some w') x \<longrightarrow> worker_fresh m (Some w) x"
      using le(1) w'(3) by (auto simp: worker_fresh_def)
  qed
qed

text \<open>The machine numbers of a pool are different as long as they fit their field.\<close>

lemma machine_ids_distinct:
  fixes off :: u64
  assumes "unat off + n \<le> 1024" and "i < n" and "j < n" and "i \<noteq> j"
  shows "off + word_of_nat i \<noteq> off + word_of_nat j"
proof -
  have "unat (word_of_nat k :: u64) = k" if "k < n" for k
    using that assms(1) by (simp add: unat_of_nat)
  with assms(2-4) show ?thesis by (metis add_left_cancel)
qed

lemma next_worker_index_ok:
  assumes "0 < length (workers p)"
  shows "next_worker_index p =
    (Inr (unat (next_worker p) mod length (workers p)), p\<lparr>next_worker := next_worker p + 1\<rparr>)"
  using assms by (simp add: next_worker_index_def Let_def)

text \<open>One worker of the pool replaced by what it is after a request.\<close>

lemma pool_stocked_update:
  assumes "pool_stocked cm b cb off (k + n) p" and "i < length (workers p)"
    and "worker_stocked cm b cb (off + word_of_nat i) n (Some w')"
    and "workers q = (workers p)[i := Some w']" and "cancelled q = cancelled p"
  shows "pool_stocked cm b cb off n q"
  using assms worker_stocked_less [of cm b cb _ k n]
  by (auto simp: pool_stocked_def nth_list_update)

lemma pool_fresh_update:
  assumes "pool_stocked cm b cb off n p" and "i < length (workers p)"
    and "workers p ! i = Some w" and "workers q = (workers p)[i := Some w']"
    and "\<forall>x. worker_fresh (off + word_of_nat i) (Some w') x \<longrightarrow> worker_fresh (off + word_of_nat i) (Some w) x"
  shows "pool_fresh off q x \<Longrightarrow> pool_fresh off p x"
    and "worker_fresh (off + word_of_nat i) (Some w) x \<Longrightarrow> pool_fresh off p x"
    and "worker_fresh (off + word_of_nat i) (Some w) x \<Longrightarrow>
      \<not> worker_fresh (off + word_of_nat i) (Some w') x \<Longrightarrow> \<not> pool_fresh off q x"
proof -
  show "pool_fresh off p x" if "pool_fresh off q x"
    using that assms(2-5) by (auto simp: pool_fresh_def nth_list_update split: if_splits)
  show "pool_fresh off p x" if "worker_fresh (off + word_of_nat i) (Some w) x"
    using that assms(2,3) by (auto simp: pool_fresh_def)
  have fits: "unat off + length (workers p) \<le> 1024"
    using assms(1) by (simp add: pool_stocked_def)
  show "\<not> pool_fresh off q x" if w: "worker_fresh (off + word_of_nat i) (Some w) x"
    and w': "\<not> worker_fresh (off + word_of_nat i) (Some w') x"
  proof
    assume "pool_fresh off q x"
    then obtain j where j: "j < length (workers p)" "j \<noteq> i"
        "worker_fresh (off + word_of_nat j) (workers p ! j) x"
      using w' assms(2,4) by (auto simp: pool_fresh_def nth_list_update split: if_splits)
    then have "off + word_of_nat j = off + word_of_nat i"
      using w by (simp add: worker_fresh_def split: option.splits)
    then show False using machine_ids_distinct [OF fits j(1) assms(2) j(2)] by simp
  qed
qed

lemma pool_serves:
  assumes "pool_stocked cm b cb off (k + n) p" and "0 < k" and "8 * k \<le> cb"
  shows "\<exists>xs p'. send_to_next_worker (basic_snow_poll_id cm b SnowflakeId) cb (Stream k) p =
      Some (Inr (Inr [pack_ids xs]), p') \<and> pool_stocked cm b cb off n p' \<and>
    length xs = k \<and> distinct xs \<and> (\<forall>x \<in> set xs. pool_fresh off p x \<and> \<not> pool_fresh off p' x) \<and>
    (\<forall>x. pool_fresh off p' x \<longrightarrow> pool_fresh off p x)"
proof -
  let ?i = "unat (next_worker p) mod length (workers p)"
  have p: "\<not> cancelled p" "0 < length (workers p)"
    using assms(1) by (simp_all add: pool_stocked_def)
  then have i: "?i < length (workers p)" by simp
  then have st: "worker_stocked cm b cb (off + word_of_nat ?i) (k + n) (workers p ! ?i)"
    using assms(1) by (simp add: pool_stocked_def)
  then obtain w where w: "workers p ! ?i = Some w" by (auto simp: worker_stocked_def split: option.splits)
  obtain xs w' where r:
      "worker_round (basic_snow_poll_id cm b SnowflakeId) cb (Stream k) w = Some ([pack_ids xs], Some w')"
      "worker_stocked cm b cb (off + word_of_nat ?i) n (Some w')" "length xs = k" "distinct xs"
      "\<forall>x \<in> set xs. worker_fresh (off + word_of_nat ?i) (Some w) x \<and>
         \<not> worker_fresh (off + word_of_nat ?i) (Some w') x"
      "\<forall>x. worker_fresh (off + word_of_nat ?i) (Some w') x \<longrightarrow>
         worker_fresh (off + word_of_nat ?i) (Some w) x"
    by (rule worker_serves [OF st [unfolded w] assms(2,3)])
  let ?q = "p\<lparr>next_worker := next_worker p + 1, workers := (workers p)[?i := Some w']\<rparr>"
  have "send_to_next_worker (basic_snow_poll_id cm b SnowflakeId) cb (Stream k) p =
      Some (Inr (Inr [pack_ids xs]), ?q)"
    using p by (simp add: send_to_next_worker_def next_worker_index_ok w r(1))
  moreover have "pool_stocked cm b cb off n ?q"
    by (rule pool_stocked_update [OF assms(1) i r(2)]) simp_all
  moreover note pool_fresh_update [OF assms(1) i w _ r(6), of ?q]
  ultimately show ?thesis using r(3-5) by fastforce
qed

interpretation pool_dispatch: chunk_dispatch
  "\<lambda>k. send_to_next_worker (basic_snow_poll_id cm b SnowflakeId) (8 * Suc j) (Stream k)"
  "pool_stocked cm b (8 * Suc j) off" "pool_fresh off" "Suc j"
  for cm b off j
  by unfold_locales (auto intro: pool_serves)

end
