(* ===== verification/Stream_Service.thy ===== *)
theory Stream_Service
  imports Stream_Server
begin

text \<open>
  The service as a whole: what an accepted configuration guarantees and what it does not, which
  machine numbers the workers get, what a client receives for a request, which requests are
  refused, how the counter of streams in flight and a shutdown behave. The definitions are those
  of the theory \<open>Stream_Server\<close>; the delivery of identifiers rests on the interpretation
  \<open>pool_dispatch\<close> of the contract between coordinator and pool.
\<close>

subsection \<open>Configuration\<close>

lemma server_bits: "timestamp_bits SnowflakeId = 41" "machine_bits SnowflakeId = 10"
    "sequence_bits SnowflakeId = 12"
  by (simp_all add: SnowflakeId_def SnowflakeTwitterId_def)

lemma max_machines: "unat ((snow_max_machine_id SnowflakeId :: usize) + 1) = 1024"
  by code_simp

lemma config_cases:
  "config_try_from args =
     (if a_num_workers args = 0 then Inl ''NUM_WORKERS must be greater than 0''
      else if 1024 < unat (a_num_workers args) then
        Inl (''NUM_WORKERS ('' @ show_nat (unat (a_num_workers args)) @
             '') exceeds available Snowflake machine ID space (max = '' @ show_nat 1024 @ '')'')
      else if 2 ^ 64 \<le> 8 * unat (a_ids_per_chunk args) then Inl ''Overflow in chunk_bytes computation''
      else Inr \<lparr>max_allowed_ids = a_max_allowed_ids args, shard_offset = a_shard_offset args,
             num_workers = a_num_workers args, ids_per_chunk = a_ids_per_chunk args,
             stream_buffer_size = a_stream_buffer_size args, chunk_bytes = 8 * a_ids_per_chunk args,
             server_addr = a_server_addr args, uds = a_uds args,
             shutdown_timeout = a_shutdown_timeout args\<rparr>)"
  by (simp add: config_try_from_def Let_def word_less_nat_alt max_machines checked_mul_def
      SNOWFLAKE_ID_SIZE_def mult.commute not_less)

lemma config_ok:
  assumes "config_try_from args = Inr c"
  shows "0 < unat (num_workers c)" and "unat (num_workers c) \<le> 1024"
    and "unat (chunk_bytes c) = 8 * unat (ids_per_chunk c)"
  using assms
  by (auto simp: config_cases unat_gt_0 unat_mult_lem [THEN iffD1] split: if_splits)

subsection \<open>Workers of a new service\<close>

text \<open>The generator of one worker, if it can be made.\<close>

definition worker_gen ::
  "build \<Rightarrow> server_config \<Rightarrow> 't \<Rightarrow> nat \<Rightarrow> (u64 snowflake, 't) basic_snow_gen res" where
  "worker_gen b config clock i =
     and_then (rust_add b (shard_offset config) (word_of_nat i)) (\<lambda>machine.
       basic_snow_new b SnowflakeId machine clock)"

lemma new_workers_is_ok:
  "is_ok (new_workers b c clock js) \<longleftrightarrow> (\<forall>i \<in> set js. is_ok (worker_gen b c clock i))"
  by (induction js) (auto simp: worker_gen_def is_ok_iff map_ok_eq_Inr_iff and_then_eq_Inr_iff)

lemma new_workers_map:
  assumes "\<And>i. i \<in> set js \<Longrightarrow> worker_gen b c clock i = Inr (f i)"
  shows "new_workers b c clock js =
    Inr (map (\<lambda>i. Some (worker_start (unat (chunk_bytes c)) (f i))) js)"
  using assms
proof (induction js)
  case (Cons i js)
  from Cons.prems [of i] obtain machine where
    "rust_add b (shard_offset c) (word_of_nat i) = Inr machine"
    "basic_snow_new b SnowflakeId machine clock = Inr (f i)"
    by (auto simp: worker_gen_def and_then_eq_Inr_iff)
  with Cons show ?case by simp
qed simp

text \<open>A generator of machine \<open>m\<close> in the two builds.\<close>

lemma basic_snow_new_server:
  fixes m :: u64
  shows "is_ok (basic_snow_new Debug SnowflakeId m clock) \<longleftrightarrow> unat m < 1024"
    and "unat m < 1024 \<Longrightarrow>
      basic_snow_new Debug SnowflakeId m clock = basic_snow_new Release SnowflakeId m clock"
    and "\<exists>g. basic_snow_new Release SnowflakeId m clock = Inr g \<and>
      unat (snow_machine_id SnowflakeId (bs_state g)) = unat m mod 1024"
proof -
  note wf = wf_snowflake_layoutI [OF server_layout_wf]
  obtain x where x: "snow_from_components Release SnowflakeId 0 m 0 = Inr x"
    by (rule wf_snowflake_layout.from_components_Release [OF wf])
  note d = wf_snowflake_layout.from_components_Debug [OF wf, of 0 m 0]
  show "is_ok (basic_snow_new Debug SnowflakeId m clock) \<longleftrightarrow> unat m < 1024"
    and "unat m < 1024 \<Longrightarrow>
      basic_snow_new Debug SnowflakeId m clock = basic_snow_new Release SnowflakeId m clock"
    by (simp_all add: basic_snow_new_def basic_snow_from_components_def d x server_bits)
  show "\<exists>g. basic_snow_new Release SnowflakeId m clock = Inr g \<and>
      unat (snow_machine_id SnowflakeId (bs_state g)) = unat m mod 1024"
    using x wf_snowflake_layout.fields_of_value [OF wf
        wf_snowflake_layout.raw_from_components [OF wf x]]
    by (simp add: basic_snow_new_def basic_snow_from_components_def server_bits)
qed

lemma worker_gen_builds:
  assumes "i < 1024"
  shows "is_ok (worker_gen Debug c clock i) \<longleftrightarrow> unat (shard_offset c) + i < 1024"
    and "unat (shard_offset c) + i < 1024 \<Longrightarrow> worker_gen Debug c clock i = worker_gen Release c clock i"
    and "\<exists>g. worker_gen Release c clock i = Inr g \<and>
      unat (snow_machine_id SnowflakeId (bs_state g)) = (unat (shard_offset c) + i) mod 1024"
proof -
  have i: "unat (word_of_nat i :: u64) = i" using assms by (simp add: unat_of_nat)
  have sum: "unat (shard_offset c + word_of_nat i) = (unat (shard_offset c) + i) mod 2 ^ 64"
    by (simp add: unat_word_ariths i)
  show "is_ok (worker_gen Debug c clock i) \<longleftrightarrow> unat (shard_offset c) + i < 1024"
    by (auto simp: worker_gen_def rust_add_def i sum basic_snow_new_server(1))
  show "worker_gen Debug c clock i = worker_gen Release c clock i"
    if "unat (shard_offset c) + i < 1024"
    using that by (simp add: worker_gen_def rust_add_def i sum basic_snow_new_server(2))
  have "(unat (shard_offset c) + i) mod 2 ^ 64 mod 1024 = (unat (shard_offset c) + i) mod 1024"
    by (rule mod_mod_cancel) simp
  then show "\<exists>g. worker_gen Release c clock i = Inr g \<and>
      unat (snow_machine_id SnowflakeId (bs_state g)) = (unat (shard_offset c) + i) mod 1024"
    using basic_snow_new_server(3) [of "shard_offset c + word_of_nat i" clock]
    by (simp add: worker_gen_def sum)
qed

lemma service_new_workers:
  assumes "\<And>i. i < unat (num_workers c) \<Longrightarrow> worker_gen b c clock i = Inr (f i)"
  shows "service_new b c clock mt =
    Inr \<lparr>s_config = c, s_pool = pool_new
           (map (\<lambda>i. Some (worker_start (unat (chunk_bytes c)) (f i))) [0..<unat (num_workers c)])
           (shutdown_timeout c), s_shutdown = False, s_inflight = 0, s_metrics = mt\<rparr>"
  using new_workers_map [of "[0..<unat (num_workers c)]" b c clock f] assms
  by (simp add: service_new_def)

lemma service_new_is_ok:
  "is_ok (service_new b c clock mt) \<longleftrightarrow>
     (\<forall>i < unat (num_workers c). is_ok (worker_gen b c clock i))"
  by (auto simp: service_new_def new_workers_is_ok)

lemma service_new_ok:
  assumes "config_try_from args = Inr c" and "unat (shard_offset c) + unat (num_workers c) \<le> 1024"
  obtains svc where "service_new b c clock mt = Inr svc"
proof -
  have "is_ok (worker_gen b c clock i)" if "i < unat (num_workers c)" for i
    using that assms(2) config_ok(2) [OF assms(1)] worker_gen_builds [of i c clock]
    by (cases b) (auto simp: is_ok_iff)
  then show thesis using that service_new_is_ok [of b c clock mt] by (auto simp: is_ok_iff)
qed

lemma worker_gen_inv:
  assumes "unat (shard_offset c) + i < 1024" and "b = Debug \<or> always_below cm (2 ^ 41) clock"
    and "worker_gen b c clock i = Inr g"
  shows "snow_gen_inv cm b SnowflakeId (shard_offset c + word_of_nat i) (bs_state g) (bs_time g)"
proof -
  have i: "unat (word_of_nat i :: u64) = i" using assms(1) by (simp add: unat_of_nat)
  have sum: "unat (shard_offset c + word_of_nat i) = unat (shard_offset c) + i"
    using assms(1) by (simp add: unat_word_ariths i)
  have "shard_offset c + word_of_nat i \<le> snow_max_machine_id SnowflakeId"
    using assms(1) wf_snowflake_layout.in_range_iff [OF wf_snowflake_layoutI [OF server_layout_wf]]
    by (simp add: snow_max_machine_id_def server_bits sum)
  then obtain h where
    "basic_snow_new b SnowflakeId (shard_offset c + word_of_nat i) clock = Inr h"
    "snow_gen_inv cm b SnowflakeId (shard_offset c + word_of_nat i) (bs_state h) (bs_time h)"
    by (rule basic_snow_new_inv [OF server_layout_wf, of _ b cm clock])
      (use assms(2) in \<open>auto simp: server_bits\<close>)
  with assms(3) show ?thesis
    by (auto simp: worker_gen_def rust_add_def split: if_splits)
qed

text \<open>A new service can serve what the generators of its workers can produce.\<close>

lemma service_new_stocked:
  assumes "config_try_from args = Inr c" and "unat (shard_offset c) + unat (num_workers c) \<le> 1024"
    and "b = Debug \<or> always_below cm (2 ^ 41) clock" and "service_new b c clock mt = Inr svc"
    and "\<And>i g. i < unat (num_workers c) \<Longrightarrow> worker_gen b c clock i = Inr g \<Longrightarrow>
      collect (basic_snow_poll_id cm b SnowflakeId) n g \<noteq> None"
  shows "pool_stocked cm b (unat (chunk_bytes c)) (shard_offset c) n (s_pool svc)"
    and "s_config svc = c" and "\<not> s_shutdown svc" and "s_inflight svc = 0"
proof -
  have ok: "is_ok (service_new b c clock mt)" by (simp add: assms(4))
  have "\<forall>i < unat (num_workers c). \<exists>g. worker_gen b c clock i = Inr g"
    using ok [unfolded service_new_is_ok] by (simp add: is_ok_iff)
  then obtain f where f: "\<And>i. i < unat (num_workers c) \<Longrightarrow> worker_gen b c clock i = Inr (f i)"
    by metis
  from service_new_workers [OF f] assms(4) have svc: "svc = \<lparr>s_config = c, s_pool = pool_new
      (map (\<lambda>i. Some (worker_start (unat (chunk_bytes c)) (f i))) [0..<unat (num_workers c)])
      (shutdown_timeout c), s_shutdown = False, s_inflight = 0, s_metrics = mt\<rparr>" by simp
  then show "s_config svc = c" "\<not> s_shutdown svc" "s_inflight svc = 0" by simp_all
  have "worker_stocked cm b (unat (chunk_bytes c)) (shard_offset c + word_of_nat i) n
      (Some (worker_start (unat (chunk_bytes c)) (f i)))" if "i < unat (num_workers c)" for i
    using that worker_gen_inv [OF _ assms(3) f [OF that]] assms(5) [OF that f [OF that]] assms(2)
    by (simp add: worker_stocked_def worker_start_ok) (simp add: worker_start_def)
  with config_ok(1) [OF assms(1)] assms(2)
  show "pool_stocked cm b (unat (chunk_bytes c)) (shard_offset c) n (s_pool svc)"
    by (simp add: svc pool_new_def pool_stocked_def)
qed

text \<open>A small service for the witnesses: two workers for machines 5 and 6, two identifiers per
  chunk, and a clock that ticks with every reading.\<close>

definition demo_args :: cli_args where
  "demo_args = \<lparr>a_server_addr = ''127.0.0.1:50051'', a_max_allowed_ids = 100, a_shard_offset = 5,
     a_num_workers = 2, a_ids_per_chunk = 2, a_stream_buffer_size = 8, a_uds = False,
     a_shutdown_timeout = 3\<rparr>"

definition demo_clock :: "u64 \<Rightarrow> u64 \<times> u64" where
  "demo_clock k = (k, k + 1)"

definition demo_config :: server_config where
  "demo_config = \<lparr>max_allowed_ids = 100, shard_offset = 5, num_workers = 2, ids_per_chunk = 2,
     stream_buffer_size = 8, chunk_bytes = 16, server_addr = ''127.0.0.1:50051'', uds = False,
     shutdown_timeout = 3\<rparr>"

lemma demo_config: "config_try_from demo_args = Inr demo_config"
  by (simp add: config_cases demo_args_def demo_config_def)

lemma demo_collect:
  assumes "i < 2" and "worker_gen Debug demo_config (1 :: u64) i = Inr g"
  shows "collect (basic_snow_poll_id demo_clock Debug SnowflakeId) 3 g \<noteq> None"
proof -
  let ?poll = "basic_snow_poll_id demo_clock Debug SnowflakeId"
  have five: "?poll \<lparr>bs_state = Snowflake 20480, bs_time = 1\<rparr> =
        (Inr (Ready (Snowflake 4214784)), \<lparr>bs_state = Snowflake 4214784, bs_time = 2\<rparr>)"
    "?poll \<lparr>bs_state = Snowflake 4214784, bs_time = 2\<rparr> =
        (Inr (Ready (Snowflake 8409088)), \<lparr>bs_state = Snowflake 8409088, bs_time = 3\<rparr>)"
    "?poll \<lparr>bs_state = Snowflake 8409088, bs_time = 3\<rparr> =
        (Inr (Ready (Snowflake 12603392)), \<lparr>bs_state = Snowflake 12603392, bs_time = 4\<rparr>)"
    by code_simp+
  have six: "?poll \<lparr>bs_state = Snowflake 24576, bs_time = 1\<rparr> =
        (Inr (Ready (Snowflake 4218880)), \<lparr>bs_state = Snowflake 4218880, bs_time = 2\<rparr>)"
    "?poll \<lparr>bs_state = Snowflake 4218880, bs_time = 2\<rparr> =
        (Inr (Ready (Snowflake 8413184)), \<lparr>bs_state = Snowflake 8413184, bs_time = 3\<rparr>)"
    "?poll \<lparr>bs_state = Snowflake 8413184, bs_time = 3\<rparr> =
        (Inr (Ready (Snowflake 12607488)), \<lparr>bs_state = Snowflake 12607488, bs_time = 4\<rparr>)"
    by code_simp+
  have new: "basic_snow_new Debug SnowflakeId (5 :: u64) (1 :: u64) = Inr \<lparr>bs_state = Snowflake 20480, bs_time = 1\<rparr>"
    "basic_snow_new Debug SnowflakeId (6 :: u64) (1 :: u64) = Inr \<lparr>bs_state = Snowflake 24576, bs_time = 1\<rparr>"
    by code_simp+
  have "worker_gen Debug demo_config (1 :: u64) 0 = Inr \<lparr>bs_state = Snowflake 20480, bs_time = 1\<rparr>"
    "worker_gen Debug demo_config (1 :: u64) (Suc 0) = Inr \<lparr>bs_state = Snowflake 24576, bs_time = 1\<rparr>"
    using new by (simp_all add: worker_gen_def demo_config_def rust_add_def)
  with assms consider "g = \<lparr>bs_state = Snowflake 20480, bs_time = 1\<rparr>"
    | "g = \<lparr>bs_state = Snowflake 24576, bs_time = 1\<rparr>"
    by (auto simp: less_2_cases_iff)
  then show ?thesis
    by cases (simp_all add: numeral_3_eq_3 five six next_loop_now [of ?poll])
qed

lemma demo_service:
  obtains svc where "service_new Debug demo_config (1 :: u64) mt = Inr svc"
    "s_config svc = demo_config" "\<not> s_shutdown svc" "s_inflight svc = 0"
    "pool_stocked demo_clock Debug (unat (chunk_bytes demo_config)) (shard_offset demo_config) 3
       (s_pool svc)"
proof -
  have fits: "unat (shard_offset demo_config) + unat (num_workers demo_config) \<le> 1024"
    by (simp add: demo_config_def)
  have "is_ok (service_new Debug demo_config (1 :: u64) mt)"
    unfolding service_new_is_ok
    by (auto simp: worker_gen_builds(1) demo_config_def)
  then obtain svc where svc: "service_new Debug demo_config (1 :: u64) mt = Inr svc"
    unfolding is_ok_iff by blast
  have "collect (basic_snow_poll_id demo_clock Debug SnowflakeId) 3 g \<noteq> None"
    if "i < unat (num_workers demo_config)" "worker_gen Debug demo_config (1 :: u64) i = Inr g" for i g
    using that by (intro demo_collect [of i]) (simp_all add: demo_config_def)
  from service_new_stocked [OF demo_config fits _ svc this] that [OF svc] show thesis by simp
qed

subsection \<open>Properties\<close>

text \<open>\<open>ServerConfig::try_from\<close> accepts exactly the settings with 1 to 1024 workers and a
  chunk whose byte size fits a machine word; then \<open>chunk_bytes\<close> is eight bytes per identifier,
  without wrap-around, and the settings are passed on unchanged. It looks at neither
  \<open>shard_offset\<close> nor a chunk size of zero.\<close>

lemma config_bounds:
  "case config_try_from args of
     Inr c \<Rightarrow> 0 < unat (a_num_workers args) \<and> unat (a_num_workers args) \<le> 1024 \<and>
       8 * unat (a_ids_per_chunk args) < 2 ^ 64 \<and>
       unat (chunk_bytes c) = 8 * unat (ids_per_chunk c) \<and>
       num_workers c = a_num_workers args \<and> ids_per_chunk c = a_ids_per_chunk args \<and>
       shard_offset c = a_shard_offset args \<and> max_allowed_ids c = a_max_allowed_ids args \<and>
       stream_buffer_size c = a_stream_buffer_size args \<and> shutdown_timeout c = a_shutdown_timeout args
   | Inl e \<Rightarrow> unat (a_num_workers args) = 0 \<or> 1024 < unat (a_num_workers args) \<or>
       2 ^ 64 \<le> 8 * unat (a_ids_per_chunk args)"
proof (cases "config_try_from args")
  case (Inl e)
  then show ?thesis by (auto simp: config_cases split: if_splits)
next
  case (Inr c)
  with config_ok [OF Inr] show ?thesis by (auto simp: config_cases split: if_splits)
qed

text \<open>C28: the machine numbers of the workers. With an accepted configuration a debug build creates
  the service exactly when \<open>shard_offset + num_workers\<close> is at most 1024, and panics
  otherwise; a release build always creates it, and the generator of worker \<open>i\<close> gets machine
  \<open>(shard_offset + i) mod 1024\<close>, so that a too large offset silently reuses the machine
  numbers of other deployments. Where the debug build succeeds, both builds give the same
  service.\<close>

theorem service_new_machine_ids:
  assumes "config_try_from args = Inr c"
  shows "(is_ok (service_new Debug c clock mt) \<longleftrightarrow>
      unat (shard_offset c) + unat (num_workers c) \<le> 1024) \<and>
    (\<exists>svc. service_new Release c clock mt = Inr svc \<and>
      length (workers (s_pool svc)) = unat (num_workers c) \<and>
      (\<forall>i < unat (num_workers c). \<exists>w. workers (s_pool svc) ! i = Some w \<and>
        unat (snow_machine_id SnowflakeId (bs_state (w_gen w))) =
          (unat (shard_offset c) + i) mod 1024)) \<and>
    (unat (shard_offset c) + unat (num_workers c) \<le> 1024 \<longrightarrow>
      service_new Debug c clock mt = service_new Release c clock mt)"
proof -
  note n = config_ok(1,2) [OF assms]
  have "\<forall>i < unat (num_workers c). \<exists>g. worker_gen Release c clock i = Inr g \<and>
      unat (snow_machine_id SnowflakeId (bs_state g)) = (unat (shard_offset c) + i) mod 1024"
    by (intro allI impI worker_gen_builds(3)) (use n(2) in linarith)
  then obtain f where f: "\<And>i. i < unat (num_workers c) \<Longrightarrow> worker_gen Release c clock i = Inr (f i)"
      "\<And>i. i < unat (num_workers c) \<Longrightarrow>
        unat (snow_machine_id SnowflakeId (bs_state (f i))) = (unat (shard_offset c) + i) mod 1024"
    by metis
  have "is_ok (service_new Debug c clock mt) \<longleftrightarrow>
      (\<forall>i < unat (num_workers c). unat (shard_offset c) + i < 1024)"
    using n by (simp add: service_new_is_ok worker_gen_builds(1))
  also have "\<dots> \<longleftrightarrow> unat (shard_offset c) + unat (num_workers c) \<le> 1024"
    using n(1) by (auto dest: spec [of _ "unat (num_workers c) - 1"])
  finally have "is_ok (service_new Debug c clock mt) \<longleftrightarrow>
      unat (shard_offset c) + unat (num_workers c) \<le> 1024" .
  moreover have "service_new Debug c clock mt = service_new Release c clock mt"
    if "unat (shard_offset c) + unat (num_workers c) \<le> 1024"
    using that n(2) service_new_workers [OF f(1)] worker_gen_builds(2) [of _ c clock] f(1)
    by (subst service_new_workers [where f = f]) auto
  ultimately show ?thesis
    using service_new_workers [OF f(1)] f(2) by (simp add: pool_new_def worker_start_def)
qed

theorem service_new_machine_ids_witness:
  "\<exists>c. config_try_from \<lparr>a_server_addr = ''a'', a_max_allowed_ids = 100, a_shard_offset = 1023,
      a_num_workers = 2, a_ids_per_chunk = 4, a_stream_buffer_size = 8, a_uds = False,
      a_shutdown_timeout = 3\<rparr> = Inr c \<and> \<not> is_ok (service_new Debug c (0 :: u64) no_metrics) \<and>
    (\<exists>svc w. service_new Release c (0 :: u64) no_metrics = Inr svc \<and> workers (s_pool svc) ! 1 = Some w \<and>
      unat (snow_machine_id SnowflakeId (bs_state (w_gen w))) = 0)"
proof -
  let ?args = "\<lparr>a_server_addr = ''a'', a_max_allowed_ids = 100, a_shard_offset = 1023,
      a_num_workers = 2, a_ids_per_chunk = 4, a_stream_buffer_size = 8, a_uds = False,
      a_shutdown_timeout = 3\<rparr>"
  obtain c where c: "config_try_from ?args = Inr c" "shard_offset c = 1023" "num_workers c = 2"
    by (simp add: config_cases)
  have n: "unat (num_workers c) = 2" "unat (shard_offset c) = 1023" by (simp_all add: c)
  note ids = service_new_machine_ids [OF c(1), of "0 :: u64", unfolded n]
  obtain svc where "service_new Release c (0 :: u64) no_metrics = Inr svc"
      "\<forall>i < 2. \<exists>w. workers (s_pool svc) ! i = Some w \<and>
        unat (snow_machine_id SnowflakeId (bs_state (w_gen w))) = (1023 + i) mod 1024"
    using ids by blast
  moreover from this(2) obtain w where "workers (s_pool svc) ! 1 = Some w"
      "unat (snow_machine_id SnowflakeId (bs_state (w_gen w))) = 0"
    by (auto dest: spec [of _ 1])
  moreover have "\<not> is_ok (service_new Debug c (0 :: u64) no_metrics)" using ids by simp
  ultimately show ?thesis using c(1) by blast
qed

lemma stream_delivers:
  assumes "config_try_from args = Inr c" and "0 < unat (ids_per_chunk c)"
    and "s_config svc = c" and "\<not> s_shutdown svc"
    and "pool_stocked cm b (unat (chunk_bytes c)) (shard_offset c) (unat count + rest) (s_pool svc)"
    and "0 < unat count" and "unat count \<le> unat (max_allowed_ids c)"
    and "channel (stream_buffer_size c) = Inr []"
  shows "\<exists>xss svc'. stream_ids elapsed (basic_snow_poll_id cm b SnowflakeId) channel deliver count svc =
      Some (Inr (Inr (Inr (Inr ()), map (\<lambda>xs. Inr (pack_ids xs)) xss)), svc') \<and>
    length (concat xss) = unat count \<and> distinct (concat xss) \<and>
    (\<forall>x \<in> set (concat xss). pool_fresh (shard_offset c) (s_pool svc) x \<and>
      \<not> pool_fresh (shard_offset c) (s_pool svc') x) \<and>
    (\<forall>x. pool_fresh (shard_offset c) (s_pool svc') x \<longrightarrow> pool_fresh (shard_offset c) (s_pool svc) x) \<and>
    (\<forall>xs \<in> set xss. unpack_ids (pack_ids xs) = xs \<and> 0 < length xs \<and>
      length xs \<le> unat (ids_per_chunk c)) \<and>
    s_config svc' = c \<and> \<not> s_shutdown svc' \<and> s_inflight svc' = s_inflight svc \<and>
    pool_stocked cm b (unat (chunk_bytes c)) (shard_offset c) rest (s_pool svc')"
proof -
  obtain j where j: "unat (ids_per_chunk c) = Suc j" using assms(2) by (cases "unat (ids_per_chunk c)") auto
  then have cb: "unat (chunk_bytes c) = 8 * Suc j" using config_ok(3) [OF assms(1)] by simp
  obtain xss p' where d:
    "feed_chunks (basic_snow_poll_id cm b SnowflakeId) deliver (unat count) (s_pool svc) [] c =
       Some (Inr (Inr ()), p', [] @ map (\<lambda>xs. Inr (pack_ids xs)) xss)"
    "length (concat xss) = unat count" "distinct (concat xss)"
    "\<forall>x \<in> set (concat xss). pool_fresh (shard_offset c) (s_pool svc) x \<and> \<not> pool_fresh (shard_offset c) p' x"
    "\<forall>x. pool_fresh (shard_offset c) p' x \<longrightarrow> pool_fresh (shard_offset c) (s_pool svc) x"
    "\<forall>xs \<in> set xss. 0 < length xs \<and> length xs \<le> Suc j"
    "pool_stocked cm b (8 * Suc j) (shard_offset c) rest p'"
    using pool_dispatch.feed_delivers [OF assms(5) [unfolded cb], of "[]"]
    unfolding feed_chunks_def j cb by blast
  obtain mt where acc: "stream_accept count svc =
      (Inr (unat count), svc\<lparr>s_inflight := s_inflight svc + 1, s_metrics := mt\<rparr>)"
    using stream_acceptI [of svc count] assms(3,4,6,7) by blast
  let ?svc =
    "stream_finish elapsed (svc\<lparr>s_inflight := s_inflight svc + 1, s_metrics := mt, s_pool := p'\<rparr>)"
  have "stream_ids elapsed (basic_snow_poll_id cm b SnowflakeId) channel deliver count svc =
      Some (Inr (Inr (Inr (Inr ()), map (\<lambda>xs. Inr (pack_ids xs)) xss)), ?svc)"
    using assms(3,8) d(1) by (simp add: stream_ids_def acc)
  then show ?thesis
    using d(2-7) assms(3,4) by (intro exI [of _ xss] exI [of _ ?svc]) (simp add: j cb unpack_pack)
qed

lemma demo_stream:
  obtains svc xss svc' where "service_new Debug demo_config (1 :: u64) mt = Inr svc"
    "s_config svc = demo_config" "\<not> s_shutdown svc" "s_inflight svc = 0"
    "stream_ids 0 (basic_snow_poll_id demo_clock Debug SnowflakeId) (\<lambda>_. Inr []) deliver 3 svc =
      Some (Inr (Inr (Inr (Inr ()), map (\<lambda>xs. Inr (pack_ids xs)) xss)), svc')"
    "length (concat xss) = 3"
proof -
  obtain svc where svc: "service_new Debug demo_config (1 :: u64) mt = Inr svc"
    "s_config svc = demo_config" "\<not> s_shutdown svc" "s_inflight svc = 0"
    "pool_stocked demo_clock Debug (unat (chunk_bytes demo_config)) (shard_offset demo_config) 3
       (s_pool svc)"
    by (rule demo_service)
  have "0 < unat (ids_per_chunk demo_config)" "3 \<le> unat (max_allowed_ids demo_config)"
    by (simp_all add: demo_config_def)
  with stream_delivers [OF demo_config _ svc(2,3), of demo_clock Debug 3 0 "\<lambda>_. Inr []" 0] svc that
  show thesis by simp blast
qed

text \<open>C6: what a client gets. A running service with an accepted configuration, a chunk size above
  zero and workers whose generators can produce \<open>count\<close> more identifiers answers a request for
  \<open>count\<close> identifiers, at least one and at most the configured maximum, from a client that
  stays: the stream ends without error; its messages hold at least one and at most
  \<open>ids_per_chunk\<close> identifiers each and exactly \<open>count\<close> in all, pairwise distinct, none
  handed out before and none ever to be handed out again; the counter of streams in flight is
  back at its value, and what the workers could produce beyond this request they still can.\<close>

theorem stream_ids_delivers:
  assumes "config_try_from args = Inr c" and "0 < unat (ids_per_chunk c)"
    and "s_config svc = c" and "\<not> s_shutdown svc"
    and "pool_stocked cm b (unat (chunk_bytes c)) (shard_offset c) (unat count + rest) (s_pool svc)"
    and "0 < unat count" and "unat count \<le> unat (max_allowed_ids c)"
    and "channel (stream_buffer_size c) = Inr []"
  shows "\<exists>xss svc'. stream_ids elapsed (basic_snow_poll_id cm b SnowflakeId) channel deliver count svc =
      Some (Inr (Inr (Inr (Inr ()), map (\<lambda>xs. Inr (pack_ids xs)) xss)), svc') \<and>
    length (concat xss) = unat count \<and> distinct (concat xss) \<and>
    (\<forall>x \<in> set (concat xss). pool_fresh (shard_offset c) (s_pool svc) x \<and>
      \<not> pool_fresh (shard_offset c) (s_pool svc') x) \<and>
    (\<forall>x. pool_fresh (shard_offset c) (s_pool svc') x \<longrightarrow> pool_fresh (shard_offset c) (s_pool svc) x) \<and>
    (\<forall>xs \<in> set xss. unpack_ids (pack_ids xs) = xs \<and> 0 < length xs \<and>
      length xs \<le> unat (ids_per_chunk c)) \<and>
    s_config svc' = c \<and> \<not> s_shutdown svc' \<and> s_inflight svc' = s_inflight svc \<and>
    pool_stocked cm b (unat (chunk_bytes c)) (shard_offset c) rest (s_pool svc')"
  using assms by (rule stream_delivers)

theorem stream_ids_delivers_witness:
  "\<exists>svc xss svc'. service_new Debug demo_config (1 :: u64) no_metrics = Inr svc \<and>
    stream_ids 0 (basic_snow_poll_id demo_clock Debug SnowflakeId) (\<lambda>_. Inr []) deliver 3 svc =
      Some (Inr (Inr (Inr (Inr ()), map (\<lambda>xs. Inr (pack_ids xs)) xss)), svc') \<and>
    length (concat xss) = 3 \<and> distinct (concat xss) \<and> s_inflight svc' = 0"
proof -
  obtain svc where svc: "service_new Debug demo_config (1 :: u64) no_metrics = Inr svc"
    "s_config svc = demo_config" "\<not> s_shutdown svc" "s_inflight svc = 0"
    "pool_stocked demo_clock Debug (unat (chunk_bytes demo_config)) (shard_offset demo_config) 3
       (s_pool svc)"
    by (rule demo_service)
  have "0 < unat (ids_per_chunk demo_config)" "3 \<le> unat (max_allowed_ids demo_config)"
    by (simp_all add: demo_config_def)
  with stream_ids_delivers [OF demo_config _ svc(2,3), of demo_clock Debug 3 0 "\<lambda>_. Inr []"] svc
  show ?thesis by simp blast
qed

text \<open>Any number of streams that share the pool, interleaved in any way: whatever sequence of
  chunk requests reaches the workers, every request is answered by one message of the requested
  size, and the identifiers of all messages to all clients are pairwise distinct.\<close>

lemma interleaved_streams_unique:
  assumes "config_try_from args = Inr c" and "0 < unat (ids_per_chunk c)"
    and "pool_stocked cm b (unat (chunk_bytes c)) (shard_offset c) (sum_list ks) p"
    and "\<forall>k \<in> set ks. 0 < k \<and> k \<le> unat (ids_per_chunk c)"
  shows "\<exists>xss p'. dispatch_all (\<lambda>k. send_to_next_worker (basic_snow_poll_id cm b SnowflakeId)
        (unat (chunk_bytes c)) (Stream k)) ks p = Some (map (\<lambda>xs. [pack_ids xs]) xss, p') \<and>
    map length xss = ks \<and> distinct (concat xss)"
proof -
  obtain j where j: "unat (ids_per_chunk c) = Suc j" using assms(2) by (cases "unat (ids_per_chunk c)") auto
  then have cb: "unat (chunk_bytes c) = 8 * Suc j" using config_ok(3) [OF assms(1)] by simp
  show ?thesis
    using pool_dispatch.dispatch_all_unique [OF assms(3) [unfolded cb] assms(4) [unfolded j]]
    unfolding cb by blast
qed

lemma interleaved_streams_unique_witness:
  "\<exists>svc xss p'. service_new Debug demo_config (1 :: u64) no_metrics = Inr svc \<and>
    dispatch_all (\<lambda>k. send_to_next_worker (basic_snow_poll_id demo_clock Debug SnowflakeId)
        (unat (chunk_bytes demo_config)) (Stream k)) [2, 1] (s_pool svc) =
      Some (map (\<lambda>xs. [pack_ids xs]) xss, p') \<and>
    map length xss = [2, 1] \<and> distinct (concat xss)"
proof -
  obtain svc where svc: "service_new Debug demo_config (1 :: u64) no_metrics = Inr svc"
    "pool_stocked demo_clock Debug (unat (chunk_bytes demo_config)) (shard_offset demo_config) 3
       (s_pool svc)"
    by (rule demo_service)
  have "unat (ids_per_chunk demo_config) = 2" by (simp add: demo_config_def)
  with interleaved_streams_unique [OF demo_config, of demo_clock Debug "[2, 1]" "s_pool svc"] svc
  show ?thesis by (simp add: numeral_3_eq_3)
qed

text \<open>The requests that are refused: after a shutdown with \<open>UNAVAILABLE\<close>, a count of zero or
  above the configured maximum with \<open>INVALID_ARGUMENT\<close>. A refused request creates no stream and
  leaves the service as it is, except that an invalid count is counted as a stream error; a
  refusal because of a shutdown is not.\<close>

lemma stream_ids_refusals:
  assumes "s_shutdown svc \<or> count = 0 \<or> unat (max_allowed_ids (s_config svc)) < unat count"
  shows "\<exists>msg. stream_ids elapsed poll_id channel send_resp count svc =
    Some (Inr (Inl (Status (if s_shutdown svc then Unavailable else InvalidArgument) msg)),
      if s_shutdown svc then svc
      else svc\<lparr>s_metrics := metric_call STREAM_ERRORS_METRIC 1 (s_metrics svc)\<rparr>)"
  using assms
  by (auto simp: stream_ids_def stream_accept_def status_of_error_def Let_def unat_eq_0 metric_ops)

lemma stream_ids_refusals_witness:
  "\<exists>msg. stream_ids 0 (\<lambda>g :: unit. (Inr (Pending 1), g)) (\<lambda>_. Inr []) deliver 7
      \<lparr>s_config = \<lparr>max_allowed_ids = 6, shard_offset = 0, num_workers = 1, ids_per_chunk = 1,
         stream_buffer_size = 1, chunk_bytes = 8, server_addr = [], uds = False, shutdown_timeout = 3\<rparr>,
       s_pool = pool_new [] 3, s_shutdown = False, s_inflight = 0, s_metrics = no_metrics\<rparr> =
    Some (Inr (Inl (Status InvalidArgument msg)),
      \<lparr>s_config = \<lparr>max_allowed_ids = 6, shard_offset = 0, num_workers = 1, ids_per_chunk = 1,
         stream_buffer_size = 1, chunk_bytes = 8, server_addr = [], uds = False, shutdown_timeout = 3\<rparr>,
       s_pool = pool_new [] 3, s_shutdown = False, s_inflight = 0, s_metrics = no_metrics\<rparr>)"
  using stream_ids_refusals [of "\<lparr>s_config = \<lparr>max_allowed_ids = 6, shard_offset = 0, num_workers = 1,
      ids_per_chunk = 1, stream_buffer_size = 1, chunk_bytes = 8, server_addr = [], uds = False,
      shutdown_timeout = 3\<rparr>, s_pool = pool_new [] 3, s_shutdown = False, s_inflight = 0, s_metrics = no_metrics\<rparr>" 7]
  by (simp add: metric_call_def no_metrics_def)

text \<open>The drain of a shutdown ends at the first of its looks at the counter, 100 ms apart, that finds
  it at zero, or else at the end of the grace period; a grace period of zero still looks once.\<close>

lemma drain_loop_first:
  assumes "100 * j \<le> deadline" and "\<forall>i < j. f (100 * i) \<noteq> 0"
  shows "drain_loop f deadline (100 * j) =
    (if \<exists>i. 100 * i \<le> deadline \<and> f (100 * i) = 0 then (True, 100 * (LEAST i. f (100 * i) = 0))
     else (False, deadline))"
  using assms
proof (induction "deadline - 100 * j" arbitrary: j rule: less_induct)
  case less
  show ?case
  proof (cases "f (100 * j) = 0")
    case True
    then have "(LEAST i. f (100 * i) = 0) = j"
      using less.prems(2) by (intro Least_equality) (auto simp: not_less [symmetric])
    with True less.prems(1) show ?thesis by (subst drain_loop.simps) auto
  next
    case False
    then have looks: "\<forall>i < Suc j. f (100 * i) \<noteq> 0"
      using less.prems(2) by (simp add: less_Suc_eq)
    show ?thesis
    proof (cases "100 * j + 100 \<le> deadline")
      case True
      then show ?thesis
        using False less.hyps [of "Suc j"] looks
        by (subst drain_loop.simps) (simp add: word_neq_0_conv add.commute)
    next
      case late: False
      have "\<not> (\<exists>i. 100 * i \<le> deadline \<and> f (100 * i) = 0)"
      proof
        assume "\<exists>i. 100 * i \<le> deadline \<and> f (100 * i) = 0"
        then obtain i where i: "100 * i \<le> deadline" "f (100 * i) = 0" by blast
        with late have "i < Suc j" by simp
        with looks i(2) show False by blast
      qed
      with False late show ?thesis by (subst drain_loop.simps) (simp add: word_neq_0_conv)
    qed
  qed
qed

lemma drain_first:
  "drain f p =
    (if \<exists>i. 100 * i \<le> 1000 * unat (pool_timeout p) \<and> f (100 * i) = 0
     then (True, 100 * (LEAST i. f (100 * i) = 0)) else (False, 1000 * unat (pool_timeout p)))"
  using drain_loop_first [of 0 "1000 * unat (pool_timeout p)" f] by (simp add: drain_def)

text \<open>Sending the stop requests: how long the sends wait, who accepts, and that only a send that
  waits for ever keeps the loop from ending.\<close>

definition send_wait :: "send_end \<Rightarrow> nat" where
  "send_wait e = (case e of Accepted d \<Rightarrow> d | Refused d \<Rightarrow> d | Blocked \<Rightarrow> 0)"

definition accepts :: "send_end \<Rightarrow> bool" where
  "accepts e \<longleftrightarrow> (case e of Accepted _ \<Rightarrow> True | _ \<Rightarrow> False)"

lemma send_end_simps [simp]:
  "send_wait (Accepted d) = d" "send_wait (Refused d) = d" "accepts (Accepted d)" "\<not> accepts (Refused d)"
  "\<not> accepts Blocked"
  by (simp_all add: send_wait_def accepts_def)

definition live :: "'g worker option list \<Rightarrow> nat set" where
  "live ws = {i. i < length ws \<and> ws ! i \<noteq> None}"

lemma live_Cons:
  "live (ow # ws) = (if ow = None then {} else {0}) \<union> Suc ` live ws"
proof (rule set_eqI)
  show "i \<in> live (ow # ws) \<longleftrightarrow> i \<in> (if ow = None then {} else {0}) \<union> Suc ` live ws" for i
    by (cases i) (auto simp: live_def)
qed

lemma live_Nil [simp]: "live [] = {}"
  by (simp add: live_def)

lemma live_finite [simp]: "finite (live ws)"
  by (simp add: live_def)

lemma notify_None:
  "notify send i ws now = None \<longleftrightarrow> (\<exists>k \<in> live ws. send (i + k) = Blocked)"
  by (induction send i ws now rule: notify.induct)
    (auto simp: live_Cons split: send_end.splits)

lemma notify_Some:
  assumes "notify send i ws now = Some (hs, t)"
  shows "t = now + (\<Sum>k \<in> live ws. send_wait (send (i + k))) \<and>
    set hs = (\<lambda>k. i + k) ` {k \<in> live ws. accepts (send (i + k))}"
  using assms
proof (induction send i ws now arbitrary: hs t rule: notify.induct)
  case (1 send i now)
  then show ?case by simp
next
  case (2 send i ws now)
  then show ?case by (auto simp: live_Cons sum.reindex image_iff)
next
  case (3 send i w ws now)
  have "(\<Sum>k \<in> live (Some w # ws). send_wait (send (i + k))) =
      send_wait (send i) + (\<Sum>k \<in> live ws. send_wait (send (Suc i + k)))"
    by (simp add: live_Cons sum.reindex)
  moreover have "(\<lambda>k. i + k) ` {k \<in> live (Some w # ws). accepts (send (i + k))} =
      (if accepts (send i) then {i} else {}) \<union> (\<lambda>k. Suc i + k) ` {k \<in> live ws. accepts (send (Suc i + k))}"
    by (auto simp: live_Cons image_iff)
  ultimately show ?case
    using 3 by (cases "send i") (force simp: add.assoc)+
qed

text \<open>Waiting for the answers ends after 3 seconds at the latest, and not before a wait that timed out.\<close>

definition answered_by :: "nat \<Rightarrow> answer \<Rightarrow> bool" where
  "answered_by deadline rx \<longleftrightarrow>
     (case rx of Acked t \<Rightarrow> t \<le> deadline | Dropped t \<Rightarrow> t \<le> deadline | Silent \<Rightarrow> False)"

lemma await_ack_TimedOut: "fst (await_ack rx now) = TimedOut \<longleftrightarrow> \<not> answered_by (now + 3000) rx"
  by (simp add: await_ack_def answered_by_def split: answer.split)

lemma await_ack_ends:
  "now \<le> snd (await_ack rx now)" "snd (await_ack rx now) \<le> now + 3000"
  "\<not> answered_by (now + 3000) rx \<Longrightarrow> snd (await_ack rx now) = now + 3000"
  by (auto simp: await_ack_def answered_by_def split: answer.splits)

lemma fold_max:
  fixes f :: "'a \<Rightarrow> nat"
  shows "m \<le> fold (\<lambda>i. max (f i)) xs m" and "i \<in> set xs \<Longrightarrow> f i \<le> fold (\<lambda>i. max (f i)) xs m"
    and "m \<le> k \<Longrightarrow> (\<And>i. i \<in> set xs \<Longrightarrow> f i \<le> k) \<Longrightarrow> fold (\<lambda>i. max (f i)) xs m \<le> k"
proof -
  show ge: "m \<le> fold (\<lambda>i. max (f i)) xs m" for m
    by (induction xs arbitrary: m) (auto intro: order_trans [OF max.cobounded2])
  show "i \<in> set xs \<Longrightarrow> f i \<le> fold (\<lambda>i. max (f i)) xs m"
  proof (induction xs arbitrary: m)
    case (Cons x xs)
    have "max (f x) m \<le> fold (\<lambda>i. max (f i)) xs (max (f x) m)"
      by (induction xs arbitrary: m x) (auto intro: order_trans)
    with Cons show ?case by auto
  qed simp
  show "m \<le> k \<Longrightarrow> (\<And>i. i \<in> set xs \<Longrightarrow> f i \<le> k) \<Longrightarrow> fold (\<lambda>i. max (f i)) xs m \<le> k"
    by (induction xs arbitrary: m) auto
qed

lemma join_acks_ends:
  "now \<le> snd (join_acks rx hs now)" "snd (join_acks rx hs now) \<le> now + 3000"
  "i \<in> set hs \<Longrightarrow> \<not> answered_by (now + 3000) (rx i) \<Longrightarrow> snd (join_acks rx hs now) = now + 3000"
proof -
  let ?over = "\<lambda>i. snd (await_ack (rx i) now)"
  show "now \<le> snd (join_acks rx hs now)" and le: "snd (join_acks rx hs now) \<le> now + 3000"
    using fold_max(1,3) [where f = ?over] by (auto simp: join_acks_def await_ack_ends)
  assume "i \<in> set hs" and "\<not> answered_by (now + 3000) (rx i)"
  then have "now + 3000 \<le> snd (join_acks rx hs now)"
    using await_ack_ends(3) [of now "rx i"] fold_max(2) [of i hs ?over now] by (simp add: join_acks_def)
  with le show "snd (join_acks rx hs now) = now + 3000" by simp
qed

lemma stop_worker_left:
  assumes "acks = fst (join_acks rx hs now)"
  shows "stop_worker run poll_id cb acks i ow =
    (if i \<in> set hs \<and> \<not> answered_by (now + 3000) (rx i) then map_option (left_as run i) ow else None)"
proof -
  have "map_of acks i = (if i \<in> set hs then Some (fst (await_ack (rx i) now)) else None)"
    by (simp add: assms join_acks_def map_of_map_restrict restrict_map_def)
  then show ?thesis
    using await_ack_TimedOut [of "rx i" now]
    by (auto simp: stop_worker_def worker_round_def split: option.split ack_result.split)
qed

lemma service_shutdown_refuses:
  assumes "service_shutdown run poll_id svc = (outcome, svc')"
  shows "stream_ids elapsed poll_id' channel send_resp count svc' =
      Some (Inr (Inl (Status Unavailable ''Service is shutting down'')), svc')"
    and "send_to_next_worker poll_id'' cb work (s_pool svc') =
      Some (Inr (Inl ServiceShutdown), s_pool svc')"
    and "stream_accept count svc' = (Inl (Status Unavailable ''Service is shutting down''), svc')"
proof -
  have "s_shutdown svc'" and "cancelled (s_pool svc')"
    using assms by (auto simp: service_shutdown_def set_global_shutdown_def pool_shutdown_def Let_def
        split: prod.splits option.splits)
  then show "stream_ids elapsed poll_id' channel send_resp count svc' =
      Some (Inr (Inl (Status Unavailable ''Service is shutting down'')), svc')"
    and "send_to_next_worker poll_id'' cb work (s_pool svc') =
      Some (Inr (Inl ServiceShutdown), s_pool svc')"
    and "stream_accept count svc' = (Inl (Status Unavailable ''Service is shutting down''), svc')"
    by (simp_all add: stream_ids_def stream_accept_def status_of_error_def send_to_next_worker_def)
qed

lemma service_shutdown_None:
  "fst (service_shutdown run poll_id svc) = None \<longleftrightarrow>
    (\<exists>i \<in> live (workers (s_pool svc)). send_stop run i = Blocked)"
  using notify_None [of "send_stop run" 0 "workers (s_pool svc)" "snd (drain (inflight_at run) (s_pool svc))"]
  by (auto simp: service_shutdown_def pool_shutdown_def set_global_shutdown_def Let_def split_beta drain_def
      split: option.splits)

lemma service_shutdown_Some:
  assumes "service_shutdown run poll_id svc = (Some (res, rep), svc')"
  obtains hs where "res = Inr ()"
    "(drained rep, cancelled_at rep) = drain (inflight_at run) (s_pool svc)"
    "notify (send_stop run) 0 (workers (s_pool svc)) (cancelled_at rep) = Some (hs, notified_at rep)"
    "ended_at rep = snd (join_acks (stop_answer run) hs (notified_at rep))"
    "workers (s_pool svc') = map (\<lambda>(i, ow). if i \<in> set hs \<and>
        \<not> answered_by (notified_at rep + 3000) (stop_answer run i)
      then map_option (left_as run i) ow else None) (enumerate 0 (workers (s_pool svc)))"
  using assms
  by (auto simp: service_shutdown_def pool_shutdown_def set_global_shutdown_def Let_def drain_def
      stop_worker_left [OF refl] split_beta simp del: enumerate_simps split: prod.splits option.splits)

lemma service_shutdown_times:
  assumes "service_shutdown run poll_id svc = (Some (res, rep), svc')"
  shows "if \<exists>k. 100 * k \<le> 1000 * unat (pool_timeout (s_pool svc)) \<and> inflight_at run (100 * k) = 0
      then drained rep \<and> cancelled_at rep = 100 * (LEAST k. inflight_at run (100 * k) = 0)
      else \<not> drained rep \<and> cancelled_at rep = 1000 * unat (pool_timeout (s_pool svc))"
    and "notified_at rep = cancelled_at rep +
      (\<Sum>i \<in> live (workers (s_pool svc)). send_wait (send_stop run i))"
    and "notified_at rep \<le> ended_at rep" and "ended_at rep \<le> notified_at rep + 3000"
proof -
  obtain hs where hs: "(drained rep, cancelled_at rep) = drain (inflight_at run) (s_pool svc)"
    "notify (send_stop run) 0 (workers (s_pool svc)) (cancelled_at rep) = Some (hs, notified_at rep)"
    "ended_at rep = snd (join_acks (stop_answer run) hs (notified_at rep))"
    by (rule service_shutdown_Some [OF assms])
  show "if \<exists>k. 100 * k \<le> 1000 * unat (pool_timeout (s_pool svc)) \<and> inflight_at run (100 * k) = 0
      then drained rep \<and> cancelled_at rep = 100 * (LEAST k. inflight_at run (100 * k) = 0)
      else \<not> drained rep \<and> cancelled_at rep = 1000 * unat (pool_timeout (s_pool svc))"
    using hs(1) unfolding drain_first by (auto split: if_splits)
  show "notified_at rep = cancelled_at rep +
      (\<Sum>i \<in> live (workers (s_pool svc)). send_wait (send_stop run i))"
    using notify_Some [OF hs(2)] by simp
  show "notified_at rep \<le> ended_at rep" and "ended_at rep \<le> notified_at rep + 3000"
    unfolding hs(3) by (rule join_acks_ends)+
qed

lemma service_shutdown_left:
  assumes "service_shutdown run poll_id svc = (Some (res, rep), svc')"
  defines "ws \<equiv> workers (s_pool svc)" and "ws' \<equiv> workers (s_pool svc')"
  shows "length ws' = length ws" (is ?len)
    and "live ws' = {i \<in> live ws. accepts (send_stop run i) \<and>
      \<not> answered_by (notified_at rep + 3000) (stop_answer run i)}" (is ?left)
    and "\<forall>i \<in> live ws'. ws' ! i = map_option (left_as run i) (ws ! i)" (is ?as)
    and "live ws' \<noteq> {} \<Longrightarrow> ended_at rep = notified_at rep + 3000"
proof -
  obtain hs where hs:
    "notify (send_stop run) 0 ws (cancelled_at rep) = Some (hs, notified_at rep)"
    "ended_at rep = snd (join_acks (stop_answer run) hs (notified_at rep))"
    "ws' = map (\<lambda>(i, ow). if i \<in> set hs \<and> \<not> answered_by (notified_at rep + 3000) (stop_answer run i)
      then map_option (left_as run i) ow else None) (enumerate 0 ws)"
    unfolding ws_def ws'_def by (rule service_shutdown_Some [OF assms(1)])
  have handles: "set hs = {k \<in> live ws. accepts (send_stop run k)}"
    using notify_Some [OF hs(1)] by simp
  have nth: "i < length ws \<Longrightarrow> ws' ! i =
      (if i \<in> set hs \<and> \<not> answered_by (notified_at rep + 3000) (stop_answer run i)
       then map_option (left_as run i) (ws ! i) else None)" for i
    by (simp add: hs(3) nth_enumerate_eq)
  show ?len by (simp add: hs(3))
  then show ?left
    using nth handles by (auto simp: live_def split: if_splits)
  then show ?as
    using nth by (auto simp: handles live_def)
  have "i \<in> live ws' \<Longrightarrow> ended_at rep = notified_at rep + 3000" for i
    unfolding hs(2) \<open>?left\<close> by (rule join_acks_ends(3)) (auto simp: handles)
  then show "live ws' \<noteq> {} \<Longrightarrow> ended_at rep = notified_at rep + 3000" by blast
qed

text \<open>C30: a shutdown, whatever the streams, the workers and the runtime do meanwhile. It returns unless
  the queue of a live worker never takes the stop request, and then its result is \<open>Ok\<close>. The work
  is cancelled at the first look, 100 ms apart, that finds no stream in flight, or at the end of the
  grace period and not before; the stop requests are sent one after the other from then on, and at
  most 3 s after the last of them the call is over. Exactly the workers that accepted the request and
  did not answer within these 3 s are left, and then the whole 3 s pass; every other worker has
  ended. In any case every request is refused with \<open>UNAVAILABLE\<close> from then on and every dispatch
  with \<open>ServiceShutdown\<close>, and neither changes anything.\<close>

theorem shutdown_outcome:
  "case service_shutdown run poll_id svc of (outcome, svc') \<Rightarrow>
    stream_ids elapsed poll_id channel send_resp count svc' =
      Some (Inr (Inl (Status Unavailable ''Service is shutting down'')), svc') \<and>
    send_to_next_worker poll_id cb work (s_pool svc') = Some (Inr (Inl ServiceShutdown), s_pool svc') \<and>
    (outcome = None \<longleftrightarrow> (\<exists>i \<in> live (workers (s_pool svc)). send_stop run i = Blocked)) \<and>
    (\<forall>res rep. outcome = Some (res, rep) \<longrightarrow> res = Inr () \<and>
      (if \<exists>k. 100 * k \<le> 1000 * unat (pool_timeout (s_pool svc)) \<and> inflight_at run (100 * k) = 0
       then drained rep \<and> cancelled_at rep = 100 * (LEAST k. inflight_at run (100 * k) = 0)
       else \<not> drained rep \<and> cancelled_at rep = 1000 * unat (pool_timeout (s_pool svc))) \<and>
      notified_at rep = cancelled_at rep +
        (\<Sum>i \<in> live (workers (s_pool svc)). send_wait (send_stop run i)) \<and>
      notified_at rep \<le> ended_at rep \<and> ended_at rep \<le> notified_at rep + 3000 \<and>
      (live (workers (s_pool svc')) \<noteq> {} \<longrightarrow> ended_at rep = notified_at rep + 3000) \<and>
      length (workers (s_pool svc')) = length (workers (s_pool svc)) \<and>
      live (workers (s_pool svc')) = {i \<in> live (workers (s_pool svc)). accepts (send_stop run i) \<and>
        \<not> answered_by (notified_at rep + 3000) (stop_answer run i)} \<and>
      (\<forall>i \<in> live (workers (s_pool svc')).
        workers (s_pool svc') ! i = map_option (left_as run i) (workers (s_pool svc) ! i)))"
proof -
  obtain outcome svc' where eq: "service_shutdown run poll_id svc = (outcome, svc')" by fastforce
  then have eq': "outcome = Some (res, rep) \<Longrightarrow> service_shutdown run poll_id svc = (Some (res, rep), svc')"
    for res rep by simp
  have ok: "outcome = Some (res, rep) \<Longrightarrow> res = Inr ()" for res rep
    by (rule service_shutdown_Some [OF eq'])
  have "outcome = None \<longleftrightarrow> (\<exists>i \<in> live (workers (s_pool svc)). send_stop run i = Blocked)"
    using service_shutdown_None [of run poll_id svc] by (simp add: eq)
  then show ?thesis
    unfolding eq prod.case
    by (intro conjI allI impI service_shutdown_refuses(1,2) [OF eq])
      (assumption | erule ok | rule service_shutdown_times [OF eq'] service_shutdown_left [OF eq'])+
qed

text \<open>Two workers, a stream in flight for 150 ms and a grace period of 3 s: the second worker has to finish a
  request before its queue takes the stop request, starts another and never answers.\<close>

theorem shutdown_outcome_witness:
  "\<exists>rep svc'. service_shutdown
      \<lparr>inflight_at = (\<lambda>t. if t \<le> 150 then 1 else 0), send_stop = (\<lambda>i. Accepted (50 * i)),
       stop_answer = (\<lambda>i. if i = 0 then Acked 210 else Silent), left_as = (\<lambda>_ w. w)\<rparr>
      (\<lambda>g :: unit. (Inr (Pending 1), g))
      \<lparr>s_config = \<lparr>max_allowed_ids = 6, shard_offset = 0, num_workers = 2, ids_per_chunk = 1,
         stream_buffer_size = 1, chunk_bytes = 8, server_addr = [], uds = False, shutdown_timeout = 3\<rparr>,
       s_pool = pool_new [Some (worker_start 8 ()), Some (worker_start 8 ())] 3,
       s_shutdown = False, s_inflight = 1, s_metrics = no_metrics\<rparr> = (Some (Inr (), rep), svc') \<and>
    rep = \<lparr>drained = True, cancelled_at = 200, notified_at = 250, ended_at = 3250\<rparr> \<and>
    workers (s_pool svc') = [None, Some (worker_start 8 ())]"
proof -
  let ?run = "\<lparr>inflight_at = (\<lambda>t. if t \<le> 150 then 1 else 0), send_stop = (\<lambda>i. Accepted (50 * i)),
       stop_answer = (\<lambda>i. if i = 0 then Acked 210 else Silent), left_as = (\<lambda>_ w. w)\<rparr> :: unit shutdown_run"
  let ?w = "worker_start 8 ()" and ?poll = "\<lambda>g :: unit. (Inr (Pending 1), g)"
  let ?svc = "\<lparr>s_config = \<lparr>max_allowed_ids = 6, shard_offset = 0, num_workers = 2, ids_per_chunk = 1,
         stream_buffer_size = 1, chunk_bytes = 8, server_addr = [], uds = False, shutdown_timeout = 3\<rparr>,
       s_pool = pool_new [Some ?w, Some ?w] 3, s_shutdown = False, s_inflight = 1, s_metrics = no_metrics\<rparr>"
  have live: "live (workers (s_pool ?svc)) = {0, 1}"
    by (auto simp: pool_new_def live_def less_Suc_eq)
  have look: "\<exists>k. 100 * k \<le> 1000 * unat (pool_timeout (s_pool ?svc)) \<and> inflight_at ?run (100 * k) = 0"
    by (rule exI [of _ 2]) (simp add: pool_new_def)
  have least: "(LEAST k. inflight_at ?run (100 * k) = 0) = 2"
    by (rule Least_equality) (auto split: if_splits)
  obtain outcome svc' where eq: "service_shutdown ?run ?poll ?svc = (outcome, svc')" by fastforce
  note out = shutdown_outcome [where run = ?run and poll_id = ?poll and svc = ?svc and
      elapsed = 0 and channel = "\<lambda>_. Inr []" and send_resp = deliver and count = 1 and cb = 8 and work = Shutdown,
      unfolded eq prod.case live if_P [OF look] least]
  then have "outcome \<noteq> None" by simp
  then obtain res rep where r: "outcome = Some (res, rep)" by auto
  note rest = out [THEN conjunct2, THEN conjunct2, THEN conjunct2, rule_format, OF r]
  have rep: "res = Inr ()" "drained rep" "cancelled_at rep = 200" "notified_at rep = 250"
    and ws: "live (workers (s_pool svc')) = {1}" "length (workers (s_pool svc')) = 2"
      "\<forall>i \<in> live (workers (s_pool svc')). workers (s_pool svc') ! i = Some ?w"
    and ended: "live (workers (s_pool svc')) \<noteq> {} \<longrightarrow> ended_at rep = notified_at rep + 3000"
    using rest by (auto simp: answered_by_def pool_new_def split: if_splits)
  obtain o1 o2 where two: "workers (s_pool svc') = [o1, o2]"
    using ws(2) by (auto simp: length_Suc_conv numeral_2_eq_2)
  have "o1 = None" using ws(1) by (cases o1) (auto simp: two live_Cons)
  moreover have "o2 = Some ?w" using ws(1,3) by (simp add: two)
  ultimately have "workers (s_pool svc') = [None, Some ?w]" by (simp add: two)
  with eq r rep ws(1) ended show ?thesis by (cases rep) auto
qed

text \<open>The counter of streams in flight. A request that is refused or whose task runs to its end
  leaves the counter at its value, whether the stream succeeded or failed; a request that panics,
  when the response channel is created or in the task that feeds it, leaves it one higher for
  good, so that a shutdown waits its whole grace period.\<close>

lemma inflight_accounting:
  assumes "stream_ids elapsed poll_id channel send_resp count svc = Some (r, svc')"
  shows "s_inflight svc' = s_inflight svc +
      (case r of Inl _ \<Rightarrow> 1 | Inr (Inl _) \<Rightarrow> 0 | Inr (Inr (Inl _, _)) \<Rightarrow> 1 | Inr (Inr (Inr _, _)) \<Rightarrow> 0) \<and>
    s_config svc' = s_config svc \<and> s_shutdown svc' = s_shutdown svc"
  using assms
  by (auto simp: stream_ids_def stream_accept_def Let_def split: if_splits sum.splits option.splits prod.splits)

lemma inflight_accounting_witness:
  "\<exists>r svc'. stream_ids 0 (\<lambda>g :: unit. (Inr (Pending 1), g))
      (\<lambda>k. if k = 0 then Inl (Panic ''mpsc bounded channel requires buffer > 0'') else Inr []) deliver 5
      \<lparr>s_config = \<lparr>max_allowed_ids = 6, shard_offset = 0, num_workers = 1, ids_per_chunk = 1,
         stream_buffer_size = 0, chunk_bytes = 8, server_addr = [], uds = False, shutdown_timeout = 3\<rparr>,
       s_pool = pool_new [] 3, s_shutdown = False, s_inflight = 0, s_metrics = no_metrics\<rparr> = Some (r, svc') \<and>
    s_inflight svc' = 1"
proof -
  let ?svc = "\<lparr>s_config = \<lparr>max_allowed_ids = 6, shard_offset = 0, num_workers = 1, ids_per_chunk = 1,
         stream_buffer_size = 0, chunk_bytes = 8, server_addr = [], uds = False, shutdown_timeout = 3\<rparr>,
       s_pool = pool_new [] 3, s_shutdown = False, s_inflight = 0, s_metrics = no_metrics\<rparr> :: unit service"
  let ?panic = "Panic ''mpsc bounded channel requires buffer > 0''"
  let ?channel = "\<lambda>k :: usize. if k = 0 then Inl ?panic else Inr [] :: message list res"
  have "stream_ids 0 (\<lambda>g :: unit. (Inr (Pending 1), g)) ?channel deliver 5 ?svc =
      Some (Inl ?panic, ?svc\<lparr>s_inflight := 1\<rparr>)"
    by (simp add: stream_ids_def stream_accept_def Let_def metric_ops metric_call_def no_metrics_def)
  with inflight_accounting [OF this] show ?thesis by simp
qed

text \<open>A request for no identifiers keeps a worker alive and sends nothing.\<close>

lemma empty_round:
  assumes "worker_ok cb w"
  shows "worker_round poll_id cb (Stream 0) w = Some ([], Some w)"
  using assms
  by (simp add: worker_round_def handle_stream_request_def stream_loop_done flush_def worker_ok_def)

text \<open>C29: a chunk size of zero, which \<open>ServerConfig::try_from\<close> accepts, makes every valid request
  loop for ever: the coordinator asks the workers for zero identifiers again and again and
  never answers, whatever the generators, the clock and the client do.\<close>

theorem zero_chunk_never_returns:
  assumes "config_try_from args = Inr c" and "ids_per_chunk c = 0"
    and "s_config svc = c" and "\<not> s_shutdown svc" and "\<not> cancelled (s_pool svc)"
    and "0 < length (workers (s_pool svc))"
    and "\<forall>ow \<in> set (workers (s_pool svc)). \<exists>w. ow = Some w \<and> worker_ok (unat (chunk_bytes c)) w"
    and "0 < unat count" and "unat count \<le> unat (max_allowed_ids c)"
    and "channel (stream_buffer_size c) = Inr resp_tx"
  shows "stream_ids elapsed poll_id channel send_resp count svc = None"
proof -
  let ?alive = "\<lambda>p. \<not> cancelled p \<and> 0 < length (workers p) \<and>
    (\<forall>ow \<in> set (workers p). \<exists>w. ow = Some w \<and> worker_ok (unat (chunk_bytes c)) w)"
  let ?dispatch = "\<lambda>k. send_to_next_worker poll_id (unat (chunk_bytes c)) (Stream k)"
  have "\<exists>q. ?dispatch 0 p = Some (Inr (Inr []), q) \<and> ?alive q" if p: "?alive p" for p
  proof -
    let ?i = "unat (next_worker p) mod length (workers p)"
    have "workers p ! ?i \<in> set (workers p)" using p by simp
    then obtain w where w: "workers p ! ?i = Some w" "worker_ok (unat (chunk_bytes c)) w"
      using p by blast
    then have "(workers p)[?i := Some w] = workers p" by (metis list_update_id)
    then show ?thesis
      using p w by (simp add: send_to_next_worker_def next_worker_index_ok empty_round)
  qed
  then have "feed_loop send_resp ?dispatch 0 (unat count) (s_pool svc) resp_tx = None"
    using assms(5-8) by (intro feed_loop_diverges [where alive = ?alive]) simp_all
  then show ?thesis
    using assms(2-4,8-10) by (simp add: stream_ids_def stream_accept_def Let_def feed_chunks_def)
qed

theorem zero_chunk_never_returns_witness:
  "\<exists>c. config_try_from \<lparr>a_server_addr = [], a_max_allowed_ids = 100, a_shard_offset = 0,
      a_num_workers = 1, a_ids_per_chunk = 0, a_stream_buffer_size = 8, a_uds = False,
      a_shutdown_timeout = 3\<rparr> = Inr c \<and>
    stream_ids 0 (\<lambda>g :: unit. (Inr (Pending 1), g)) (\<lambda>_. Inr []) deliver 1
      \<lparr>s_config = c, s_pool = pool_new [Some (worker_start 0 ())] 3, s_shutdown = False,
       s_inflight = 0, s_metrics = no_metrics\<rparr> = None"
proof -
  let ?args = "\<lparr>a_server_addr = [], a_max_allowed_ids = 100, a_shard_offset = 0,
      a_num_workers = 1, a_ids_per_chunk = 0, a_stream_buffer_size = 8, a_uds = False,
      a_shutdown_timeout = 3\<rparr>"
  obtain c where c: "config_try_from ?args = Inr c" "ids_per_chunk c = 0" "max_allowed_ids c = 100"
      "chunk_bytes c = 0"
    by (simp add: config_cases)
  then show ?thesis
    by (intro exI [of _ c] conjI zero_chunk_never_returns [OF c(1,2)])
      (simp_all add: pool_new_def worker_start_ok)
qed

text \<open>C33: a worker that panics is not noticed by the request it was serving: the coordinator sees the
  end of the chunk channel and takes it for the end of the chunk. On a service with one worker, a request that fits
  one chunk and whose first poll of the generator panics ends with success although not a single
  identifier was delivered; only the next request for that worker is answered with an error.\<close>

theorem worker_panic_truncates_stream:
  assumes "config_try_from args = Inr c" and "s_config svc = c" and "\<not> s_shutdown svc"
    and "s_pool svc = pool_new [Some w] timeout" and "poll_id (w_gen w) = (Inl panic, g)"
    and "0 < unat count" and "unat count \<le> unat (ids_per_chunk c)"
    and "unat count \<le> unat (max_allowed_ids c)" and "channel (stream_buffer_size c) = Inr []"
  shows "\<exists>svc'. stream_ids elapsed poll_id channel deliver count svc = Some (Inr (Inr (Inr (Inr ()), [])), svc') \<and>
    (\<exists>svc''. stream_ids elapsed poll_id channel deliver count svc' =
      Some (Inr (Inr (Inr (Inl (ChannelError ''Worker 0 channel closed'')),
        [Inl (Status Internal ''Channel error: Worker 0 channel closed'')])), svc''))"
proof -
  let ?cb = "unat (chunk_bytes c)" and ?n = "unat count"
  have zero: "show_nat 0 = ''0''" by code_simp
  have min: "min ?n (unat (ids_per_chunk c)) = ?n" using assms(7) by simp
  have "worker_round poll_id ?cb (Stream ?n) w = Some ([], None)"
    using assms(5,6) by (simp add: worker_round_def handle_stream_request_def stream_loop.simps)
  then have one: "send_to_next_worker poll_id ?cb (Stream ?n) (pool_new [Some w] timeout) =
      Some (Inr (Inr []), (pool_new [None] timeout)\<lparr>next_worker := 1\<rparr>)"
    by (simp add: send_to_next_worker_def next_worker_index_ok pool_new_def)
  have two: "send_to_next_worker poll_id ?cb (Stream ?n) ((pool_new [None] timeout)\<lparr>next_worker := 1\<rparr>) =
      Some (Inr (Inl (ChannelError ''Worker 0 channel closed'')), (pool_new [None] timeout)\<lparr>next_worker := 2\<rparr>)"
    by (simp add: send_to_next_worker_def next_worker_index_ok pool_new_def zero)
  have "feed_chunks poll_id deliver ?n (pool_new [Some w] timeout) [] c =
      Some (Inr (Inr ()), (pool_new [None] timeout)\<lparr>next_worker := 1\<rparr>, [])"
    unfolding feed_chunks_def
    by (subst feed_loop.simps, simp add: feed_step_def assms(6) min one Let_def, subst feed_loop.simps, simp)
  moreover have "feed_chunks poll_id deliver ?n ((pool_new [None] timeout)\<lparr>next_worker := 1\<rparr>) [] c =
      Some (Inr (Inl (ChannelError ''Worker 0 channel closed'')),
        (pool_new [None] timeout)\<lparr>next_worker := 2\<rparr>,
        [Inl (Status Internal ''Channel error: Worker 0 channel closed'')])"
    unfolding feed_chunks_def
    by (subst feed_loop.simps) (simp add: feed_step_def assms(6) min two Let_def status_of_error_def deliver_def)
  ultimately show ?thesis
    using assms(2-4,6,8,9) by (simp add: stream_ids_def stream_accept_def Let_def)
qed

theorem worker_panic_truncates_stream_witness:
  "\<exists>svc'. stream_ids 0 (\<lambda>g :: unit. (Inl (Panic ''timestamp overflow''), g)) (\<lambda>_. Inr []) deliver 2
      \<lparr>s_config = demo_config, s_pool = pool_new [Some (worker_start 16 ())] 3, s_shutdown = False,
       s_inflight = 0, s_metrics = no_metrics\<rparr> = Some (Inr (Inr (Inr (Inr ()), [])), svc')"
  using worker_panic_truncates_stream [OF demo_config, where svc = "\<lparr>s_config = demo_config,
      s_pool = pool_new [Some (worker_start 16 ())] 3, s_shutdown = False, s_inflight = 0, s_metrics = no_metrics\<rparr>"
      and poll_id = "\<lambda>g. (Inl (Panic ''timestamp overflow''), g)" and count = 2
      and w = "worker_start 16 ()" and channel = "\<lambda>_. Inr []"]
  by (simp add: demo_config_def) blast

end
