(* ===== verification/Server_Machine.thy ===== *)
theory Server_Machine
  imports Stream_Service
begin

text \<open>
  The server as a system of tasks that run at the same time: one task per stream
  (\<open>feed_chunks\<close>, spawned by \<open>stream_ids\<close>), one task per worker (\<open>worker_loop\<close>), the
  clients, and the shutdown (\<open>shutdown_signal\<close> of \<^verbatim>\<open>main.rs\<close> and \<open>WorkerPool::shutdown\<close>).
  An action is what one task does between two points where it waits; a schedule is a list of
  actions, and an action that must wait has no next state.

  The channels are what the source makes them: a worker's queue holds one request, and the
  worker takes it out before it serves it; the chunk channel of a request is closed when the
  request is served or dropped; a response channel holds up to \<open>stream_buffer_size\<close> messages.
  The requests a worker still has when its task ends are dropped with its queue. That
  creating a response channel may panic is the parameter \<open>channel\<close>. A chunk channel holds
  two messages, and a request sends at most one (the theory \<open>Stream_Worker\<close>), so that a
  worker never waits for it. The grace period of a shutdown may end at any time: the action
  \<open>Cancel\<close> is not guarded, and covers both a drain that succeeds and one that times out.
\<close>

subsection \<open>State\<close>

text \<open>
  Where a stream's task is: at the head of the loop; waiting to hand its request for
  \<open>k\<close> identifiers to worker \<open>i\<close>; waiting for the answer; receiving and forwarding the messages
  of a chunk channel that is closed by now; waiting to send an error to the client; done.
\<close>

datatype task_pc =
    Looping
  | Sending nat nat
  | Awaiting nat
  | Receiving "bytes list"
  | Reporting server_error
  | Returned "server_error + unit"
  | Panicked

record task =
  t_total :: nat
  t_remaining :: nat
  t_pc :: task_pc
  t_buf :: "message list"
  t_taken :: "message list"
  t_gone :: bool

datatype envelope = Chunk nat nat | Stop

record mailbox =
  mb_queue :: "envelope option"
  mb_busy :: "envelope option"

datatype phase = Serving | NotServing | Draining | Stopping nat | Stopped

text \<open>The last field counts the requests whose response channel could not be created.\<close>

record 'g server =
  sv_service :: "'g service"
  sv_mail :: "mailbox list"
  sv_tasks :: "task list"
  sv_phase :: phase
  sv_leaked :: nat

definition new_task :: "nat \<Rightarrow> task" where
  "new_task total_ids = \<lparr>t_total = total_ids, t_remaining = total_ids, t_pc = Looping,
     t_buf = [], t_taken = [], t_gone = False\<rparr>"

definition no_mail :: mailbox where
  "no_mail = \<lparr>mb_queue = None, mb_busy = None\<rparr>"

definition server_start :: "'g service \<Rightarrow> 'g server" where
  "server_start svc = \<lparr>sv_service = svc, sv_mail = replicate (length (workers (s_pool svc))) no_mail,
     sv_tasks = [], sv_phase = Serving, sv_leaked = 0\<rparr>"

abbreviation sv_workers :: "'g server \<Rightarrow> 'g worker option list" where
  "sv_workers s \<equiv> workers (s_pool (sv_service s))"

abbreviation sv_config :: "'g server \<Rightarrow> server_config" where
  "sv_config s \<equiv> s_config (sv_service s)"

definition set_task :: "nat \<Rightarrow> task \<Rightarrow> 'g server \<Rightarrow> 'g server" where
  "set_task t tk s = s\<lparr>sv_tasks := (sv_tasks s)[t := tk]\<rparr>"

definition set_mail :: "nat \<Rightarrow> mailbox \<Rightarrow> 'g server \<Rightarrow> 'g server" where
  "set_mail i mb s = s\<lparr>sv_mail := (sv_mail s)[i := mb]\<rparr>"

definition set_pool :: "'g pool \<Rightarrow> 'g server \<Rightarrow> 'g server" where
  "set_pool p s = s\<lparr>sv_service := (sv_service s)\<lparr>s_pool := p\<rparr>\<rparr>"

definition set_worker :: "nat \<Rightarrow> 'g worker option \<Rightarrow> 'g server \<Rightarrow> 'g server" where
  "set_worker i ow s =
     (let p = s_pool (sv_service s) in set_pool (p\<lparr>workers := (workers p)[i := ow]\<rparr>) s)"

subsection \<open>Streams\<close>

text \<open>A call of \<open>stream_ids\<close>: a refusal, a panic, or a new task.\<close>

definition act_request :: "(usize \<Rightarrow> unit res) \<Rightarrow> u64 \<Rightarrow> 'g server \<Rightarrow> 'g server option" where
  "act_request channel count s =
     (case stream_accept count (sv_service s) of
        (Inl status, svc) \<Rightarrow> Some (s\<lparr>sv_service := svc\<rparr>)
      | (Inr total_ids, svc) \<Rightarrow>
          (case channel (stream_buffer_size (s_config svc)) of
             Inl panic \<Rightarrow> Some (s\<lparr>sv_service := svc, sv_leaked := sv_leaked s + 1\<rparr>)
           | Inr _ \<Rightarrow> Some (s\<lparr>sv_service := svc, sv_tasks := sv_tasks s @ [new_task total_ids]\<rparr>)))"

text \<open>\<open>feed_chunks\<close> has returned: the end of the task.\<close>

definition finish :: "int \<Rightarrow> nat \<Rightarrow> task \<Rightarrow> server_error + unit \<Rightarrow> 'g server \<Rightarrow> 'g server" where
  "finish elapsed t tk outcome s =
     (set_task t (tk\<lparr>t_pc := Returned outcome\<rparr>) s)
       \<lparr>sv_service := stream_finish elapsed (sv_service s)\<rparr>"

text \<open>The head of the loop, up to the wait for the worker's queue.\<close>

definition act_iterate :: "int \<Rightarrow> nat \<Rightarrow> 'g server \<Rightarrow> 'g server option" where
  "act_iterate elapsed t s =
     (let tk = sv_tasks s ! t; p = s_pool (sv_service s)
      in if t < length (sv_tasks s) \<and> t_pc tk = Looping then
           if t_remaining tk > 0 then
             let chunk_size = min (t_remaining tk) (unat (ids_per_chunk (sv_config s)));
                 tk = tk\<lparr>t_remaining := t_remaining tk - chunk_size\<rparr>
             in if cancelled p then Some (set_task t (tk\<lparr>t_pc := Reporting ServiceShutdown\<rparr>) s)
                else case next_worker_index p of
                    (Inl panic, p) \<Rightarrow> Some (set_pool p (set_task t (tk\<lparr>t_pc := Panicked\<rparr>) s))
                  | (Inr worker_idx, p) \<Rightarrow>
                      Some (set_pool p (set_task t (tk\<lparr>t_pc := Sending worker_idx chunk_size\<rparr>) s))
           else Some (finish elapsed t tk (Inr ()) s)
         else None)"

text \<open>\<open>worker.send(request).await\<close>: waits for room, fails when the worker's task has ended.\<close>

definition act_send :: "nat \<Rightarrow> 'g server \<Rightarrow> 'g server option" where
  "act_send t s =
     (let tk = sv_tasks s ! t
      in if t < length (sv_tasks s) then
           (case t_pc tk of
              Sending worker_idx chunk_size \<Rightarrow>
                (case sv_workers s ! worker_idx of
                   None \<Rightarrow> Some (set_task t (tk\<lparr>t_pc := Reporting (ChannelError
                     (''Worker '' @ show_nat worker_idx @ '' channel closed''))\<rparr>) s)
                 | Some _ \<Rightarrow>
                     (let mb = sv_mail s ! worker_idx
                      in if mb_queue mb = None then
                           Some (set_mail worker_idx (mb\<lparr>mb_queue := Some (Chunk t chunk_size)\<rparr>)
                                   (set_task t (tk\<lparr>t_pc := Awaiting chunk_size\<rparr>) s))
                         else None))
            | _ \<Rightarrow> None)
         else None)"

text \<open>
  Forwarding one message to the client, which fails when the client is gone and waits when the
  response channel is full; the end of the chunk channel.
\<close>

definition act_forward :: "int \<Rightarrow> nat \<Rightarrow> 'g server \<Rightarrow> 'g server option" where
  "act_forward elapsed t s =
     (let tk = sv_tasks s ! t
      in if t < length (sv_tasks s) then
           (case t_pc tk of
              Receiving [] \<Rightarrow> Some (set_task t (tk\<lparr>t_pc := Looping\<rparr>) s)
            | Receiving (m # ms) \<Rightarrow>
                if t_gone tk then
                  Some (finish elapsed t tk
                    (Inl (ChannelError (''Failed to forward chunk: '' @ ''channel closed''))) s)
                else if length (t_buf tk) < unat (stream_buffer_size (sv_config s)) then
                  Some (set_task t (tk\<lparr>t_buf := t_buf tk @ [Inr m], t_pc := Receiving ms\<rparr>) s)
                else None
            | _ \<Rightarrow> None)
         else None)"

text \<open>\<open>resp_tx.send(Err(e.clone().into())).await\<close>, whose failure is ignored.\<close>

definition act_report :: "int \<Rightarrow> nat \<Rightarrow> 'g server \<Rightarrow> 'g server option" where
  "act_report elapsed t s =
     (let tk = sv_tasks s ! t
      in if t < length (sv_tasks s) then
           (case t_pc tk of
              Reporting e \<Rightarrow>
                if t_gone tk then Some (finish elapsed t tk (Inl e) s)
                else if length (t_buf tk) < unat (stream_buffer_size (sv_config s)) then
                  Some (finish elapsed t (tk\<lparr>t_buf := t_buf tk @ [Inl (status_of_error e)]\<rparr>) (Inl e) s)
                else None
            | _ \<Rightarrow> None)
         else None)"

subsection \<open>Clients\<close>

text \<open>A client takes the next message from its stream, or goes away; the rest is then dropped.\<close>

definition act_client_take :: "nat \<Rightarrow> 'g server \<Rightarrow> 'g server option" where
  "act_client_take t s =
     (let tk = sv_tasks s ! t
      in if t < length (sv_tasks s) \<and> \<not> t_gone tk then
           (case t_buf tk of
              [] \<Rightarrow> None
            | m # ms \<Rightarrow>
                Some ((set_task t (tk\<lparr>t_buf := ms, t_taken := t_taken tk @ [m]\<rparr>) s)
                  \<lparr>sv_service := stream_inspect m (sv_service s)\<rparr>))
         else None)"

definition act_disconnect :: "nat \<Rightarrow> 'g server \<Rightarrow> 'g server option" where
  "act_disconnect t s =
     (let tk = sv_tasks s ! t
      in if t < length (sv_tasks s) \<and> \<not> t_gone tk
         then Some (set_task t (tk\<lparr>t_buf := [], t_gone := True\<rparr>) s) else None)"

subsection \<open>Workers\<close>

definition act_take :: "nat \<Rightarrow> 'g server \<Rightarrow> 'g server option" where
  "act_take i s =
     (let mb = sv_mail s ! i
      in if i < length (sv_workers s) \<and> sv_workers s ! i \<noteq> None \<and> mb_busy mb = None \<and>
           mb_queue mb \<noteq> None
         then Some (set_mail i \<lparr>mb_queue = None, mb_busy = mb_queue mb\<rparr> s) else None)"

definition work_of :: "envelope \<Rightarrow> work_request" where
  "work_of e = (case e of Chunk _ chunk_size \<Rightarrow> Stream chunk_size | Stop \<Rightarrow> Shutdown)"

text \<open>The chunk channel of a request is closed, with the messages \<open>msgs\<close> in it.\<close>

definition close_chunk :: "envelope option \<Rightarrow> bytes list \<Rightarrow> 'g server \<Rightarrow> 'g server" where
  "close_chunk e msgs s =
     (case e of
        Some (Chunk t _) \<Rightarrow> set_task t ((sv_tasks s ! t)\<lparr>t_pc := Receiving msgs\<rparr>) s
      | _ \<Rightarrow> s)"

text \<open>
  One round of \<open>worker_loop\<close>. A worker whose task ends, by a panic or a shutdown request,
  drops the request that waits in its queue.
\<close>

definition act_serve ::
  "('g \<Rightarrow> (u64 snowflake, u64) poll res \<times> 'g) \<Rightarrow> nat \<Rightarrow> 'g server \<Rightarrow> 'g server option" where
  "act_serve poll_id i s =
     (let mb = sv_mail s ! i
      in if i < length (sv_workers s) then
           (case (sv_workers s ! i, mb_busy mb) of
              (Some w, Some e) \<Rightarrow>
                (case worker_round poll_id (unat (chunk_bytes (sv_config s))) (work_of e) w of
                   None \<Rightarrow> None
                 | Some (msgs, Some w') \<Rightarrow>
                     Some (set_mail i (mb\<lparr>mb_busy := None\<rparr>)
                             (close_chunk (Some e) msgs (set_worker i (Some w') s)))
                 | Some (msgs, None) \<Rightarrow>
                     Some (set_mail i no_mail
                             (close_chunk (mb_queue mb) []
                               (close_chunk (Some e) msgs (set_worker i None s)))))
            | _ \<Rightarrow> None)
         else None)"

subsection \<open>Shutdown\<close>

text \<open>The status \<open>NOT_SERVING\<close> is published; new requests are refused; the work is cancelled.\<close>

definition act_signal :: "'g server \<Rightarrow> 'g server option" where
  "act_signal s = (if sv_phase s = Serving then Some (s\<lparr>sv_phase := NotServing\<rparr>) else None)"

definition act_refuse :: "'g server \<Rightarrow> 'g server option" where
  "act_refuse s =
     (if sv_phase s = NotServing
      then Some (s\<lparr>sv_service := set_global_shutdown (sv_service s), sv_phase := Draining\<rparr>)
      else None)"

definition act_cancel :: "'g server \<Rightarrow> 'g server option" where
  "act_cancel s =
     (if sv_phase s = Draining
      then Some ((set_pool ((s_pool (sv_service s))\<lparr>cancelled := True\<rparr>) s)\<lparr>sv_phase := Stopping 0\<rparr>)
      else None)"

text \<open>Sending the shutdown request to the next worker; the end of the shutdown.\<close>

definition act_stop_next :: "'g server \<Rightarrow> 'g server option" where
  "act_stop_next s =
     (case sv_phase s of
        Stopping i \<Rightarrow>
          if i < length (sv_workers s) then
            (case sv_workers s ! i of
               None \<Rightarrow> Some (s\<lparr>sv_phase := Stopping (i + 1)\<rparr>)
             | Some _ \<Rightarrow>
                 (let mb = sv_mail s ! i
                  in if mb_queue mb = None then
                       Some ((set_mail i (mb\<lparr>mb_queue := Some Stop\<rparr>) s)\<lparr>sv_phase := Stopping (i + 1)\<rparr>)
                     else None))
          else Some (s\<lparr>sv_phase := Stopped\<rparr>)
      | _ \<Rightarrow> None)"

subsection \<open>Schedules\<close>

text \<open>The actions that end a stream carry the time the stream took.\<close>

datatype action =
    Request u64
  | Iterate int nat
  | Send nat
  | Forward int nat
  | Report int nat
  | ClientTake nat
  | Disconnect nat
  | Take nat
  | Serve nat
  | Signal
  | Refuse
  | Cancel
  | StopNext

fun server_act ::
  "(usize \<Rightarrow> unit res) \<Rightarrow> ('g \<Rightarrow> (u64 snowflake, u64) poll res \<times> 'g) \<Rightarrow> action \<Rightarrow> 'g server \<Rightarrow>
     'g server option" where
  "server_act channel poll_id (Request count) s = act_request channel count s"
| "server_act channel poll_id (Iterate elapsed t) s = act_iterate elapsed t s"
| "server_act channel poll_id (Send t) s = act_send t s"
| "server_act channel poll_id (Forward elapsed t) s = act_forward elapsed t s"
| "server_act channel poll_id (Report elapsed t) s = act_report elapsed t s"
| "server_act channel poll_id (ClientTake t) s = act_client_take t s"
| "server_act channel poll_id (Disconnect t) s = act_disconnect t s"
| "server_act channel poll_id (Take i) s = act_take i s"
| "server_act channel poll_id (Serve i) s = act_serve poll_id i s"
| "server_act channel poll_id Signal s = act_signal s"
| "server_act channel poll_id Refuse s = act_refuse s"
| "server_act channel poll_id Cancel s = act_cancel s"
| "server_act channel poll_id StopNext s = act_stop_next s"

fun server_run ::
  "(usize \<Rightarrow> unit res) \<Rightarrow> ('g \<Rightarrow> (u64 snowflake, u64) poll res \<times> 'g) \<Rightarrow> action list \<Rightarrow> 'g server \<Rightarrow>
     'g server option" where
  "server_run channel poll_id [] s = Some s"
| "server_run channel poll_id (a # as) s =
     (case server_act channel poll_id a s of
        None \<Rightarrow> None
      | Some s' \<Rightarrow> server_run channel poll_id as s')"

inductive server_reach ::
  "(usize \<Rightarrow> unit res) \<Rightarrow> ('g \<Rightarrow> (u64 snowflake, u64) poll res \<times> 'g) \<Rightarrow> 'g server \<Rightarrow> 'g server \<Rightarrow> bool"
  for channel poll_id s0 where
  start: "server_reach channel poll_id s0 s0"
| step: "server_reach channel poll_id s0 s \<Longrightarrow> server_act channel poll_id a s = Some s' \<Longrightarrow>
    server_reach channel poll_id s0 s'"

subsection \<open>What the primitive updates change\<close>

lemma set_task_simps [simp]:
  "sv_service (set_task t tk s) = sv_service s"
  "sv_mail (set_task t tk s) = sv_mail s"
  "sv_tasks (set_task t tk s) = (sv_tasks s)[t := tk]"
  "sv_phase (set_task t tk s) = sv_phase s"
  "sv_leaked (set_task t tk s) = sv_leaked s"
  by (simp_all add: set_task_def)

lemma set_mail_simps [simp]:
  "sv_service (set_mail i mb s) = sv_service s"
  "sv_mail (set_mail i mb s) = (sv_mail s)[i := mb]"
  "sv_tasks (set_mail i mb s) = sv_tasks s"
  "sv_phase (set_mail i mb s) = sv_phase s"
  "sv_leaked (set_mail i mb s) = sv_leaked s"
  by (simp_all add: set_mail_def)

lemma set_pool_simps [simp]:
  "sv_service (set_pool p s) = (sv_service s)\<lparr>s_pool := p\<rparr>"
  "sv_mail (set_pool p s) = sv_mail s"
  "sv_tasks (set_pool p s) = sv_tasks s"
  "sv_phase (set_pool p s) = sv_phase s"
  "sv_leaked (set_pool p s) = sv_leaked s"
  by (simp_all add: set_pool_def)

lemma set_worker_simps [simp]:
  "sv_service (set_worker i ow s) =
     (sv_service s)\<lparr>s_pool := (s_pool (sv_service s))\<lparr>workers := (sv_workers s)[i := ow]\<rparr>\<rparr>"
  "sv_mail (set_worker i ow s) = sv_mail s"
  "sv_tasks (set_worker i ow s) = sv_tasks s"
  "sv_phase (set_worker i ow s) = sv_phase s"
  "sv_leaked (set_worker i ow s) = sv_leaked s"
  by (simp_all add: set_worker_def Let_def)

lemma finish_simps [simp]:
  "sv_service (finish elapsed t tk outcome s) = stream_finish elapsed (sv_service s)"
  "sv_mail (finish elapsed t tk outcome s) = sv_mail s"
  "sv_tasks (finish elapsed t tk outcome s) = (sv_tasks s)[t := tk\<lparr>t_pc := Returned outcome\<rparr>]"
  "sv_phase (finish elapsed t tk outcome s) = sv_phase s"
  "sv_leaked (finish elapsed t tk outcome s) = sv_leaked s"
  by (simp_all add: finish_def)

text \<open>The tasks after the chunk channel of one request is closed.\<close>

definition closed_tasks :: "envelope option \<Rightarrow> bytes list \<Rightarrow> task list \<Rightarrow> task list" where
  "closed_tasks e msgs ts =
     (case e of Some (Chunk t _) \<Rightarrow> ts[t := (ts ! t)\<lparr>t_pc := Receiving msgs\<rparr>] | _ \<Rightarrow> ts)"

lemma close_chunk_simps [simp]:
  "sv_service (close_chunk e msgs s) = sv_service s"
  "sv_mail (close_chunk e msgs s) = sv_mail s"
  "sv_tasks (close_chunk e msgs s) = closed_tasks e msgs (sv_tasks s)"
  "sv_phase (close_chunk e msgs s) = sv_phase s"
  "sv_leaked (close_chunk e msgs s) = sv_leaked s"
  by (simp_all add: close_chunk_def closed_tasks_def split: option.split envelope.split)

lemma stream_inspect_simps [simp]:
  "s_config (stream_inspect m svc) = s_config svc"
  "s_pool (stream_inspect m svc) = s_pool svc"
  "s_shutdown (stream_inspect m svc) = s_shutdown svc"
  "s_inflight (stream_inspect m svc) = s_inflight svc"
  by (simp_all add: stream_inspect_def split: sum.split)

lemma stream_accept_keeps:
  assumes "stream_accept count svc = (r, svc')"
  shows "s_config svc' = s_config svc" and "s_pool svc' = s_pool svc"
    and "s_shutdown svc' = s_shutdown svc"
  using assms by (auto simp: stream_accept_def Let_def split: if_splits)

lemma next_worker_index_keeps:
  assumes "next_worker_index p = (r, p')"
  shows "workers p' = workers p" and "cancelled p' = cancelled p"
    and "\<And>i. r = Inr i \<Longrightarrow> i < length (workers p)" and "\<And>e. r = Inl e \<Longrightarrow> workers p = []"
  using assms by (auto simp: next_worker_index_def Let_def split: if_splits)

subsection \<open>The cases of an action\<close>

text \<open>
  Every action changes the workers, the mail, the tasks and the service's counters in one of a few
  ways. The invariants below are proved for these.
\<close>

inductive_cases server_reachE: "server_reach channel poll_id s0 s"

lemma act_requestE:
  assumes "act_request channel count s = Some s'"
  obtains
    (refused) status svc where "stream_accept count (sv_service s) = (Inl status, svc)"
      "s' = s\<lparr>sv_service := svc\<rparr>"
  | (leaked) n svc where "stream_accept count (sv_service s) = (Inr n, svc)"
      "s' = s\<lparr>sv_service := svc, sv_leaked := sv_leaked s + 1\<rparr>"
  | (opened) n svc where "stream_accept count (sv_service s) = (Inr n, svc)"
      "s' = s\<lparr>sv_service := svc, sv_tasks := sv_tasks s @ [new_task n]\<rparr>"
  using assms by (auto simp: act_request_def split: prod.splits sum.splits)


lemma act_iterateE:
  assumes "act_iterate elapsed t s = Some s'"
  obtains
    (completed) "t < length (sv_tasks s)" "t_pc (sv_tasks s ! t) = Looping" "t_remaining (sv_tasks s ! t) = 0"
      "s' = finish elapsed t (sv_tasks s ! t) (Inr ()) s"
  | (cancelled) k where "t < length (sv_tasks s)" "t_pc (sv_tasks s ! t) = Looping"
      "0 < t_remaining (sv_tasks s ! t)"
      "k = min (t_remaining (sv_tasks s ! t)) (unat (ids_per_chunk (sv_config s)))"
      "s' = set_task t ((sv_tasks s ! t)\<lparr>t_remaining := t_remaining (sv_tasks s ! t) - k,
              t_pc := Reporting ServiceShutdown\<rparr>) s"
  | (panicked) k p where "t < length (sv_tasks s)" "t_pc (sv_tasks s ! t) = Looping"
      "0 < t_remaining (sv_tasks s ! t)" "workers p = sv_workers s"
      "cancelled p = cancelled (s_pool (sv_service s))" "sv_workers s = []"
      "k = min (t_remaining (sv_tasks s ! t)) (unat (ids_per_chunk (sv_config s)))"
      "s' = set_pool p (set_task t ((sv_tasks s ! t)\<lparr>t_remaining := t_remaining (sv_tasks s ! t) - k,
              t_pc := Panicked\<rparr>) s)"
  | (claimed) k i p where "t < length (sv_tasks s)" "t_pc (sv_tasks s ! t) = Looping"
      "0 < t_remaining (sv_tasks s ! t)" "workers p = sv_workers s"
      "cancelled p = cancelled (s_pool (sv_service s))" "i < length (sv_workers s)"
      "k = min (t_remaining (sv_tasks s ! t)) (unat (ids_per_chunk (sv_config s)))"
      "s' = set_pool p (set_task t ((sv_tasks s ! t)\<lparr>t_remaining := t_remaining (sv_tasks s ! t) - k,
              t_pc := Sending i k\<rparr>) s)"
proof -
  from assms have t: "t < length (sv_tasks s)" "t_pc (sv_tasks s ! t) = Looping"
    by (simp_all add: act_iterate_def Let_def split: if_splits)
  show thesis
  proof (cases "t_remaining (sv_tasks s ! t) = 0")
    case True
    with assms t completed show thesis by (simp add: act_iterate_def Let_def)
  next
    case False
    obtain r p where n: "next_worker_index (s_pool (sv_service s)) = (r, p)" by fastforce
    show thesis
    proof (cases "cancelled (s_pool (sv_service s))")
      case True
      with assms t False cancelled [OF t _ refl] show thesis by (simp add: act_iterate_def Let_def)
    next
      case running: False
      note keeps = next_worker_index_keeps [OF n]
      show thesis
        using assms t False running n panicked [OF t _ keeps(1,2) _ refl] claimed [OF t _ keeps(1,2) _ refl]
          keeps(3,4)
        by (cases r) (simp_all add: act_iterate_def Let_def)
    qed
  qed
qed

lemma act_sendE:
  assumes "act_send t s = Some s'"
  obtains
    (closed) i k e where "t < length (sv_tasks s)" "t_pc (sv_tasks s ! t) = Sending i k"
      "sv_workers s ! i = None" "s' = set_task t ((sv_tasks s ! t)\<lparr>t_pc := Reporting e\<rparr>) s"
  | (queued) i k where "t < length (sv_tasks s)" "t_pc (sv_tasks s ! t) = Sending i k"
      "sv_workers s ! i \<noteq> None" "mb_queue (sv_mail s ! i) = None"
      "s' = set_mail i ((sv_mail s ! i)\<lparr>mb_queue := Some (Chunk t k)\<rparr>)
              (set_task t ((sv_tasks s ! t)\<lparr>t_pc := Awaiting k\<rparr>) s)"
  using assms
  by (auto simp: act_send_def Let_def split: if_splits task_pc.splits option.splits)

lemma act_forwardE:
  assumes "act_forward elapsed t s = Some s'"
  obtains
    (chunk_end) "t < length (sv_tasks s)" "t_pc (sv_tasks s ! t) = Receiving []"
      "s' = set_task t ((sv_tasks s ! t)\<lparr>t_pc := Looping\<rparr>) s"
  | (client_gone) m ms e where "t < length (sv_tasks s)" "t_pc (sv_tasks s ! t) = Receiving (m # ms)"
      "t_gone (sv_tasks s ! t)" "s' = finish elapsed t (sv_tasks s ! t) (Inl e) s"
  | (forwarded) m ms where "t < length (sv_tasks s)" "t_pc (sv_tasks s ! t) = Receiving (m # ms)"
      "\<not> t_gone (sv_tasks s ! t)"
      "s' = set_task t ((sv_tasks s ! t)\<lparr>t_buf := t_buf (sv_tasks s ! t) @ [Inr m],
              t_pc := Receiving ms\<rparr>) s"
  using assms
  by (auto simp: act_forward_def Let_def split: if_splits task_pc.splits list.splits)

lemma act_reportE:
  assumes "act_report elapsed t s = Some s'"
  obtains
    (unsent) e where "t < length (sv_tasks s)" "t_pc (sv_tasks s ! t) = Reporting e"
      "s' = finish elapsed t (sv_tasks s ! t) (Inl e) s"
  | (sent) e where "t < length (sv_tasks s)" "t_pc (sv_tasks s ! t) = Reporting e"
      "\<not> t_gone (sv_tasks s ! t)"
      "s' = finish elapsed t ((sv_tasks s ! t)\<lparr>t_buf := t_buf (sv_tasks s ! t) @
              [Inl (status_of_error e)]\<rparr>) (Inl e) s"
  using assms
  by (auto simp: act_report_def Let_def split: if_splits task_pc.splits)

lemma act_client_takeE:
  assumes "act_client_take t s = Some s'"
  obtains m ms where "t < length (sv_tasks s)" "\<not> t_gone (sv_tasks s ! t)"
    "t_buf (sv_tasks s ! t) = m # ms"
    "s' = (set_task t ((sv_tasks s ! t)\<lparr>t_buf := ms, t_taken := t_taken (sv_tasks s ! t) @ [m]\<rparr>) s)
            \<lparr>sv_service := stream_inspect m (sv_service s)\<rparr>"
  using assms
  by (auto simp: act_client_take_def Let_def split: if_splits list.splits)

lemma act_disconnectE:
  assumes "act_disconnect t s = Some s'"
  obtains "t < length (sv_tasks s)" "\<not> t_gone (sv_tasks s ! t)"
    "s' = set_task t ((sv_tasks s ! t)\<lparr>t_buf := [], t_gone := True\<rparr>) s"
  using assms by (auto simp: act_disconnect_def Let_def split: if_splits)

lemma act_takeE:
  assumes "act_take i s = Some s'"
  obtains "i < length (sv_workers s)" "sv_workers s ! i \<noteq> None" "mb_busy (sv_mail s ! i) = None"
    "mb_queue (sv_mail s ! i) \<noteq> None"
    "s' = set_mail i \<lparr>mb_queue = None, mb_busy = mb_queue (sv_mail s ! i)\<rparr> s"
  using assms by (auto simp: act_take_def Let_def split: if_splits)

lemma act_stop_nextE:
  assumes "act_stop_next s = Some s'"
  obtains
    (absent) i where "sv_phase s = Stopping i" "i < length (sv_workers s)" "sv_workers s ! i = None"
      "s' = s\<lparr>sv_phase := Stopping (i + 1)\<rparr>"
  | (asked) i where "sv_phase s = Stopping i" "i < length (sv_workers s)" "sv_workers s ! i \<noteq> None"
      "mb_queue (sv_mail s ! i) = None"
      "s' = (set_mail i ((sv_mail s ! i)\<lparr>mb_queue := Some Stop\<rparr>) s)\<lparr>sv_phase := Stopping (i + 1)\<rparr>"
  | (stopped) i where "sv_phase s = Stopping i" "length (sv_workers s) \<le> i"
      "s' = s\<lparr>sv_phase := Stopped\<rparr>"
  using assms
  by (auto simp: act_stop_next_def Let_def split: phase.splits if_splits option.splits)

lemma act_serveE:
  assumes "act_serve poll_id i s = Some s'"
  obtains
    (answered) w e msgs w' where "i < length (sv_workers s)" "sv_workers s ! i = Some w"
      "mb_busy (sv_mail s ! i) = Some e"
      "worker_round poll_id (unat (chunk_bytes (sv_config s))) (work_of e) w = Some (msgs, Some w')"
      "s' = set_mail i ((sv_mail s ! i)\<lparr>mb_busy := None\<rparr>)
              (close_chunk (Some e) msgs (set_worker i (Some w') s))"
  | (ended) w e msgs where "i < length (sv_workers s)" "sv_workers s ! i = Some w"
      "mb_busy (sv_mail s ! i) = Some e"
      "worker_round poll_id (unat (chunk_bytes (sv_config s))) (work_of e) w = Some (msgs, None)"
      "s' = set_mail i no_mail (close_chunk (mb_queue (sv_mail s ! i)) []
              (close_chunk (Some e) msgs (set_worker i None s)))"
  using assms
  by (auto simp: act_serve_def Let_def split: if_splits option.splits prod.splits)

end
