(* ===== verification/Server_Invariants.thy ===== *)
theory Server_Invariants
  imports Server_Machine
begin

text \<open>
  Invariants of the machine of theory \<open>Server_Machine\<close>, in every state a schedule can reach:
  where the requests are and what the tasks wait for, the counters, the phases of a shutdown, and
  the identifiers on their way to the clients. The last one is proved in the locale
  \<open>worker_contract\<close> from what a worker promises, and interpreted on the Snowflake workers.
\<close>

subsection \<open>Requests and the tasks that wait for them\<close>

definition slot_count :: "nat \<Rightarrow> envelope option \<Rightarrow> nat" where
  "slot_count t e = (case e of Some (Chunk u _) \<Rightarrow> if u = t then 1 else 0 | _ \<Rightarrow> 0)"

definition mail_count :: "nat \<Rightarrow> mailbox \<Rightarrow> nat" where
  "mail_count t mb = slot_count t (mb_queue mb) + slot_count t (mb_busy mb)"

definition letter_ok :: "task list \<Rightarrow> envelope option \<Rightarrow> bool" where
  "letter_ok ts e =
     (case e of
        Some (Chunk t k) \<Rightarrow> t < length ts \<and> t_pc (ts ! t) = Awaiting k
      | _ \<Rightarrow> True)"

definition chunk_ok :: "nat \<Rightarrow> nat \<Rightarrow> bool" where
  "chunk_ok per_chunk k \<longleftrightarrow> k \<le> per_chunk \<and> (0 < per_chunk \<longrightarrow> 0 < k)"

definition task_ok :: "nat \<Rightarrow> nat \<Rightarrow> task \<Rightarrow> bool" where
  "task_ok per_chunk n tk =
     (case t_pc tk of
        Sending i k \<Rightarrow> i < n \<and> chunk_ok per_chunk k
      | Awaiting k \<Rightarrow> chunk_ok per_chunk k
      | Panicked \<Rightarrow> n = 0
      | _ \<Rightarrow> True)"

definition is_awaiting :: "task_pc \<Rightarrow> bool" where
  "is_awaiting pc = (case pc of Awaiting _ \<Rightarrow> True | _ \<Rightarrow> False)"

definition parts_wf :: "nat \<Rightarrow> 'w option list \<Rightarrow> mailbox list \<Rightarrow> task list \<Rightarrow> bool" where
  "parts_wf per_chunk ws ms ts \<longleftrightarrow>
     length ms = length ws \<and>
     (\<forall>i < length ws. ws ! i = None \<longrightarrow> ms ! i = no_mail) \<and>
     (\<forall>mb \<in> set ms. letter_ok ts (mb_queue mb) \<and> letter_ok ts (mb_busy mb)) \<and>
     (\<forall>tk \<in> set ts. task_ok per_chunk (length ws) tk) \<and>
     (\<forall>t < length ts. (\<Sum>mb\<leftarrow>ms. mail_count t mb) = (if is_awaiting (t_pc (ts ! t)) then 1 else 0))"

definition server_wf :: "'g server \<Rightarrow> bool" where
  "server_wf s \<longleftrightarrow>
     parts_wf (unat (ids_per_chunk (sv_config s))) (sv_workers s) (sv_mail s) (sv_tasks s)"

text \<open>A sum over a list after one element is replaced.\<close>

lemma sum_map_update:
  fixes f :: "'a \<Rightarrow> nat"
  assumes "i < length xs"
  shows "(\<Sum>x\<leftarrow>xs[i := y]. f x) + f (xs ! i) = (\<Sum>x\<leftarrow>xs. f x) + f y"
  using assms
proof (induction xs arbitrary: i)
  case (Cons x xs)
  then show ?case by (cases i) fastforce+
qed simp

lemma sum_map_ge: "i < length xs \<Longrightarrow> f (xs ! i) \<le> (\<Sum>x\<leftarrow>xs. f x :: nat)"
  by (simp add: member_le_sum_list)

lemma nth_update: "j < length xs \<Longrightarrow> xs[i := y] ! j = (if i = j then y else xs ! j)"
  by (cases "i < length xs") (auto simp: nth_list_update)

lemma is_awaiting_simps [simp]:
  "is_awaiting (Awaiting k)" "\<not> is_awaiting Looping" "\<not> is_awaiting (Sending i k)"
  "\<not> is_awaiting (Receiving msgs)" "\<not> is_awaiting (Reporting e)" "\<not> is_awaiting (Returned r)"
  "\<not> is_awaiting Panicked"
  by (simp_all add: is_awaiting_def)

lemma mail_count_no_mail [simp]: "mail_count t no_mail = 0"
  by (simp add: mail_count_def no_mail_def slot_count_def)

lemma letter_ok_simps [simp]: "letter_ok ts None" "letter_ok ts (Some Stop)"
  by (simp_all add: letter_ok_def)

text \<open>A task that does not wait for a worker changes.\<close>

lemma letter_ok_update:
  assumes "letter_ok ts e" and "\<not> is_awaiting (t_pc (ts ! t))"
  shows "letter_ok (ts[t := tk]) e"
  using assms by (auto simp: letter_ok_def nth_update split: option.splits envelope.splits)

lemma parts_wf_task:
  assumes "parts_wf c ws ms ts" and "\<not> is_awaiting (t_pc (ts ! t))" and "\<not> is_awaiting (t_pc tk)"
    and "task_ok c (length ws) tk"
  shows "parts_wf c ws ms (ts[t := tk])"
  using assms letter_ok_update [of ts _ t tk] set_update_subset_insert [of ts t tk]
  by (auto simp: parts_wf_def nth_update)

lemma parts_wf_same_pc:
  assumes "parts_wf c ws ms ts" and "t < length ts" and "t_pc tk = t_pc (ts ! t)"
  shows "parts_wf c ws ms (ts[t := tk])"
proof -
  have pc: "t_pc (ts[t := tk] ! u) = t_pc (ts ! u)" if "u < length ts" for u
    using that assms(3) by (simp add: nth_update)
  have "letter_ok (ts[t := tk]) e = letter_ok ts e" for e
    by (auto simp: letter_ok_def pc split: option.splits envelope.splits)
  moreover have "task_ok c n tk = task_ok c n (ts ! t)" for n by (simp add: task_ok_def assms(3))
  ultimately show ?thesis
    using assms(1,2) set_update_subset_insert [of ts t tk] by (auto simp: parts_wf_def pc)
qed

lemma parts_wf_open:
  assumes "parts_wf c ws ms ts"
  shows "parts_wf c ws ms (ts @ [new_task n])"
proof -
  have old: "letter_ok (ts @ [tk]) e" if "letter_ok ts e" for tk e
    using that by (auto simp: letter_ok_def nth_append split: option.splits envelope.splits)
  have none: "slot_count (length ts) e = 0" if "letter_ok ts e" for e
    using that by (auto simp: letter_ok_def slot_count_def split: option.splits envelope.splits)
  have "(\<Sum>mb\<leftarrow>ms. mail_count (length ts) mb) = 0"
    using assms none by (auto simp: parts_wf_def mail_count_def)
  with assms old show ?thesis
    by (auto simp: parts_wf_def nth_append new_task_def task_ok_def less_Suc_eq)
qed

text \<open>A mailbox changes without a request to a stream coming or going; a worker changes.\<close>

lemma parts_wf_mail:
  assumes "parts_wf c ws ms ts" and "ws ! i \<noteq> None \<or> mb = no_mail"
    and "letter_ok ts (mb_queue mb)" and "letter_ok ts (mb_busy mb)" and "i < length ws"
    and "\<And>t. mail_count t mb = mail_count t (ms ! i)"
  shows "parts_wf c ws (ms[i := mb]) ts"
  using assms set_update_subset_insert [of ms i mb] sum_map_update [of i ms "mail_count _" mb]
  by (auto simp: parts_wf_def nth_update)

lemma parts_wf_worker:
  assumes "parts_wf c ws ms ts" and "ow = None \<longrightarrow> ms ! i = no_mail"
  shows "parts_wf c (ws[i := ow]) ms ts"
  using assms by (auto simp: parts_wf_def nth_update)

lemma parts_wf_letters:
  assumes "parts_wf c ws ms ts" and "i < length ws"
  shows "letter_ok ts (mb_queue (ms ! i))" and "letter_ok ts (mb_busy (ms ! i))"
  using assms by (simp_all add: parts_wf_def)

text \<open>A task hands its request to a worker.\<close>

lemma parts_wf_send:
  assumes "parts_wf c ws ms ts" and "i < length ws" and "ws ! i \<noteq> None"
    and "mb_queue (ms ! i) = None" and "t < length ts" and "\<not> is_awaiting (t_pc (ts ! t))"
    and "t_pc tk = Awaiting k" and "chunk_ok c k"
  shows "parts_wf c ws (ms[i := (ms ! i)\<lparr>mb_queue := Some (Chunk t k)\<rparr>]) (ts[t := tk])"
proof -
  let ?mb = "(ms ! i)\<lparr>mb_queue := Some (Chunk t k)\<rparr>"
  have i: "i < length ms" using assms(1,2) by (simp add: parts_wf_def)
  have "mail_count u ?mb = mail_count u (ms ! i) + (if u = t then 1 else 0)" for u
    using assms(4) by (simp add: mail_count_def slot_count_def)
  then have "(\<Sum>mb\<leftarrow>ms[i := ?mb]. mail_count u mb) =
      (\<Sum>mb\<leftarrow>ms. mail_count u mb) + (if u = t then 1 else 0)" for u
    using sum_map_update [OF i, of "mail_count u" ?mb] by simp
  moreover have "letter_ok (ts[t := tk]) (Some (Chunk t k))"
    using assms(5,7) by (simp add: letter_ok_def)
  moreover have "task_ok c (length ws) tk" using assms(7,8) by (simp add: task_ok_def)
  moreover have "letter_ok (ts[t := tk]) (mb_busy (ms ! i))"
    using parts_wf_letters(2) [OF assms(1,2)] assms(6) by (rule letter_ok_update)
  ultimately show ?thesis
    using assms set_update_subset_insert [of ms i ?mb] set_update_subset_insert [of ts t tk]
      letter_ok_update [of ts _ t tk]
    by (auto simp: parts_wf_def nth_update)
qed

text \<open>A request leaves its mailbox and the task that waits for it gets its messages.\<close>

lemma letter_ok_closed:
  assumes "letter_ok ts e" and "slot_count t e = 0"
  shows "letter_ok (ts[t := tk]) e"
  using assms
  by (auto simp: letter_ok_def slot_count_def nth_update split: option.splits envelope.splits if_splits)

lemma parts_wf_close:
  assumes wf: "parts_wf c ws ms ts" and i: "i < length ws"
    and mb: "\<And>t. mail_count t mb + slot_count t e = mail_count t (ms ! i)"
    and lets: "letter_ok ts e" "letter_ok ts (mb_queue mb)" "letter_ok ts (mb_busy mb)"
    and alive: "ws ! i \<noteq> None \<or> mb = no_mail"
  shows "parts_wf c ws (ms[i := mb]) (closed_tasks e msgs ts)"
proof (cases "\<exists>t k. e = Some (Chunk t k)")
  case True
  then obtain t k where e: "e = Some (Chunk t k)" by blast
  let ?tk = "(ts ! t)\<lparr>t_pc := Receiving msgs\<rparr>"
  have t: "t < length ts" "t_pc (ts ! t) = Awaiting k"
    using lets(1) by (simp_all add: e letter_ok_def)
  have i': "i < length ms" using wf i by (simp add: parts_wf_def)
  have sums: "(\<Sum>mb\<leftarrow>ms[i := mb]. mail_count u mb) + slot_count u e = (\<Sum>mb\<leftarrow>ms. mail_count u mb)" for u
    using sum_map_update [OF i', of "mail_count u" mb] mb [of u] by simp
  moreover have "(\<Sum>mb\<leftarrow>ms. mail_count t mb) = 1" using wf t by (simp add: parts_wf_def)
  moreover have "slot_count t e = 1" by (simp add: e slot_count_def)
  ultimately have zero: "(\<Sum>mb\<leftarrow>ms[i := mb]. mail_count t mb) = 0"
    by (metis add_left_cancel add_cancel_left_left)
  then have none: "mail_count t m = 0" if "m \<in> set (ms[i := mb])" for m using that by simp
  have "letter_ok (ts[t := ?tk]) (mb_queue m) \<and> letter_ok (ts[t := ?tk]) (mb_busy m)"
    if m: "m \<in> set (ms[i := mb])" for m
  proof -
    have "m = mb \<or> m \<in> set ms" using m set_update_subset_insert [of ms i mb] by blast
    then have "letter_ok ts (mb_queue m)" "letter_ok ts (mb_busy m)"
      using wf lets(2,3) by (auto simp: parts_wf_def)
    with none [OF m] show ?thesis by (simp add: mail_count_def letter_ok_closed)
  qed
  moreover have "(\<Sum>mb\<leftarrow>ms[i := mb]. mail_count u mb) =
      (if is_awaiting (t_pc (ts[t := ?tk] ! u)) then 1 else 0)" if "u < length ts" for u
    using that wf zero sums [of u] by (auto simp: parts_wf_def nth_update e slot_count_def)
  moreover have "task_ok c (length ws) ?tk" by (simp add: task_ok_def)
  ultimately show ?thesis
    using wf alive i set_update_subset_insert [of ts t ?tk]
    by (auto simp: parts_wf_def nth_update closed_tasks_def e)
next
  case False
  then have "slot_count t e = 0" for t
    by (auto simp: slot_count_def split: option.split envelope.split)
  moreover have "closed_tasks e msgs ts = ts"
    using False by (auto simp: closed_tasks_def split: option.split envelope.split)
  ultimately show ?thesis
    using parts_wf_mail [OF wf alive lets(2,3) i] mb by simp
qed


text \<open>The end of a worker: its request is answered, the one in its queue dropped.\<close>

lemma parts_wf_end:
  assumes wf: "parts_wf c ws ms ts" and i: "i < length ws" and "ws ! i \<noteq> None"
  shows "parts_wf c (ws[i := None]) (ms[i := no_mail])
    (closed_tasks (mb_queue (ms ! i)) [] (closed_tasks (mb_busy (ms ! i)) msgs ts))"
proof -
  let ?mb = "(ms ! i)\<lparr>mb_busy := None\<rparr>" and ?ts = "closed_tasks (mb_busy (ms ! i)) msgs ts"
  note lets = parts_wf_letters [OF wf i]
  have one: "parts_wf c ws (ms[i := ?mb]) ?ts"
    by (rule parts_wf_close [OF wf i])
      (use lets assms(3) in \<open>simp_all add: mail_count_def slot_count_def\<close>)
  have i': "i < length ms" using wf i by (simp add: parts_wf_def)
  have "parts_wf c ws ((ms[i := ?mb])[i := no_mail]) (closed_tasks (mb_queue ?mb) [] ?ts)"
    by (rule parts_wf_close [OF one i])
      (use parts_wf_letters [OF one i] i' in \<open>simp_all add: mail_count_def slot_count_def no_mail_def\<close>)
  then show ?thesis using parts_wf_worker [of c ws _ _ None i] i' by simp
qed

lemma server_wf_start: "server_wf (server_start svc)"
  by (auto simp: server_wf_def parts_wf_def server_start_def no_mail_def)

lemma iterate_chunk_ok: "0 < r \<Longrightarrow> chunk_ok c (min r c)"
  by (simp add: chunk_ok_def)

lemma server_wf_iterate:
  assumes "server_wf s" and "act_iterate elapsed t s = Some s'"
  shows "server_wf s'"
  using assms(2)
  by (cases rule: act_iterateE)
    (use assms(1) in \<open>simp_all add: server_wf_def parts_wf_task task_ok_def iterate_chunk_ok\<close>)

lemma server_wf_task:
  assumes "server_wf s" and "t < length (sv_tasks s)"
  shows "task_ok (unat (ids_per_chunk (sv_config s))) (length (sv_workers s)) (sv_tasks s ! t)"
  using assms by (simp add: server_wf_def parts_wf_def)

lemma server_wf_waiting:
  assumes "server_wf s" and "t < length (sv_tasks s)"
  shows "t_pc (sv_tasks s ! t) = Sending i k \<Longrightarrow>
      i < length (sv_workers s) \<and> chunk_ok (unat (ids_per_chunk (sv_config s))) k"
    and "t_pc (sv_tasks s ! t) = Awaiting k \<Longrightarrow> chunk_ok (unat (ids_per_chunk (sv_config s))) k"
  using server_wf_task [OF assms] by (simp_all add: task_ok_def)

lemma server_wf_send:
  assumes "server_wf s" and "act_send t s = Some s'"
  shows "server_wf s'"
  using assms(2)
proof (cases rule: act_sendE)
  case (closed i k e)
  with assms(1) show ?thesis by (simp add: server_wf_def parts_wf_task task_ok_def)
next
  case (queued i k)
  with assms(1) server_wf_waiting(1) [OF assms(1) queued(1,2)] show ?thesis
    by (simp add: server_wf_def parts_wf_send)
qed

lemma server_wf_serve:
  assumes "server_wf s" and "act_serve poll_id i s = Some s'"
  shows "server_wf s'"
  using assms(2)
proof (cases rule: act_serveE)
  case (answered w e msgs w')
  let ?c = "unat (ids_per_chunk (sv_config s))"
  have "parts_wf ?c ((sv_workers s)[i := Some w']) (sv_mail s) (sv_tasks s)"
    using assms(1) by (intro parts_wf_worker) (simp_all add: server_wf_def)
  from parts_wf_close [OF this, of i "(sv_mail s ! i)\<lparr>mb_busy := None\<rparr>" "Some e" msgs]
    parts_wf_letters [OF this, of i] answered
  show ?thesis by (simp add: server_wf_def mail_count_def slot_count_def)
next
  case (ended w e msgs)
  with assms(1) parts_wf_end [of _ "sv_workers s" "sv_mail s" "sv_tasks s" i msgs]
  show ?thesis by (simp add: server_wf_def)
qed

lemma server_wf_step:
  assumes "server_wf s" and "server_act channel poll_id a s = Some s'"
  shows "server_wf s'"
proof (cases a)
  case (Request count)
  with assms(2) have "act_request channel count s = Some s'" by simp
  then show ?thesis
    by (cases rule: act_requestE)
      (use assms(1) in \<open>simp_all add: server_wf_def stream_accept_keeps parts_wf_open\<close>)
next
  case (Take i)
  with assms(2) have "act_take i s = Some s'" by simp
  then show ?thesis
    by (cases rule: act_takeE)
      (use assms(1) parts_wf_letters [of _ "sv_workers s" "sv_mail s" "sv_tasks s" i] in
        \<open>simp add: server_wf_def parts_wf_mail mail_count_def slot_count_def\<close>)
next
  case StopNext
  with assms(2) have "act_stop_next s = Some s'" by simp
  then show ?thesis
    by (cases rule: act_stop_nextE)
      (use assms(1) parts_wf_letters [of _ "sv_workers s" "sv_mail s" "sv_tasks s"] in
        \<open>simp_all add: server_wf_def parts_wf_mail mail_count_def slot_count_def\<close>)
next
  case (Forward elapsed t)
  with assms(2) have "act_forward elapsed t s = Some s'" by simp
  then show ?thesis
    by (cases rule: act_forwardE)
      (use assms(1) in \<open>simp_all add: server_wf_def parts_wf_task task_ok_def\<close>)
next
  case (Report elapsed t)
  with assms(2) have "act_report elapsed t s = Some s'" by simp
  then show ?thesis
    by (cases rule: act_reportE)
      (use assms(1) in \<open>simp_all add: server_wf_def parts_wf_task task_ok_def\<close>)
next
  case (ClientTake t)
  with assms(2) have "act_client_take t s = Some s'" by simp
  then show ?thesis
    by (cases rule: act_client_takeE) (use assms(1) in \<open>simp add: server_wf_def parts_wf_same_pc\<close>)
next
  case (Disconnect t)
  with assms(2) have "act_disconnect t s = Some s'" by simp
  then show ?thesis
    by (cases rule: act_disconnectE) (use assms(1) in \<open>simp add: server_wf_def parts_wf_same_pc\<close>)
next
  case (Iterate elapsed t)
  with assms server_wf_iterate show ?thesis by simp
next
  case (Send t)
  with assms server_wf_send show ?thesis by simp
next
  case (Serve i)
  with assms server_wf_serve show ?thesis by simp
qed (use assms in \<open>auto simp: server_wf_def act_signal_def act_refuse_def act_cancel_def
    set_global_shutdown_def split: if_splits\<close>)


subsection \<open>Counters\<close>

definition is_live :: "task_pc \<Rightarrow> bool" where
  "is_live pc = (case pc of Returned _ \<Rightarrow> False | _ \<Rightarrow> True)"

definition live_count :: "task list \<Rightarrow> nat" where
  "live_count ts = (\<Sum>tk\<leftarrow>ts. if is_live (t_pc tk) then 1 else 0)"

text \<open>The number of identifiers the stream's hook \<open>inspect_ok\<close> counts for a message.\<close>

definition counted_ids :: "message \<Rightarrow> int" where
  "counted_ids m =
     (case m of Inr packed_ids \<Rightarrow> uint (word_of_nat (length packed_ids div SNOWFLAKE_ID_SIZE) :: u64)
      | Inl _ \<Rightarrow> 0)"

definition taken_count :: "task list \<Rightarrow> int" where
  "taken_count ts = (\<Sum>tk\<leftarrow>ts. \<Sum>m\<leftarrow>t_taken tk. counted_ids m)"

definition counters_ok :: "'g server \<Rightarrow> bool" where
  "counters_ok s \<longleftrightarrow>
     s_inflight (sv_service s) = word_of_nat (live_count (sv_tasks s) + sv_leaked s) \<and>
     ((\<forall>k. m_set (s_metrics (sv_service s)) k) \<longrightarrow>
        metric_total STREAMS_INFLIGHT_METRIC (s_metrics (sv_service s)) =
          int (live_count (sv_tasks s) + sv_leaked s) \<and>
        metric_total REQUESTS_METRIC (s_metrics (sv_service s)) =
          int (length (sv_tasks s) + sv_leaked s) \<and>
        metric_total IDS_GENERATED_METRIC (s_metrics (sv_service s)) = taken_count (sv_tasks s))"

lemma is_live_simps [simp]:
  "is_live Looping" "is_live (Sending i k)" "is_live (Awaiting k)" "is_live (Receiving msgs)"
  "is_live (Reporting e)" "is_live Panicked" "\<not> is_live (Returned r)"
  by (simp_all add: is_live_def)

lemma live_count_update:
  assumes "t < length ts"
  shows "live_count (ts[t := tk]) + (if is_live (t_pc (ts ! t)) then 1 else 0) =
    live_count ts + (if is_live (t_pc tk) then 1 else 0)"
  unfolding live_count_def by (rule sum_map_update [OF assms])

lemma sum_map_update_int:
  fixes f :: "'a \<Rightarrow> int"
  assumes "i < length xs"
  shows "(\<Sum>x\<leftarrow>xs[i := y]. f x) = (\<Sum>x\<leftarrow>xs. f x) + f y - f (xs ! i)"
  using assms
proof (induction xs arbitrary: i)
  case (Cons x xs)
  then show ?case by (cases i) fastforce+
qed simp

lemma taken_count_update:
  assumes "t < length ts"
  shows "taken_count (ts[t := tk]) =
    taken_count ts + (\<Sum>m\<leftarrow>t_taken tk. counted_ids m) - (\<Sum>m\<leftarrow>t_taken (ts ! t). counted_ids m)"
  by (simp add: taken_count_def sum_map_update_int [OF assms])

lemma counters_ok_start:
  assumes "s_inflight svc = 0" and "m_calls (s_metrics svc) = []"
  shows "counters_ok (server_start svc)"
  using assms
  by (simp add: counters_ok_def server_start_def live_count_def taken_count_def metric_total_def
      metric_values_def)

text \<open>A step that changes neither the counters nor what they count; the end of a stream.\<close>

lemma counters_ok_task:
  assumes "counters_ok s" and "t < length (sv_tasks s)" and "s_inflight (sv_service s') = s_inflight (sv_service s)"
    and "s_metrics (sv_service s') = s_metrics (sv_service s)" and "sv_leaked s' = sv_leaked s"
    and "sv_tasks s' = (sv_tasks s)[t := tk]" and "t_taken tk = t_taken (sv_tasks s ! t)"
    and "is_live (t_pc tk) = is_live (t_pc (sv_tasks s ! t))"
  shows "counters_ok s'"
proof -
  have "live_count (sv_tasks s') = live_count (sv_tasks s)"
    using assms(8) live_count_update [OF assms(2), of tk] by (simp add: assms(6) split: if_splits)
  moreover have "taken_count (sv_tasks s') = taken_count (sv_tasks s)"
    by (simp add: assms(6,7) taken_count_update [OF assms(2)])
  ultimately show ?thesis using assms(1) by (simp add: counters_ok_def assms(3-6))
qed

lemma counters_ok_finish:
  assumes "counters_ok s" and "t < length (sv_tasks s)" and "t_taken tk = t_taken (sv_tasks s ! t)"
    and "is_live (t_pc (sv_tasks s ! t))"
  shows "counters_ok (finish elapsed t tk outcome s)"
proof -
  have "live_count (sv_tasks s) =
      live_count ((sv_tasks s)[t := tk\<lparr>t_pc := Returned outcome\<rparr>]) + 1"
    using live_count_update [OF assms(2), of "tk\<lparr>t_pc := Returned outcome\<rparr>"] assms(4) by simp
  then show ?thesis
    using assms(1)
    by (simp add: counters_ok_def taken_count_update [OF assms(2)] assms(3) stream_finish_def
        Let_def metric_ops metric_call_total)
qed

lemma counters_ok_request:
  assumes "counters_ok s" and "act_request channel count s = Some s'"
  shows "counters_ok s'"
  using assms(2)
proof (cases rule: act_requestE)
  case (refused status svc)
  then show ?thesis
    using assms(1)
    by (auto simp: counters_ok_def stream_accept_def Let_def metric_ops metric_call_total
        split: if_splits)
next
  case (leaked n svc)
  then show ?thesis
    using assms(1)
    by (auto simp: counters_ok_def stream_accept_def Let_def metric_ops metric_call_total
        split: if_splits)
next
  case (opened n svc)
  have "live_count (sv_tasks s @ [new_task n]) = live_count (sv_tasks s) + 1"
    "taken_count (sv_tasks s @ [new_task n]) = taken_count (sv_tasks s)"
    by (simp_all add: live_count_def taken_count_def new_task_def)
  then show ?thesis
    using assms(1) opened
    by (auto simp: counters_ok_def stream_accept_def Let_def metric_ops metric_call_total
        split: if_splits)
qed

lemma counters_ok_client_take:
  assumes "counters_ok s" and "act_client_take t s = Some s'"
  shows "counters_ok s'"
  using assms(2)
proof (cases rule: act_client_takeE)
  case (1 m ms)
  let ?tk = "(sv_tasks s ! t)\<lparr>t_buf := ms, t_taken := t_taken (sv_tasks s ! t) @ [m]\<rparr>"
  have "live_count ((sv_tasks s)[t := ?tk]) = live_count (sv_tasks s)"
    using live_count_update [OF 1(1), of ?tk] by (simp split: if_splits)
  moreover have "taken_count ((sv_tasks s)[t := ?tk]) = taken_count (sv_tasks s) + counted_ids m"
    by (simp add: taken_count_update [OF 1(1)])
  ultimately show ?thesis
    using assms(1) 1(4)
    by (simp add: counters_ok_def stream_inspect_def counted_ids_def metric_ops metric_call_total
        split: sum.split)
qed


lemma closed_tasks_map:
  assumes "\<And>t k. e = Some (Chunk t k) \<Longrightarrow> t < length ts \<Longrightarrow>
    f ((ts ! t)\<lparr>t_pc := Receiving msgs\<rparr>) = f (ts ! t)"
  shows "map f (closed_tasks e msgs ts) = map f ts"
proof (cases "\<exists>t k. e = Some (Chunk t k)")
  case True
  then obtain t k where e: "e = Some (Chunk t k)" by blast
  show ?thesis
  proof (cases "t < length ts")
    case True
    with assms [OF e] have "map f (ts[t := (ts ! t)\<lparr>t_pc := Receiving msgs\<rparr>]) = (map f ts)[t := map f ts ! t]"
      by (simp add: map_update)
    then show ?thesis by (simp add: closed_tasks_def e)
  qed (simp add: closed_tasks_def e list_update_beyond)
qed (auto simp: closed_tasks_def split: option.split envelope.split)

lemma closed_tasks_length [simp]: "length (closed_tasks e msgs ts) = length ts"
  by (simp add: closed_tasks_def split: option.split envelope.split)

lemma letter_ok_live:
  "letter_ok ts (Some (Chunk t k)) \<Longrightarrow> t < length ts \<and> t_pc (ts ! t) = Awaiting k"
  by (simp add: letter_ok_def)

lemma closed_tasks_live:
  assumes "\<And>t k. e = Some (Chunk t k) \<Longrightarrow> is_live (t_pc (ts ! t))"
  shows "map (\<lambda>tk. is_live (t_pc tk)) (closed_tasks e msgs ts) = map (\<lambda>tk. is_live (t_pc tk)) ts"
  by (rule closed_tasks_map) (use assms in simp)

lemma live_count_cong:
  assumes "map (\<lambda>tk. is_live (t_pc tk)) ts = map (\<lambda>tk. is_live (t_pc tk)) us"
  shows "live_count ts = live_count us"
proof -
  have "live_count xs = sum_list (map (\<lambda>l. if l then 1 else 0) (map (\<lambda>tk. is_live (t_pc tk)) xs))" for xs
    by (simp add: live_count_def comp_def)
  then show ?thesis using assms by metis
qed

lemma taken_count_closed: "taken_count (closed_tasks e msgs ts) = taken_count ts"
  using closed_tasks_map [of e ts "\<lambda>tk. \<Sum>m\<leftarrow>t_taken tk. counted_ids m" msgs]
  by (simp add: taken_count_def)

lemma counters_ok_serve:
  assumes "server_wf s" and "counters_ok s" and "act_serve poll_id i s = Some s'"
  shows "counters_ok s'"
  using assms(3)
proof (cases rule: act_serveE)
  case (answered w e msgs w')
  have "letter_ok (sv_tasks s) (Some e)"
    using parts_wf_letters(2) [OF assms(1) [unfolded server_wf_def] answered(1)] answered(3) by simp
  then have "live_count (closed_tasks (Some e) msgs (sv_tasks s)) = live_count (sv_tasks s)"
    by (intro live_count_cong closed_tasks_live) (auto dest: letter_ok_live)
  with assms(2) answered(5) show ?thesis by (simp add: counters_ok_def taken_count_closed)
next
  case (ended w e msgs)
  let ?q = "mb_queue (sv_mail s ! i)" and ?ts = "closed_tasks (Some e) msgs (sv_tasks s)"
  note lets = parts_wf_letters [OF assms(1) [unfolded server_wf_def] ended(1)]
  have one: "map (\<lambda>tk. is_live (t_pc tk)) ?ts = map (\<lambda>tk. is_live (t_pc tk)) (sv_tasks s)"
    by (rule closed_tasks_live) (use lets(2) ended(3) in \<open>auto dest: letter_ok_live\<close>)
  have "is_live (t_pc (?ts ! t))" if "?q = Some (Chunk t k)" for t k
    using that lets(1) arg_cong [OF one, of "\<lambda>xs. xs ! t"] by (auto dest!: letter_ok_live)
  then have "live_count (closed_tasks ?q [] ?ts) = live_count (sv_tasks s)"
    using live_count_cong [OF closed_tasks_live [of ?q ?ts "[]"]] live_count_cong [OF one] by simp
  with assms(2) ended(5) show ?thesis by (simp add: counters_ok_def taken_count_closed)
qed

lemma counters_ok_step:
  assumes "server_wf s" and "counters_ok s" and "server_act channel poll_id a s = Some s'"
  shows "counters_ok s'"
proof (cases a)
  case (Request count)
  with assms counters_ok_request show ?thesis by simp
next
  case (Iterate elapsed t)
  with assms(3) have "act_iterate elapsed t s = Some s'" by simp
  then show ?thesis
  proof (cases rule: act_iterateE)
    case completed
    with assms(2) show ?thesis by (simp add: counters_ok_finish)
  qed (rule counters_ok_task [OF assms(2), of t s' "sv_tasks s' ! t"]; simp)+
next
  case (Send t)
  with assms(3) have "act_send t s = Some s'" by simp
  then show ?thesis
    by (cases rule: act_sendE) (rule counters_ok_task [OF assms(2), of t s' "sv_tasks s' ! t"]; simp)+
next
  case (Forward elapsed t)
  with assms(3) have "act_forward elapsed t s = Some s'" by simp
  then show ?thesis
  proof (cases rule: act_forwardE)
    case (client_gone m ms e)
    with assms(2) show ?thesis by (simp add: counters_ok_finish)
  qed (rule counters_ok_task [OF assms(2), of t s' "sv_tasks s' ! t"]; simp)+
next
  case (Report elapsed t)
  with assms(3) have "act_report elapsed t s = Some s'" by simp
  then show ?thesis by (cases rule: act_reportE) (use assms(2) in \<open>simp_all add: counters_ok_finish\<close>)
next
  case (ClientTake t)
  with assms counters_ok_client_take show ?thesis by simp
next
  case (Disconnect t)
  with assms(3) have "act_disconnect t s = Some s'" by simp
  then show ?thesis by (cases rule: act_disconnectE) (rule counters_ok_task [OF assms(2), of t s' "sv_tasks s' ! t"]; simp)
next
  case (Serve i)
  with assms counters_ok_serve show ?thesis by simp
qed (use assms(2,3) in \<open>auto simp: counters_ok_def act_signal_def act_refuse_def act_cancel_def
    act_take_def act_stop_next_def set_global_shutdown_def Let_def
    split: if_splits phase.splits option.splits\<close>)


subsection \<open>Phases of a shutdown\<close>

definition asked_to_stop :: "phase \<Rightarrow> nat \<Rightarrow> bool" where
  "asked_to_stop ph i = (case ph of Stopping j \<Rightarrow> i < j | Stopped \<Rightarrow> True | _ \<Rightarrow> False)"

definition has_stop :: "mailbox \<Rightarrow> bool" where
  "has_stop mb \<longleftrightarrow> mb_queue mb = Some Stop \<or> mb_busy mb = Some Stop"

text \<open>
  New requests are refused from the phase \<open>Draining\<close> on, work is cancelled from the phase
  \<open>Stopping\<close> on; a worker has a shutdown request in its mailbox only if it was asked to stop,
  and one that was asked has either ended or still has the request.
\<close>

definition phase_ok :: "'g server \<Rightarrow> bool" where
  "phase_ok s \<longleftrightarrow>
     (s_shutdown (sv_service s) \<longleftrightarrow> sv_phase s \<noteq> Serving \<and> sv_phase s \<noteq> NotServing) \<and>
     (cancelled (s_pool (sv_service s)) \<longleftrightarrow> (\<exists>j. sv_phase s = Stopping j) \<or> sv_phase s = Stopped) \<and>
     (\<forall>i < length (sv_workers s).
        (has_stop (sv_mail s ! i) \<longrightarrow> asked_to_stop (sv_phase s) i) \<and>
        (asked_to_stop (sv_phase s) i \<longrightarrow> sv_workers s ! i = None \<or> has_stop (sv_mail s ! i)))"

lemma phase_ok_start:
  assumes "\<not> s_shutdown svc" and "\<not> cancelled (s_pool svc)"
  shows "phase_ok (server_start svc)"
  using assms
  by (simp add: phase_ok_def server_start_def has_stop_def no_mail_def asked_to_stop_def)

text \<open>A step of the tasks or the clients.\<close>

lemma phase_ok_tasks:
  assumes "phase_ok s" and "sv_phase s' = sv_phase s" and "sv_mail s' = sv_mail s"
    and "sv_workers s' = sv_workers s" and "s_shutdown (sv_service s') = s_shutdown (sv_service s)"
    and "cancelled (s_pool (sv_service s')) = cancelled (s_pool (sv_service s))"
  shows "phase_ok s'"
  using assms by (simp add: phase_ok_def)

lemma phase_ok_mail:
  assumes "phase_ok s" and "i < length (sv_workers s)" and "length (sv_mail s) = length (sv_workers s)"
    and "sv_phase s' = sv_phase s" and "sv_mail s' = (sv_mail s)[i := mb]"
    and "sv_workers s' = (sv_workers s)[i := ow]"
    and "s_shutdown (sv_service s') = s_shutdown (sv_service s)"
    and "cancelled (s_pool (sv_service s')) = cancelled (s_pool (sv_service s))"
    and "has_stop mb \<longrightarrow> has_stop (sv_mail s ! i)"
    and "sv_workers s ! i = None \<or> has_stop (sv_mail s ! i) \<longrightarrow> ow = None \<or> has_stop mb"
  shows "phase_ok s'"
  using assms by (auto simp: phase_ok_def nth_update)

lemma phase_ok_serve:
  assumes "server_wf s" and "phase_ok s" and "act_serve poll_id i s = Some s'"
  shows "phase_ok s'"
proof -
  have len: "length (sv_mail s) = length (sv_workers s)"
    using assms(1) by (simp add: server_wf_def parts_wf_def)
  from assms(3) show ?thesis
  proof (cases rule: act_serveE)
    case (answered w e msgs w')
    then have "e \<noteq> Stop" by (auto simp: work_of_def worker_round_def)
    with answered show ?thesis
      by (intro phase_ok_mail [OF assms(2) answered(1) len]) (auto simp: has_stop_def)
  next
    case (ended w e msgs)
    then show ?thesis
      by (intro phase_ok_mail [OF assms(2) ended(1) len]) (auto simp: has_stop_def no_mail_def)
  qed
qed

lemma phase_ok_stop_next:
  assumes "server_wf s" and "phase_ok s" and "act_stop_next s = Some s'"
  shows "phase_ok s'"
proof -
  have len: "length (sv_mail s) = length (sv_workers s)"
    using assms(1) by (simp add: server_wf_def parts_wf_def)
  from assms(3) show ?thesis
  proof (cases rule: act_stop_nextE)
    case (absent i)
    with assms(2) show ?thesis by (auto simp: phase_ok_def asked_to_stop_def less_Suc_eq)
  next
    case (asked i)
    with assms(2) len show ?thesis
      by (auto simp: phase_ok_def asked_to_stop_def less_Suc_eq nth_update has_stop_def)
  next
    case (stopped i)
    with assms(2) show ?thesis by (auto simp: phase_ok_def asked_to_stop_def)
  qed
qed

lemma phase_ok_step:
  assumes "server_wf s" and "phase_ok s" and "server_act channel poll_id a s = Some s'"
  shows "phase_ok s'"
proof -
  have len: "length (sv_mail s) = length (sv_workers s)"
    using assms(1) by (simp add: server_wf_def parts_wf_def)
  note tasks = phase_ok_tasks [OF assms(2)] and mail = phase_ok_mail [OF assms(2) _ len]
  show ?thesis
  proof (cases a)
    case (Request count)
    with assms(3) have "act_request channel count s = Some s'" by simp
    then show ?thesis
      by (cases rule: act_requestE) (rule tasks; simp add: stream_accept_keeps)+
  next
    case (Iterate elapsed t)
    with assms(3) have "act_iterate elapsed t s = Some s'" by simp
    then show ?thesis by (cases rule: act_iterateE) (rule tasks; simp)+
  next
    case (Send t)
    with assms(3) have send: "act_send t s = Some s'" by simp
    then show ?thesis
    proof (cases rule: act_sendE)
      case (closed i k e)
      then show ?thesis by (intro tasks) simp_all
    next
      case (queued i k)
      then have i: "i < length (sv_workers s)"
        using server_wf_waiting(1) [OF assms(1) queued(1,2)] by simp
      show ?thesis
        by (rule mail [OF i, where ow = "sv_workers s ! i"])
          (use queued in \<open>auto simp: has_stop_def\<close>)
    qed
  next
    case (Forward elapsed t)
    with assms(3) have "act_forward elapsed t s = Some s'" by simp
    then show ?thesis by (cases rule: act_forwardE) (rule tasks; simp)+
  next
    case (Report elapsed t)
    with assms(3) have "act_report elapsed t s = Some s'" by simp
    then show ?thesis by (cases rule: act_reportE) (rule tasks; simp)+
  next
    case (ClientTake t)
    with assms(3) have "act_client_take t s = Some s'" by simp
    then show ?thesis by (cases rule: act_client_takeE) (rule tasks; simp)
  next
    case (Disconnect t)
    with assms(3) have "act_disconnect t s = Some s'" by simp
    then show ?thesis by (cases rule: act_disconnectE) (rule tasks; simp)
  next
    case (Take i)
    with assms(3) have "act_take i s = Some s'" by simp
    then show ?thesis
    proof (cases rule: act_takeE)
      case 1
      show ?thesis
        by (rule mail [OF 1(1), where ow = "sv_workers s ! i"])
          (use 1 in \<open>auto simp: has_stop_def\<close>)
    qed
  next
    case (Serve i)
    with assms phase_ok_serve show ?thesis by simp
  next
    case StopNext
    with assms phase_ok_stop_next show ?thesis by simp
  qed (use assms(2,3) in \<open>auto simp: phase_ok_def act_signal_def act_refuse_def act_cancel_def
      asked_to_stop_def set_global_shutdown_def split: if_splits\<close>)
qed


lemma stream_metrics_set [simp]:
  "m_set (s_metrics (stream_finish elapsed svc)) = m_set (s_metrics svc)"
  "m_set (s_metrics (stream_inspect m svc)) = m_set (s_metrics svc)"
  "stream_accept count svc = (r, svc') \<Longrightarrow> m_set (s_metrics svc') = m_set (s_metrics svc)"
  by (auto simp: stream_finish_def stream_inspect_def stream_accept_def Let_def metric_ops
      split: sum.splits if_splits)

lemma server_act_m_set:
  assumes "server_act channel poll_id a s = Some s'"
  shows "m_set (s_metrics (sv_service s')) = m_set (s_metrics (sv_service s))"
  using assms
  by (cases a) (auto simp: act_signal_def act_refuse_def act_cancel_def set_global_shutdown_def
      elim!: act_requestE act_iterateE act_sendE act_forwardE act_reportE act_client_takeE
        act_disconnectE act_takeE act_serveE act_stop_nextE split: if_splits)

subsection \<open>Reachable states\<close>

lemma server_reach_wf: "server_reach channel poll_id (server_start svc) s \<Longrightarrow> server_wf s"
  by (induction rule: server_reach.induct) (auto intro: server_wf_start server_wf_step)

lemma server_reach_counters:
  assumes "server_reach channel poll_id (server_start svc) s" and "s_inflight svc = 0"
    and "m_calls (s_metrics svc) = []"
  shows "counters_ok s \<and> m_set (s_metrics (sv_service s)) = m_set (s_metrics svc)"
  using assms(1)
proof induction
  case start
  show ?case using counters_ok_start [OF assms(2,3)] by (simp add: server_start_def)
next
  case (step s a s')
  then show ?case
    using counters_ok_step [OF server_reach_wf [OF step(1)] _ step(2)] server_act_m_set [OF step(2)] by simp
qed

lemma server_reach_phase:
  assumes "server_reach channel poll_id (server_start svc) s" and "\<not> s_shutdown svc"
    and "\<not> cancelled (s_pool svc)"
  shows "phase_ok s"
  using assms(1)
proof induction
  case start
  show ?case by (rule phase_ok_start [OF assms(2,3)])
next
  case (step s a s')
  then show ?case using phase_ok_step [OF server_reach_wf [OF step(1)] _ step(2)] by simp
qed

lemma server_act_config:
  assumes "server_act channel poll_id a s = Some s'"
  shows "length (sv_workers s') = length (sv_workers s) \<and> sv_config s' = sv_config s"
  using assms
  by (cases a) (auto simp: act_signal_def act_refuse_def act_cancel_def set_global_shutdown_def
      stream_accept_keeps elim!: act_requestE act_iterateE act_sendE act_forwardE act_reportE
        act_client_takeE act_disconnectE act_takeE act_serveE act_stop_nextE split: if_splits)

lemma server_reach_config:
  "server_reach channel poll_id (server_start svc) s \<Longrightarrow>
     length (sv_workers s) = length (workers (s_pool svc)) \<and> sv_config s = s_config svc"
  by (induction rule: server_reach.induct)
    (simp_all add: server_start_def, simp add: server_act_config)

end
