(* ===== verification/Server_Delivery.thy ===== *)
theory Server_Delivery
  imports Server_Invariants
begin

text \<open>
  What the streams of the machine deliver. The locale \<open>worker_contract\<close> states what a worker
  promises to the tasks: a request it answers is answered by one message with as many new
  identifiers as were asked for, or the worker has ended and sent nothing; different workers never
  give the same identifier. From it follows, for every schedule, that no identifier is on
  its way to two clients or twice to one, and that the identifiers of a stream add up. The
  contract is interpreted on the workers of a pool of Snowflake generators.
\<close>

subsection \<open>The identifiers of a task\<close>

definition msg_ids :: "message \<Rightarrow> u64 snowflake list" where
  "msg_ids m = (case m of Inr packed_ids \<Rightarrow> unpack_ids packed_ids | Inl _ \<Rightarrow> [])"

definition chan_ids :: "task_pc \<Rightarrow> u64 snowflake list" where
  "chan_ids pc = (case pc of Receiving msgs \<Rightarrow> concat (map unpack_ids msgs) | _ \<Rightarrow> [])"

text \<open>Taken by the client, in the response channel, in the chunk channel.\<close>

definition task_ids :: "task \<Rightarrow> u64 snowflake list" where
  "task_ids tk = concat (map msg_ids (t_taken tk)) @ concat (map msg_ids (t_buf tk)) @ chan_ids (t_pc tk)"

definition id_count :: "task list \<Rightarrow> u64 snowflake \<Rightarrow> nat" where
  "id_count ts x = (\<Sum>tk\<leftarrow>ts. count_list (task_ids tk) x)"

text \<open>Asked of a worker and not answered yet.\<close>

definition claimed :: "task_pc \<Rightarrow> nat" where
  "claimed pc = (case pc of Sending _ k \<Rightarrow> k | Awaiting k \<Rightarrow> k | _ \<Rightarrow> 0)"

definition accounted :: "task \<Rightarrow> bool" where
  "accounted tk \<longleftrightarrow>
     length (task_ids tk) + t_remaining tk + claimed (t_pc tk) \<le> t_total tk \<and>
     (t_pc tk = Returned (Inr ()) \<longrightarrow> t_remaining tk = 0)"

text \<open>Nothing is lost, unless the stream has failed or its client has gone.\<close>

definition failed :: "task_pc \<Rightarrow> bool" where
  "failed pc = (case pc of Reporting _ \<Rightarrow> True | Returned r \<Rightarrow> r \<noteq> Inr () | Panicked \<Rightarrow> True | _ \<Rightarrow> False)"

definition lossless :: "task \<Rightarrow> bool" where
  "lossless tk \<longleftrightarrow>
     t_gone tk \<or> failed (t_pc tk) \<or>
     length (task_ids tk) + t_remaining tk + claimed (t_pc tk) = t_total tk"

text \<open>A message holds at least one and at most \<open>c\<close> identifiers.\<close>

definition chunk_msg :: "nat \<Rightarrow> bytes \<Rightarrow> bool" where
  "chunk_msg c m \<longleftrightarrow> 0 < length m \<and> length m \<le> 8 * c \<and> length m mod 8 = 0"

definition msgs_ok :: "nat \<Rightarrow> task \<Rightarrow> bool" where
  "msgs_ok c tk \<longleftrightarrow>
     (\<forall>m. Inr m \<in> set (t_taken tk) \<union> set (t_buf tk) \<longrightarrow> chunk_msg c m) \<and>
     (\<forall>msgs. t_pc tk = Receiving msgs \<longrightarrow> (\<forall>m \<in> set msgs. chunk_msg c m))"

definition task_fine :: "nat \<Rightarrow> bool \<Rightarrow> task \<Rightarrow> bool" where
  "task_fine c alive tk \<longleftrightarrow> accounted tk \<and> msgs_ok c tk \<and> (alive \<longrightarrow> lossless tk)"

lemma chan_ids_simps [simp]:
  "chan_ids Looping = []" "chan_ids (Sending i k) = []" "chan_ids (Awaiting k) = []"
  "chan_ids (Receiving msgs) = concat (map unpack_ids msgs)" "chan_ids (Reporting e) = []"
  "chan_ids (Returned r) = []" "chan_ids Panicked = []"
  by (simp_all add: chan_ids_def)

lemma claimed_simps [simp]:
  "claimed Looping = 0" "claimed (Sending i k) = k" "claimed (Awaiting k) = k"
  "claimed (Receiving msgs) = 0" "claimed (Reporting e) = 0" "claimed (Returned r) = 0"
  "claimed Panicked = 0"
  by (simp_all add: claimed_def)

lemma failed_simps [simp]:
  "\<not> failed Looping" "\<not> failed (Sending i k)" "\<not> failed (Awaiting k)" "\<not> failed (Receiving msgs)"
  "failed (Reporting e)" "failed (Returned r) \<longleftrightarrow> r \<noteq> Inr ()" "failed Panicked"
  by (simp_all add: failed_def)

lemma chunk_msg_pack: "0 < length xs \<Longrightarrow> length xs \<le> c \<Longrightarrow> chunk_msg c (pack_ids xs)"
  by (simp add: chunk_msg_def pack_ids_simps)

subsection \<open>Steps that move identifiers\<close>

lemma count_list_distinct: "distinct xs \<Longrightarrow> count_list xs x = (if x \<in> set xs then 1 else 0)"
  by (induction xs) auto

lemma distinct_if_counts: "(\<And>x. count_list xs x \<le> 1) \<Longrightarrow> distinct xs"
proof (induction xs)
  case (Cons y ys)
  have "count_list ys x \<le> 1" for x using Cons.prems [of x] by (simp split: if_splits)
  moreover have "y \<notin> set ys" using Cons.prems [of y] by (simp add: count_list_0_iff)
  ultimately show ?case using Cons.IH by simp
qed simp

lemma id_count_update:
  assumes "t < length ts"
  shows "id_count (ts[t := tk]) x + count_list (task_ids (ts ! t)) x =
    id_count ts x + count_list (task_ids tk) x"
  unfolding id_count_def by (rule sum_map_update [OF assms])

definition task_move :: "nat \<Rightarrow> task \<Rightarrow> task \<Rightarrow> bool" where
  "task_move c tk tk' \<longleftrightarrow>
     (\<forall>x. count_list (task_ids tk') x \<le> count_list (task_ids tk) x) \<and>
     (\<forall>alive. task_fine c alive tk \<longrightarrow> task_fine c alive tk')"

lemma id_count_move:
  assumes "t < length ts" and "task_move c (ts ! t) tk"
  shows "id_count (ts[t := tk]) x \<le> id_count ts x"
proof -
  have "count_list (task_ids tk) x \<le> count_list (task_ids (ts ! t)) x"
    using assms(2) by (simp add: task_move_def)
  with id_count_update [OF assms(1), of tk x] show ?thesis by linarith
qed

lemmas task_defs = task_fine_def accounted_def lossless_def msgs_ok_def task_ids_def

lemma task_moveI:
  assumes "\<And>x. count_list (task_ids tk') x \<le> count_list (task_ids tk) x"
    and "accounted tk \<Longrightarrow> accounted tk'" and "msgs_ok c tk \<Longrightarrow> msgs_ok c tk'"
    and "lossless tk \<Longrightarrow> lossless tk'"
  shows "task_move c tk tk'"
  using assms by (simp add: task_move_def task_fine_def)

text \<open>A task that leaves its place without losing or gaining an identifier.\<close>

lemma move_from_loop:
  assumes "t_pc tk = Looping" and "k \<le> t_remaining tk" and "chan_ids pc = []"
    and "claimed pc = k \<or> failed pc" and "claimed pc \<le> k" and "\<And>r. pc \<noteq> Returned r" and "\<And>ms. pc \<noteq> Receiving ms"
  shows "task_move c tk (tk\<lparr>t_remaining := t_remaining tk - k, t_pc := pc\<rparr>)"
  using assms by (intro task_moveI) (auto simp: task_ids_def accounted_def msgs_ok_def lossless_def)

lemma move_done:
  assumes "t_pc tk = Looping" and "t_remaining tk = 0"
  shows "task_move c tk (tk\<lparr>t_pc := Returned (Inr ())\<rparr>)"
  using assms by (intro task_moveI) (auto simp: task_ids_def accounted_def msgs_ok_def lossless_def)

lemma move_from_send:
  assumes "t_pc tk = Sending i k" and "pc = Awaiting k \<or> (\<exists>e. pc = Reporting e)"
  shows "task_move c tk (tk\<lparr>t_pc := pc\<rparr>)"
  using assms by (intro task_moveI) (auto simp: task_ids_def accounted_def msgs_ok_def lossless_def)

lemma move_chunk_end:
  assumes "t_pc tk = Receiving []"
  shows "task_move c tk (tk\<lparr>t_pc := Looping\<rparr>)"
  using assms by (intro task_moveI) (auto simp: task_ids_def accounted_def msgs_ok_def lossless_def)

lemma move_forward:
  assumes "t_pc tk = Receiving (m # ms)"
  shows "task_move c tk (tk\<lparr>t_buf := t_buf tk @ [Inr m], t_pc := Receiving ms\<rparr>)"
  using assms
  by (intro task_moveI) (auto simp: task_ids_def accounted_def msgs_ok_def lossless_def msg_ids_def)

lemma move_fail:
  "task_move c tk (tk\<lparr>t_pc := Returned (Inl e)\<rparr>)"
  by (intro task_moveI) (auto simp: task_ids_def accounted_def msgs_ok_def lossless_def)

lemma move_report:
  "task_move c tk (tk\<lparr>t_buf := t_buf tk @ [Inl st], t_pc := Returned (Inl e)\<rparr>)"
  by (intro task_moveI) (auto simp: task_ids_def accounted_def msgs_ok_def lossless_def msg_ids_def)

lemma move_client:
  shows "t_buf tk = m # ms \<Longrightarrow> task_move c tk (tk\<lparr>t_buf := ms, t_taken := t_taken tk @ [m]\<rparr>)"
    and "task_move c tk (tk\<lparr>t_buf := [], t_gone := True\<rparr>)"
  by (intro task_moveI; auto simp: task_ids_def accounted_def msgs_ok_def lossless_def)+

text \<open>Every action but a worker's round: no worker changes, one task at most moves on.\<close>

definition one_moves :: "nat \<Rightarrow> 'g server \<Rightarrow> 'g server \<Rightarrow> bool" where
  "one_moves c s s' \<longleftrightarrow>
     sv_workers s' = sv_workers s \<and> sv_config s' = sv_config s \<and>
     (sv_tasks s' = sv_tasks s \<or>
      (\<exists>t tk. t < length (sv_tasks s) \<and> task_move c (sv_tasks s ! t) tk \<and>
         sv_tasks s' = (sv_tasks s)[t := tk]))"

lemma one_movesI:
  assumes "t < length (sv_tasks s)" and "task_move c (sv_tasks s ! t) tk"
    and "sv_tasks s' = (sv_tasks s)[t := tk]" and "sv_workers s' = sv_workers s"
    and "sv_config s' = sv_config s"
  shows "one_moves c s s'"
  using assms by (auto simp: one_moves_def)

lemma other_steps:
  assumes "server_act channel poll_id a s = Some s'" and "\<And>i. a \<noteq> Serve i" and "\<And>n. a \<noteq> Request n"
  shows "one_moves c s s'"
proof (cases a)
  case (Iterate elapsed t)
  with assms(1) have "act_iterate elapsed t s = Some s'" by simp
  then show ?thesis
  proof (cases rule: act_iterateE)
    case completed
    then show ?thesis by (intro one_movesI [OF _ move_done]) simp_all
  qed (rule one_movesI [OF _ move_from_loop]; simp)+
next
  case (Send t)
  with assms(1) have "act_send t s = Some s'" by simp
  then show ?thesis by (cases rule: act_sendE) (rule one_movesI [OF _ move_from_send]; simp)+
next
  case (Forward elapsed t)
  with assms(1) have "act_forward elapsed t s = Some s'" by simp
  then show ?thesis
  proof (cases rule: act_forwardE)
    case chunk_end
    then show ?thesis by (intro one_movesI [OF _ move_chunk_end]) simp_all
  next
    case (client_gone m ms e)
    then show ?thesis by (intro one_movesI [OF _ move_fail]) simp_all
  next
    case (forwarded m ms)
    then show ?thesis by (intro one_movesI [OF _ move_forward]) simp_all
  qed
next
  case (Report elapsed t)
  with assms(1) have "act_report elapsed t s = Some s'" by simp
  then show ?thesis
  proof (cases rule: act_reportE)
    case (unsent e)
    then show ?thesis by (intro one_movesI [OF _ move_fail]) simp_all
  next
    case (sent e)
    then show ?thesis by (intro one_movesI [OF _ move_report]) simp_all
  qed
next
  case (ClientTake t)
  with assms(1) have "act_client_take t s = Some s'" by simp
  then show ?thesis
    by (cases rule: act_client_takeE) (rule one_movesI [OF _ move_client(1)]; simp)
next
  case (Disconnect t)
  with assms(1) have "act_disconnect t s = Some s'" by simp
  then show ?thesis
    by (cases rule: act_disconnectE) (rule one_movesI [OF _ move_client(2)]; simp)
qed (use assms in \<open>auto simp: one_moves_def act_signal_def act_refuse_def act_cancel_def
    set_global_shutdown_def elim!: act_takeE act_stop_nextE split: if_splits\<close>)

subsection \<open>The contract of a worker\<close>

definition ids_ok ::
  "(nat \<Rightarrow> 'g worker \<Rightarrow> u64 snowflake \<Rightarrow> bool) \<Rightarrow> 'g worker option list \<Rightarrow> task list \<Rightarrow> bool" where
  "ids_ok fresh ws ts \<longleftrightarrow>
     (\<forall>x. id_count ts x \<le> 1 \<and>
        (0 < id_count ts x \<longrightarrow> (\<forall>i w. i < length ws \<longrightarrow> ws ! i = Some w \<longrightarrow> \<not> fresh i w x)))"

definition all_alive :: "'w option list \<Rightarrow> bool" where
  "all_alive ws \<longleftrightarrow> (\<forall>i < length ws. ws ! i \<noteq> None)"

definition delivery_ok ::
  "nat \<Rightarrow> nat \<Rightarrow> nat \<Rightarrow> (nat \<Rightarrow> 'g worker \<Rightarrow> bool) \<Rightarrow> (nat \<Rightarrow> 'g worker \<Rightarrow> u64 snowflake \<Rightarrow> bool) \<Rightarrow>
     'g server \<Rightarrow> bool" where
  "delivery_ok cb c n safe fresh s \<longleftrightarrow>
     unat (chunk_bytes (sv_config s)) = cb \<and> unat (ids_per_chunk (sv_config s)) = c \<and>
     length (sv_workers s) \<le> n \<and>
     (\<forall>i w. i < length (sv_workers s) \<longrightarrow> sv_workers s ! i = Some w \<longrightarrow> safe i w) \<and>
     ids_ok fresh (sv_workers s) (sv_tasks s) \<and>
     (\<forall>tk \<in> set (sv_tasks s). task_fine c (all_alive (sv_workers s)) tk)"

lemma ids_ok_mono:
  assumes "ids_ok fresh ws ts" and "\<And>x. id_count ts' x \<le> id_count ts x"
  shows "ids_ok fresh ws ts'"
  using assms unfolding ids_ok_def by (metis le_trans less_le_trans)

locale worker_contract =
  fixes poll_id :: "'g \<Rightarrow> (u64 snowflake, u64) poll res \<times> 'g"
    and cb c n :: nat
    and safe :: "nat \<Rightarrow> 'g worker \<Rightarrow> bool"
    and fresh :: "nat \<Rightarrow> 'g worker \<Rightarrow> u64 snowflake \<Rightarrow> bool"
  assumes room: "0 < c"
    and round: "safe i w \<Longrightarrow> 0 < k \<Longrightarrow> k \<le> c \<Longrightarrow>
      worker_round poll_id cb (Stream k) w = Some (msgs, ow) \<Longrightarrow>
      (msgs = [] \<and> ow = None) \<or>
      (\<exists>xs w'. msgs = [pack_ids xs] \<and> ow = Some w' \<and> safe i w' \<and> length xs = k \<and> distinct xs \<and>
        (\<forall>x \<in> set xs. fresh i w x \<and> \<not> fresh i w' x) \<and> (\<forall>x. fresh i w' x \<longrightarrow> fresh i w x))"
    and apart: "i < n \<Longrightarrow> j < n \<Longrightarrow> i \<noteq> j \<Longrightarrow> fresh i w x \<Longrightarrow> \<not> fresh j w' x"
begin

text \<open>One round, as the task that asked for it sees it.\<close>

lemma serve_cases:
  assumes "server_wf s" and "delivery_ok cb c n safe fresh s" and "act_serve poll_id i s = Some s'"
  obtains
    (answered) t k xs w w' where "i < length (sv_workers s)" "sv_workers s ! i = Some w"
      "t < length (sv_tasks s)" "t_pc (sv_tasks s ! t) = Awaiting k"
      "sv_workers s' = (sv_workers s)[i := Some w']" "sv_config s' = sv_config s"
      "sv_tasks s' = (sv_tasks s)[t := (sv_tasks s ! t)\<lparr>t_pc := Receiving [pack_ids xs]\<rparr>]"
      "safe i w'" "0 < k" "k \<le> c" "length xs = k" "distinct xs"
      "\<forall>x \<in> set xs. fresh i w x \<and> \<not> fresh i w' x" "\<forall>x. fresh i w' x \<longrightarrow> fresh i w x"
  | (ended) e w where "i < length (sv_workers s)" "sv_workers s ! i = Some w"
      "mb_busy (sv_mail s ! i) = Some e"
      "sv_workers s' = (sv_workers s)[i := None]" "sv_config s' = sv_config s"
      "sv_tasks s' = closed_tasks (mb_queue (sv_mail s ! i)) [] (closed_tasks (Some e) [] (sv_tasks s))"
proof -
  have cfg: "unat (chunk_bytes (sv_config s)) = cb" "unat (ids_per_chunk (sv_config s)) = c"
    using assms(2) by (simp_all add: delivery_ok_def)
  have letter: "t < length (sv_tasks s) \<and> t_pc (sv_tasks s ! t) = Awaiting k \<and> 0 < k \<and> k \<le> c"
    if "i < length (sv_workers s)" "mb_busy (sv_mail s ! i) = Some (Chunk t k)" for t k
    using parts_wf_letters(2) [OF assms(1) [unfolded server_wf_def] that(1)] that(2)
      server_wf_waiting(2) [OF assms(1), of t k] room
    by (simp add: letter_ok_def cfg chunk_ok_def)
  from assms(3) show thesis
  proof (cases rule: act_serveE)
    case (answered w e msgs w')
    obtain t k where e: "e = Chunk t k"
      using answered(4) by (cases e) (simp_all add: work_of_def worker_round_def)
    note l = letter [OF answered(1) answered(3) [unfolded e]]
    have "safe i w" using assms(2) answered(1,2) by (simp add: delivery_ok_def)
    from round [OF this, of k msgs "Some w'"] l answered(4) obtain xs where
      "msgs = [pack_ids xs]" "safe i w'" "length xs = k" "distinct xs"
      "\<forall>x \<in> set xs. fresh i w x \<and> \<not> fresh i w' x" "\<forall>x. fresh i w' x \<longrightarrow> fresh i w x"
      by (auto simp: e cfg work_of_def)
    with l answered(1,2,5) that(1) [of w t k w' xs] show thesis
      by (simp add: e closed_tasks_def)
  next
    case (ended w e msgs)
    have "closed_tasks (Some e) msgs (sv_tasks s) = closed_tasks (Some e) [] (sv_tasks s)"
    proof (cases e)
      case (Chunk t k)
      have "safe i w" using assms(2) ended(1,2) by (simp add: delivery_ok_def)
      from round [OF this, of k msgs None] letter [OF ended(1) ended(3) [unfolded Chunk]] ended(4)
      show ?thesis by (simp add: Chunk cfg work_of_def)
    qed (simp add: closed_tasks_def)
    with ended that(2) [of w e] show thesis by simp
  qed
qed

end


lemma task_fine_dropped:
  "task_fine c alive tk \<Longrightarrow> task_fine c False (tk\<lparr>t_pc := Receiving []\<rparr>)"
  by (auto simp: task_defs)

lemma closed_tasks_fine:
  assumes "\<forall>tk \<in> set ts. task_fine c alive tk"
  shows "\<forall>tk \<in> set (closed_tasks e [] ts). task_fine c False tk"
proof -
  have weak: "\<forall>tk \<in> set ts. task_fine c False tk" using assms by (simp add: task_fine_def)
  have "\<forall>tk \<in> set (ts[t := (ts ! t)\<lparr>t_pc := Receiving []\<rparr>]). task_fine c False tk" for t
  proof (cases "t < length ts")
    case True
    then have "task_fine c False ((ts ! t)\<lparr>t_pc := Receiving []\<rparr>)"
      using assms by (intro task_fine_dropped [of c alive]) simp
    with weak show ?thesis using set_update_subset_insert [of ts t] by blast
  qed (use weak in \<open>simp add: list_update_beyond\<close>)
  with weak show ?thesis by (simp add: closed_tasks_def split: option.split envelope.split)
qed

lemma closed_tasks_id_count: "id_count (closed_tasks e [] ts) x \<le> id_count ts x"
proof -
  have "id_count (ts[t := (ts ! t)\<lparr>t_pc := Receiving []\<rparr>]) x \<le> id_count ts x" for t
  proof (cases "t < length ts")
    case True
    then show ?thesis
      using id_count_update [OF True, of "(ts ! t)\<lparr>t_pc := Receiving []\<rparr>" x]
      by (simp add: task_ids_def)
  qed (simp add: list_update_beyond)
  then show ?thesis by (simp add: closed_tasks_def split: option.split envelope.split)
qed

lemma delivery_ok_request:
  assumes "delivery_ok cb c n safe fresh s" and "act_request channel count s = Some s'"
  shows "delivery_ok cb c n safe fresh s'"
proof -
  have "id_count (ts @ [new_task k]) x = id_count ts x" for ts k x
    by (simp add: id_count_def new_task_def task_ids_def)
  moreover have "task_fine c alive (new_task k)" for alive k
    by (simp add: new_task_def task_defs)
  ultimately show ?thesis
    using assms(1,2)
    by (auto simp: delivery_ok_def ids_ok_def stream_accept_keeps elim!: act_requestE)
qed

lemma delivery_ok_other:
  assumes "delivery_ok cb c n safe fresh s" and "server_act channel poll_id a s = Some s'"
    and "\<And>i. a \<noteq> Serve i" and "\<And>n. a \<noteq> Request n"
  shows "delivery_ok cb c n safe fresh s'"
proof -
  from other_steps [OF assms(2-4), of c, unfolded one_moves_def]
  consider "sv_workers s' = sv_workers s" "sv_config s' = sv_config s" "sv_tasks s' = sv_tasks s"
    | t tk where "sv_workers s' = sv_workers s" "sv_config s' = sv_config s"
        "t < length (sv_tasks s)" "task_move c (sv_tasks s ! t) tk"
        "sv_tasks s' = (sv_tasks s)[t := tk]" by blast
  then show ?thesis
  proof cases
    case 1
    with assms(1) show ?thesis by (simp add: delivery_ok_def)
  next
    case (2 t tk)
    have "task_fine c (all_alive (sv_workers s)) tk"
      using assms(1) 2(3,4) by (simp add: delivery_ok_def task_move_def)
    moreover have "ids_ok fresh (sv_workers s) ((sv_tasks s)[t := tk])"
      by (rule ids_ok_mono [of _ _ "sv_tasks s"])
        (use assms(1) id_count_move [OF 2(3,4)] in \<open>simp_all add: delivery_ok_def\<close>)
    ultimately show ?thesis
      using assms(1) 2 set_update_subset_insert [of "sv_tasks s" t tk]
      by (auto simp: delivery_ok_def)
  qed
qed

lemma all_alive_update:
  assumes "i < length ws" and "ws ! i \<noteq> None"
  shows "all_alive (ws[i := Some w]) = all_alive ws" and "\<not> all_alive (ws[i := None])"
  using assms by (auto simp: all_alive_def nth_update)

context worker_contract
begin

lemma fresh_after_answer:
  assumes "ids_ok fresh ws ts" and "length ws \<le> n" and "i < length ws" and "ws ! i = Some w"
    and "t < length ts" and "t_pc (ts ! t) = Awaiting k"
    and "distinct xs" and "\<forall>x \<in> set xs. fresh i w x \<and> \<not> fresh i w' x" and "\<forall>x. fresh i w' x \<longrightarrow> fresh i w x"
  shows "ids_ok fresh (ws[i := Some w']) (ts[t := (ts ! t)\<lparr>t_pc := Receiving [pack_ids xs]\<rparr>])"
proof -
  let ?ts = "ts[t := (ts ! t)\<lparr>t_pc := Receiving [pack_ids xs]\<rparr>]"
  have sum: "id_count ?ts x = id_count ts x + count_list xs x" for x
    using id_count_update [OF assms(5), of "(ts ! t)\<lparr>t_pc := Receiving [pack_ids xs]\<rparr>" x] assms(6)
    by (simp add: task_ids_def unpack_pack)
  show ?thesis
    unfolding ids_ok_def
  proof
    fix x
    show "id_count ?ts x \<le> 1 \<and> (0 < id_count ?ts x \<longrightarrow> (\<forall>j v. j < length (ws[i := Some w']) \<longrightarrow>
        (ws[i := Some w']) ! j = Some v \<longrightarrow> \<not> fresh j v x))"
    proof (cases "x \<in> set xs")
      case True
      then have x: "fresh i w x" "\<not> fresh i w' x" using assms(8) by simp_all
      then have "id_count ts x = 0" using assms(1,3,4) by (auto simp: ids_ok_def)
      moreover have "count_list xs x = 1" using True assms(7) by (simp add: count_list_distinct)
      moreover have "\<not> fresh j v x" if "j < length ws" "j \<noteq> i" for j v
        using that apart [of i j w x v] x(1) assms(2,3) by simp
      ultimately show ?thesis using x(2) by (auto simp: sum nth_update)
    next
      case False
      then have "id_count ?ts x = id_count ts x" by (simp add: sum)
      with assms(1,3,4,9) show ?thesis by (auto simp: ids_ok_def nth_update)
    qed
  qed
qed

lemma delivery_ok_serve:
  assumes "server_wf s" and ok: "delivery_ok cb c n safe fresh s" and "act_serve poll_id i s = Some s'"
  shows "delivery_ok cb c n safe fresh s'"
  using assms
proof (cases rule: serve_cases)
  case (answered t k xs w w')
  let ?tk = "(sv_tasks s ! t)\<lparr>t_pc := Receiving [pack_ids xs]\<rparr>"
  have "task_fine c (all_alive (sv_workers s)) (sv_tasks s ! t)"
    using ok answered(3) by (simp add: delivery_ok_def)
  then have "task_fine c (all_alive (sv_workers s)) ?tk"
    using answered(4,9-11) by (auto simp: task_defs unpack_pack chunk_msg_pack)
  moreover have "ids_ok fresh (sv_workers s') (sv_tasks s')"
    unfolding answered(5,7)
    by (rule fresh_after_answer) (use ok answered in \<open>simp_all add: delivery_ok_def\<close>)
  moreover have "all_alive (sv_workers s') = all_alive (sv_workers s)"
    using all_alive_update(1) [OF answered(1)] answered(2,5) by simp
  ultimately show ?thesis
    using ok answered(5-8) set_update_subset_insert [of "sv_tasks s" t ?tk]
    by (auto simp: delivery_ok_def nth_update)
next
  case (ended e w)
  have "\<not> all_alive (sv_workers s')" using all_alive_update(2) [OF ended(1)] ended(2,4) by simp
  moreover have "\<forall>tk \<in> set (sv_tasks s'). task_fine c False tk"
    unfolding ended(6)
    by (intro closed_tasks_fine [of _ c False] closed_tasks_fine [of _ c "all_alive (sv_workers s)"])
      (use ok in \<open>simp add: delivery_ok_def\<close>)
  moreover have "ids_ok fresh (sv_workers s') (sv_tasks s')"
  proof -
    have "id_count (sv_tasks s') x \<le> id_count (sv_tasks s) x" for x
      unfolding ended(6) by (rule le_trans [OF closed_tasks_id_count closed_tasks_id_count])
    moreover have "ids_ok fresh (sv_workers s) (sv_tasks s)" using ok by (simp add: delivery_ok_def)
    ultimately have "ids_ok fresh (sv_workers s) (sv_tasks s')" using ids_ok_mono by blast
    then show ?thesis by (auto simp: ids_ok_def ended(4) nth_update)
  qed
  ultimately show ?thesis
    using ok ended(4,5) by (auto simp: delivery_ok_def nth_update)
qed

theorem delivery_ok_step:
  assumes "server_wf s" and "delivery_ok cb c n safe fresh s"
    and "server_act channel poll_id a s = Some s'"
  shows "delivery_ok cb c n safe fresh s'"
  using assms delivery_ok_serve delivery_ok_request delivery_ok_other [OF assms(2,3)]
  by (cases a) simp_all

theorem delivery_reach:
  assumes "server_reach channel poll_id s0 s" and "server_wf s0" and "delivery_ok cb c n safe fresh s0"
  shows "server_wf s \<and> delivery_ok cb c n safe fresh s"
  using assms(1)
  by induction (use assms(2,3) server_wf_step delivery_ok_step in blast)+

end

subsection \<open>The Snowflake workers keep the contract\<close>

definition worker_safe ::
  "('t \<Rightarrow> u64 \<times> 't) \<Rightarrow> build \<Rightarrow> nat \<Rightarrow> u64 \<Rightarrow> (u64 snowflake, 't) basic_snow_gen worker \<Rightarrow> bool" where
  "worker_safe cm b cb m w \<longleftrightarrow>
     worker_ok cb w \<and> snow_gen_inv cm b SnowflakeId m (bs_state (w_gen w)) (bs_time (w_gen w))"

lemma worker_safe_round:
  assumes "worker_safe cm b cb m w" and "0 < k" and "8 * k \<le> cb"
    and "worker_round (basic_snow_poll_id cm b SnowflakeId) cb (Stream k) w = Some (msgs, ow)"
  shows "(msgs = [] \<and> ow = None) \<or>
    (\<exists>xs w'. msgs = [pack_ids xs] \<and> ow = Some w' \<and> worker_safe cm b cb m w' \<and> length xs = k \<and>
      distinct xs \<and>
      (\<forall>x \<in> set xs. worker_fresh m (Some w) x \<and> \<not> worker_fresh m (Some w') x) \<and>
      (\<forall>x. worker_fresh m (Some w') x \<longrightarrow> worker_fresh m (Some w) x))"
proof -
  have ok: "worker_ok cb w" using assms(1) by (simp add: worker_safe_def)
  from worker_round_all_or_nothing [OF assms(4) ok assms(3)] show ?thesis
  proof
    assume "collect (basic_snow_poll_id cm b SnowflakeId) k (w_gen w) \<noteq> None"
    then have "worker_stocked cm b cb m (k + 0) (Some w)"
      using assms(1) by (simp add: worker_stocked_def worker_safe_def)
    then obtain xs w' where r:
        "worker_round (basic_snow_poll_id cm b SnowflakeId) cb (Stream k) w = Some ([pack_ids xs], Some w')"
        "worker_stocked cm b cb m 0 (Some w')" "length xs = k" "distinct xs"
        "\<forall>x \<in> set xs. worker_fresh m (Some w) x \<and> \<not> worker_fresh m (Some w') x"
        "\<forall>x. worker_fresh m (Some w') x \<longrightarrow> worker_fresh m (Some w) x"
      by (rule worker_serves [OF _ assms(2,3)])
    moreover have "worker_safe cm b cb m w'"
      using r(2) by (simp add: worker_stocked_def worker_safe_def)
    ultimately show ?thesis
      using assms(4) by (intro disjI2 exI [of _ xs] exI [of _ w']) simp
  qed simp
qed

interpretation snow_workers: worker_contract "basic_snow_poll_id cm b SnowflakeId" "8 * Suc j" "Suc j"
  "1024 - unat off" "\<lambda>i. worker_safe cm b (8 * Suc j) (off + word_of_nat i)"
  "\<lambda>i w. worker_fresh (off + word_of_nat i) (Some w)"
  for cm b j off
proof
  show "0 < Suc j" by simp
next
  fix i w k msgs ow
  assume "worker_safe cm b (8 * Suc j) (off + word_of_nat i) w" "0 < k" "k \<le> Suc j"
    "worker_round (basic_snow_poll_id cm b SnowflakeId) (8 * Suc j) (Stream k) w = Some (msgs, ow)"
  then show "(msgs = [] \<and> ow = None) \<or>
      (\<exists>xs w'. msgs = [pack_ids xs] \<and> ow = Some w' \<and>
        worker_safe cm b (8 * Suc j) (off + word_of_nat i) w' \<and> length xs = k \<and> distinct xs \<and>
        (\<forall>x \<in> set xs. worker_fresh (off + word_of_nat i) (Some w) x \<and>
          \<not> worker_fresh (off + word_of_nat i) (Some w') x) \<and>
        (\<forall>x. worker_fresh (off + word_of_nat i) (Some w') x \<longrightarrow>
          worker_fresh (off + word_of_nat i) (Some w) x))"
    by (intro worker_safe_round) simp_all
next
  fix i k :: nat and w w' and x :: "u64 snowflake"
  assume "i < 1024 - unat off" "k < 1024 - unat off" "i \<noteq> k"
    "worker_fresh (off + word_of_nat i) (Some w) x"
  then show "\<not> worker_fresh (off + word_of_nat k) (Some w') x"
    using machine_ids_distinct [of off "1024 - unat off" i k] by (auto simp: worker_fresh_def)
qed

text \<open>A new service starts in order.\<close>

lemma service_new_delivery:
  assumes "config_try_from args = Inr c" and "unat (ids_per_chunk c) = Suc j"
    and "unat (shard_offset c) + unat (num_workers c) \<le> 1024"
    and "b = Debug \<or> always_below cm (2 ^ 41) clock" and "service_new b c clock mt = Inr svc"
  shows "delivery_ok (8 * Suc j) (Suc j) (1024 - unat (shard_offset c))
      (\<lambda>i. worker_safe cm b (8 * Suc j) (shard_offset c + word_of_nat i))
      (\<lambda>i w. worker_fresh (shard_offset c + word_of_nat i) (Some w)) (server_start svc)"
proof -
  have cb: "unat (chunk_bytes c) = 8 * Suc j" using config_ok(3) [OF assms(1)] assms(2) by simp
  note st = service_new_stocked [OF assms(1,3,4,5), of 0]
  have "pool_stocked cm b (unat (chunk_bytes c)) (shard_offset c) 0 (s_pool svc)" "s_config svc = c"
    using st by simp_all
  then show ?thesis
    using assms(2)
    by (auto simp: delivery_ok_def server_start_def cb pool_stocked_def worker_stocked_def
        worker_safe_def ids_ok_def id_count_def)
qed

subsection \<open>A server from its start\<close>

text \<open>The state of a server that was started with an accepted configuration.\<close>

lemma server_delivery:
  assumes "config_try_from args = Inr c" and "0 < unat (ids_per_chunk c)"
    and "unat (shard_offset c) + unat (num_workers c) \<le> 1024"
    and "b = Debug \<or> always_below cm (2 ^ 41) clock" and "service_new b c clock mt = Inr svc"
    and "server_reach channel (basic_snow_poll_id cm b SnowflakeId) (server_start svc) s"
  shows "delivery_ok (8 * unat (ids_per_chunk c)) (unat (ids_per_chunk c)) (1024 - unat (shard_offset c))
      (\<lambda>i. worker_safe cm b (8 * unat (ids_per_chunk c)) (shard_offset c + word_of_nat i))
      (\<lambda>i w. worker_fresh (shard_offset c + word_of_nat i) (Some w)) s"
    and "server_wf s"
proof -
  obtain j where j: "unat (ids_per_chunk c) = Suc j" using assms(2) by (cases "unat (ids_per_chunk c)") auto
  note d = snow_workers.delivery_reach [OF assms(6) server_wf_start
      service_new_delivery [OF assms(1) j assms(3-5)]]
  show "server_wf s" using d by simp
  show "delivery_ok (8 * unat (ids_per_chunk c)) (unat (ids_per_chunk c)) (1024 - unat (shard_offset c))
      (\<lambda>i. worker_safe cm b (8 * unat (ids_per_chunk c)) (shard_offset c + word_of_nat i))
      (\<lambda>i w. worker_fresh (shard_offset c + word_of_nat i) (Some w)) s"
    unfolding j using d by simp
qed

lemma count_list_concat: "count_list (concat (map f ts)) x = (\<Sum>t\<leftarrow>ts. count_list (f t) x)"
  by (induction ts) simp_all

end
