(* ===== verification/Server_Schedules.thy ===== *)
theory Server_Schedules
  imports Server_Delivery
begin

text \<open>
  Schedules of the machine: that the sequential model of a request, \<open>stream_ids\<close> of theory
  \<open>Stream_Server\<close>, is what the machine does when nothing else runs.
\<close>

subsection \<open>A stream on its own\<close>

lemma server_run_append:
  "server_run channel poll_id (as @ bs) s =
     (case server_run channel poll_id as s of None \<Rightarrow> None | Some s' \<Rightarrow> server_run channel poll_id bs s')"
  by (induction as arbitrary: s) (simp_all split: option.split)

lemma server_run_reach:
  assumes "server_run channel poll_id as s = Some s'" and "server_reach channel poll_id s0 s"
  shows "server_reach channel poll_id s0 s'"
  using assms
  by (induction as arbitrary: s) (auto split: option.splits intro: server_reach.step)

text \<open>The server with one task and the service replaced.\<close>

definition put :: "nat \<Rightarrow> task \<Rightarrow> 'g service \<Rightarrow> 'g server \<Rightarrow> 'g server" where
  "put t tk svc s = s\<lparr>sv_service := svc, sv_tasks := (sv_tasks s)[t := tk]\<rparr>"

lemma put_simps [simp]:
  "sv_service (put t tk svc s) = svc" "sv_mail (put t tk svc s) = sv_mail s"
  "sv_tasks (put t tk svc s) = (sv_tasks s)[t := tk]" "sv_phase (put t tk svc s) = sv_phase s"
  "sv_leaked (put t tk svc s) = sv_leaked s"
  "put t tk svc (put t tk' svc' s) = put t tk svc s"
  by (simp_all add: put_def)

lemma new_task_simps [simp]:
  "t_total (new_task n) = n" "t_remaining (new_task n) = n" "t_pc (new_task n) = Looping"
  "t_buf (new_task n) = []" "t_taken (new_task n) = []" "\<not> t_gone (new_task n)"
  by (simp_all add: new_task_def)

text \<open>Forwarding the messages of a chunk to a client that takes each at once.\<close>

definition forward_all :: "nat \<Rightarrow> bytes list \<Rightarrow> action list" where
  "forward_all t msgs = concat (map (\<lambda>_. [Forward 0 t, ClientTake t]) msgs)"

definition inspect_all :: "bytes list \<Rightarrow> 'g service \<Rightarrow> 'g service" where
  "inspect_all msgs svc = fold (\<lambda>m. stream_inspect (Inr m)) msgs svc"

lemma inspect_all_simps [simp]:
  "s_config (inspect_all msgs svc) = s_config svc" "s_pool (inspect_all msgs svc) = s_pool svc"
  "s_shutdown (inspect_all msgs svc) = s_shutdown svc"
  "s_inflight (inspect_all msgs svc) = s_inflight svc"
  by (induction msgs arbitrary: svc) (simp_all add: inspect_all_def)

lemma run_forward_all:
  assumes "t < length (sv_tasks s)" and "\<not> t_gone tk" and "t_buf tk = []"
    and "0 < unat (stream_buffer_size (s_config svc))"
  shows "server_run channel poll_id (forward_all t msgs) (put t (tk\<lparr>t_pc := Receiving (msgs @ ms)\<rparr>) svc s) =
    Some (put t (tk\<lparr>t_taken := t_taken tk @ map Inr msgs, t_pc := Receiving ms\<rparr>) (inspect_all msgs svc) s)"
  using assms
proof (induction msgs arbitrary: tk svc)
  case Nil
  then show ?case by (simp add: forward_all_def inspect_all_def)
next
  case (Cons m msgs)
  let ?tk = "tk\<lparr>t_taken := t_taken tk @ [Inr m]\<rparr>"
  have "server_act channel poll_id (Forward 0 t) (put t (tk\<lparr>t_pc := Receiving ((m # msgs) @ ms)\<rparr>) svc s) =
      Some (put t (tk\<lparr>t_buf := [Inr m], t_pc := Receiving (msgs @ ms)\<rparr>) svc s)"
    using Cons.prems by (simp add: act_forward_def Let_def set_task_def put_def)
  moreover have "server_act channel poll_id (ClientTake t)
      (put t (tk\<lparr>t_buf := [Inr m], t_pc := Receiving (msgs @ ms)\<rparr>) svc s) =
      Some (put t (?tk\<lparr>t_pc := Receiving (msgs @ ms)\<rparr>) (stream_inspect (Inr m) svc) s)"
    using Cons.prems by (cases tk) (simp add: act_client_take_def Let_def set_task_def put_def)
  moreover have "forward_all t (m # msgs) = Forward 0 t # ClientTake t # forward_all t msgs"
    by (simp add: forward_all_def)
  ultimately show ?case
    using Cons.IH [of ?tk "stream_inspect (Inr m) svc"] Cons.prems
    by (simp add: inspect_all_def)
qed


text \<open>Handing a request to a worker and waiting for its answer.\<close>

lemma send_to_next_workerE:
  assumes "send_to_next_worker poll_id cb (Stream k) p = Some (r, p')"
  obtains
    (cancelled) "cancelled p" "r = Inr (Inl ServiceShutdown)" "p' = p"
  | (panicked) e where "\<not> cancelled p" "next_worker_index p = (Inl e, p')" "r = Inl e"
  | (closed) i where "\<not> cancelled p" "next_worker_index p = (Inr i, p')" "i < length (workers p)"
      "workers p' = workers p" "workers p ! i = None"
      "r = Inr (Inl (ChannelError (''Worker '' @ show_nat i @ '' channel closed'')))"
  | (answered) i q w msgs ow where "\<not> cancelled p" "next_worker_index p = (Inr i, q)"
      "i < length (workers p)" "workers q = workers p" "workers p ! i = Some w"
      "worker_round poll_id cb (Stream k) w = Some (msgs, ow)" "r = Inr (Inr msgs)"
      "p' = q\<lparr>workers := (workers q)[i := ow]\<rparr>"
proof (cases "cancelled p")
  case True
  with assms show thesis by (intro cancelled) (simp_all add: send_to_next_worker_def)
next
  case False
  obtain x q where n: "next_worker_index p = (x, q)" by fastforce
  note keeps = next_worker_index_keeps [OF n]
  show thesis
  proof (cases x)
    case (Inl e)
    with assms False n show thesis by (intro panicked [of e]) (simp_all add: send_to_next_worker_def)
  next
    case (Inr i)
    show thesis
    proof (cases "workers p ! i")
      case None
      with assms False n Inr keeps show thesis
        by (intro closed [of i]) (simp_all add: send_to_next_worker_def)
    next
      case (Some w)
      with assms False n Inr keeps obtain msgs ow where
        "worker_round poll_id cb (Stream k) w = Some (msgs, ow)" "r = Inr (Inr msgs)"
        "p' = q\<lparr>workers := (workers q)[i := ow]\<rparr>"
        by (auto simp: send_to_next_worker_def split: option.splits)
      with answered [OF False n [unfolded Inr] _ keeps(1) Some] keeps(3) Inr show thesis by blast
    qed
  qed
qed

lemma run_answered:
  fixes svc :: "'g service"
  assumes t: "t < length (sv_tasks s)" and r: "0 < t_remaining tk"
    and k: "k = min (t_remaining tk) (unat (ids_per_chunk (s_config svc)))"
    and mail: "sv_mail s = replicate (length (workers (s_pool svc))) no_mail"
    and d: "send_to_next_worker poll_id (unat (chunk_bytes (s_config svc))) (Stream k) (s_pool svc) =
      Some (Inr (Inr msgs), p')"
  obtains i where "server_run channel poll_id [Iterate 0 t, Send t, Take i, Serve i]
      (put t (tk\<lparr>t_pc := Looping\<rparr>) svc s) =
    Some (put t (tk\<lparr>t_remaining := t_remaining tk - k, t_pc := Receiving msgs\<rparr>) (svc\<lparr>s_pool := p'\<rparr>) s)"
  using d
proof (cases rule: send_to_next_workerE)
  case (answered i q w msgs' ow)
  let ?s = "put t (tk\<lparr>t_remaining := t_remaining tk - k, t_pc := Sending i k\<rparr>) (svc\<lparr>s_pool := q\<rparr>) s"
  let ?a = "put t (tk\<lparr>t_remaining := t_remaining tk - k, t_pc := Awaiting k\<rparr>) (svc\<lparr>s_pool := q\<rparr>) s"
  have "server_act channel poll_id (Iterate 0 t) (put t (tk\<lparr>t_pc := Looping\<rparr>) svc s) = Some ?s"
    using t r k answered(1,2) by (simp add: act_iterate_def Let_def set_task_def set_pool_def put_def)
  moreover have "server_act channel poll_id (Send t) ?s =
      Some (?a\<lparr>sv_mail := (sv_mail s)[i := \<lparr>mb_queue = Some (Chunk t k), mb_busy = None\<rparr>]\<rparr>)"
    using t mail answered(3-5)
    by (simp add: act_send_def Let_def set_task_def set_mail_def put_def no_mail_def)
  moreover have "server_act channel poll_id (Take i)
      (?a\<lparr>sv_mail := (sv_mail s)[i := \<lparr>mb_queue = Some (Chunk t k), mb_busy = None\<rparr>]\<rparr>) =
      Some (?a\<lparr>sv_mail := (sv_mail s)[i := \<lparr>mb_queue = None, mb_busy = Some (Chunk t k)\<rparr>]\<rparr>)"
    using mail answered(3-5) by (simp add: act_take_def Let_def set_mail_def put_def)
  moreover have "(sv_mail s)[i := no_mail] = sv_mail s" using mail answered(3) by (simp add: list_update_same_conv)
  then have "server_act channel poll_id (Serve i)
      (?a\<lparr>sv_mail := (sv_mail s)[i := \<lparr>mb_queue = None, mb_busy = Some (Chunk t k)\<rparr>]\<rparr>) =
    Some (put t (tk\<lparr>t_remaining := t_remaining tk - k, t_pc := Receiving msgs\<rparr>) (svc\<lparr>s_pool := p'\<rparr>) s)"
    using t mail answered(3-8)
    by (cases ow) (simp_all add: act_serve_def Let_def set_task_def set_mail_def set_pool_def
        set_worker_def close_chunk_def put_def work_of_def no_mail_def)
  ultimately show thesis by (intro that [of i]) simp
qed simp_all


lemma run_refused:
  fixes svc :: "'g service"
  assumes t: "t < length (sv_tasks s)" and r: "0 < t_remaining tk"
    and k: "k = min (t_remaining tk) (unat (ids_per_chunk (s_config svc)))"
    and d: "send_to_next_worker poll_id (unat (chunk_bytes (s_config svc))) (Stream k) (s_pool svc) =
      Some (Inr (Inl e), p')"
  obtains as where "server_run channel poll_id as (put t (tk\<lparr>t_pc := Looping\<rparr>) svc s) =
    Some (put t (tk\<lparr>t_remaining := t_remaining tk - k, t_pc := Reporting e\<rparr>) (svc\<lparr>s_pool := p'\<rparr>) s)"
  using d
proof (cases rule: send_to_next_workerE)
  case cancelled
  with t r k show thesis
    by (intro that [of "[Iterate 0 t]"]) (simp add: act_iterate_def Let_def set_task_def put_def)
next
  case (closed i)
  with t r k show thesis
    by (intro that [of "[Iterate 0 t, Send t]"])
      (simp add: act_iterate_def act_send_def Let_def set_task_def set_pool_def put_def)
qed simp_all

lemma run_panicked:
  fixes svc :: "'g service"
  assumes t: "t < length (sv_tasks s)" and r: "0 < t_remaining tk"
    and k: "k = min (t_remaining tk) (unat (ids_per_chunk (s_config svc)))"
    and d: "send_to_next_worker poll_id (unat (chunk_bytes (s_config svc))) (Stream k) (s_pool svc) =
      Some (Inl e, p')"
  shows "server_run channel poll_id [Iterate 0 t] (put t (tk\<lparr>t_pc := Looping\<rparr>) svc s) =
    Some (put t (tk\<lparr>t_remaining := t_remaining tk - k, t_pc := Panicked\<rparr>) (svc\<lparr>s_pool := p'\<rparr>) s)"
  using d
proof (cases rule: send_to_next_workerE)
  case (panicked e')
  with t r k show ?thesis by (simp add: act_iterate_def Let_def set_task_def set_pool_def put_def)
qed simp_all

lemma run_report:
  assumes "t < length (sv_tasks s)" and "\<not> t_gone tk" and "t_buf tk = []"
    and "0 < unat (stream_buffer_size (s_config svc))"
  shows "server_run channel poll_id [Report 0 t, ClientTake t] (put t (tk\<lparr>t_pc := Reporting e\<rparr>) svc s) =
    Some (put t (tk\<lparr>t_taken := t_taken tk @ [Inl (status_of_error e)], t_pc := Returned (Inl e)\<rparr>)
      (stream_inspect (Inl (status_of_error e)) (stream_finish 0 svc)) s)"
  using assms
  by (cases tk) (simp add: act_report_def act_client_take_def Let_def finish_def set_task_def put_def)

lemma send_to_next_worker_length:
  "send_to_next_worker poll_id cb (Stream k) p = Some (r, p') \<Longrightarrow> length (workers p') = length (workers p)"
  by (erule send_to_next_workerE) (auto dest: next_worker_index_keeps(1))

lemma forward_deliver: "forward deliver msgs r = (None, r @ map Inr msgs)"
  by (induction msgs arbitrary: r) (simp_all add: deliver_def)

text \<open>One iteration of \<open>feed_chunks\<close> as a schedule.\<close>

lemma run_feed_step:
  fixes svc :: "'g service"
  assumes t: "t < length (sv_tasks s)" and tk: "0 < t_remaining tk" "\<not> t_gone tk" "t_buf tk = []"
    and mail: "sv_mail s = replicate (length (workers (s_pool svc))) no_mail"
    and buf: "0 < unat (stream_buffer_size (s_config svc))"
    and step: "feed_step deliver
      (\<lambda>k. send_to_next_worker poll_id (unat (chunk_bytes (s_config svc))) (Stream k))
      (unat (ids_per_chunk (s_config svc))) (t_remaining tk) (s_pool svc) (t_taken tk) = Some (x, p', r')"
  obtains as tk' svc' where
    "server_run channel poll_id as (put t (tk\<lparr>t_pc := Looping\<rparr>) svc s) = Some (put t tk' svc' s)"
    "s_pool svc' = p'" "s_config svc' = s_config svc" "s_shutdown svc' = s_shutdown svc"
    "t_taken tk' = r'" "t_buf tk' = []" "\<not> t_gone tk'" "length (workers p') = length (workers (s_pool svc))"
    "case x of
       Inr n \<Rightarrow> t_pc tk' = Looping \<and> t_remaining tk' = n \<and> s_inflight svc' = s_inflight svc
     | Inl (Inl e) \<Rightarrow> t_pc tk' = Panicked \<and> s_inflight svc' = s_inflight svc
     | Inl (Inr e) \<Rightarrow> t_pc tk' = Returned e \<and> s_inflight svc' = s_inflight svc - 1"
proof -
  define k where "k = min (t_remaining tk) (unat (ids_per_chunk (s_config svc)))"
  let ?d = "send_to_next_worker poll_id (unat (chunk_bytes (s_config svc))) (Stream k) (s_pool svc)"
  let ?tk = "tk\<lparr>t_remaining := t_remaining tk - k\<rparr>"
  from step obtain d p where d: "?d = Some (d, p)"
    by (auto simp: feed_step_def Let_def k_def split: option.splits)
  note len = send_to_next_worker_length [OF d]
  consider e where "d = Inl e" | e where "d = Inr (Inl e)" | msgs where "d = Inr (Inr msgs)"
    by (metis sum.exhaust)
  then show thesis
  proof cases
    case 1
    with step d have x: "x = Inl (Inl e)" "p' = p" "r' = t_taken tk"
      by (simp_all add: feed_step_def Let_def k_def)
    show thesis
      by (rule that [OF run_panicked [OF t tk(1) k_def d [unfolded 1]]])
        (use x len tk(2,3) in simp_all)
  next
    case 2
    with step d have x: "x = Inl (Inr (Inl e))" "p' = p" "r' = t_taken tk @ [Inl (status_of_error e)]"
      by (simp_all add: feed_step_def Let_def k_def deliver_def)
    obtain as where "server_run channel poll_id as (put t (tk\<lparr>t_pc := Looping\<rparr>) svc s) =
        Some (put t (?tk\<lparr>t_pc := Reporting e\<rparr>) (svc\<lparr>s_pool := p\<rparr>) s)"
      by (rule run_refused [OF t tk(1) k_def d [unfolded 2]])
    then have "server_run channel poll_id (as @ [Report 0 t, ClientTake t])
        (put t (tk\<lparr>t_pc := Looping\<rparr>) svc s) =
      Some (put t (?tk\<lparr>t_taken := t_taken tk @ [Inl (status_of_error e)], t_pc := Returned (Inl e)\<rparr>)
        (stream_inspect (Inl (status_of_error e)) (stream_finish 0 (svc\<lparr>s_pool := p\<rparr>))) s)"
      using run_report [OF t, of ?tk "svc\<lparr>s_pool := p\<rparr>" channel poll_id e] tk(2,3) buf
      by (simp add: server_run_append del: server_run.simps)
    then show thesis by (rule that) (use x len tk(2,3) in simp_all)
  next
    case 3
    with step d have x: "x = Inr (t_remaining tk - k)" "p' = p" "r' = t_taken tk @ map Inr msgs"
      by (simp_all add: feed_step_def Let_def k_def forward_deliver)
    let ?svc = "svc\<lparr>s_pool := p\<rparr>" and ?tk' = "?tk\<lparr>t_taken := t_taken tk @ map Inr msgs\<rparr>"
    obtain i where i: "server_run channel poll_id [Iterate 0 t, Send t, Take i, Serve i]
        (put t (tk\<lparr>t_pc := Looping\<rparr>) svc s) = Some (put t (?tk\<lparr>t_pc := Receiving msgs\<rparr>) ?svc s)"
      by (rule run_answered [OF t tk(1) k_def mail d [unfolded 3]])
    have f: "server_run channel poll_id (forward_all t msgs) (put t (?tk\<lparr>t_pc := Receiving msgs\<rparr>) ?svc s) =
        Some (put t (?tk'\<lparr>t_pc := Receiving []\<rparr>) (inspect_all msgs ?svc) s)"
      using run_forward_all [OF t, of ?tk ?svc channel poll_id msgs "[]"] tk(2,3) buf by simp
    have e: "server_run channel poll_id [Forward 0 t] (put t (?tk'\<lparr>t_pc := Receiving []\<rparr>) (inspect_all msgs ?svc) s) =
        Some (put t (?tk'\<lparr>t_pc := Looping\<rparr>) (inspect_all msgs ?svc) s)"
      using t by (simp add: act_forward_def Let_def set_task_def put_def)
    have "server_run channel poll_id
        ([Iterate 0 t, Send t, Take i, Serve i] @ forward_all t msgs @ [Forward 0 t])
        (put t (tk\<lparr>t_pc := Looping\<rparr>) svc s) = Some (put t (?tk'\<lparr>t_pc := Looping\<rparr>) (inspect_all msgs ?svc) s)"
      using i f e by (simp add: server_run_append del: server_run.simps append.simps)
    then show thesis by (rule that) (use x len tk(2,3) in simp_all)
  qed
qed


text \<open>\<open>feed_chunks\<close> as a schedule.\<close>

lemma run_feed:
  fixes svc :: "'g service"
  assumes "t < length (sv_tasks s)" and "\<not> t_gone tk" and "t_buf tk = []" and "t_pc tk = Looping"
    and "sv_mail s = replicate (length (workers (s_pool svc))) no_mail"
    and "0 < unat (stream_buffer_size (s_config svc))" and "0 < unat (ids_per_chunk (s_config svc))"
    and "feed_chunks poll_id deliver (t_remaining tk) (s_pool svc) (t_taken tk) (s_config svc) =
      Some (out, p', r')"
  shows "\<exists>as tk' svc'. server_run channel poll_id as (put t tk svc s) = Some (put t tk' svc' s) \<and>
    s_pool svc' = p' \<and> s_config svc' = s_config svc \<and> s_shutdown svc' = s_shutdown svc \<and>
    t_taken tk' = r' \<and> t_buf tk' = [] \<and>
    (case out of
       Inl e \<Rightarrow> t_pc tk' = Panicked \<and> s_inflight svc' = s_inflight svc
     | Inr r \<Rightarrow> t_pc tk' = Returned r \<and> s_inflight svc' = s_inflight svc - 1)"
  using assms
proof (induction "t_remaining tk" arbitrary: tk svc rule: less_induct)
  case less
  have loop: "put t (tk\<lparr>t_pc := Looping\<rparr>) svc s = put t tk svc s" using less.prems(4) by (cases tk) simp
  show ?case
  proof (cases "t_remaining tk = 0")
    case True
    then have "out = Inr (Inr ())" "p' = s_pool svc" "r' = t_taken tk"
      using less.prems(8) by (simp_all add: feed_chunks_def feed_loop.simps)
    moreover have "server_run channel poll_id [Iterate 0 t] (put t tk svc s) =
        Some (put t (tk\<lparr>t_pc := Returned (Inr ())\<rparr>) (stream_finish 0 svc) s)"
      using less.prems(1,4) True by (simp add: act_iterate_def Let_def finish_def set_task_def put_def)
    ultimately show ?thesis
      using less.prems(3)
      by (intro exI [of _ "[Iterate 0 t]"] exI [of _ "tk\<lparr>t_pc := Returned (Inr ())\<rparr>"]
          exI [of _ "stream_finish 0 svc"]) simp
  next
    case False
    then have r: "0 < t_remaining tk" by simp
    from less.prems(8) r obtain x q rs where step: "feed_step deliver
        (\<lambda>k. send_to_next_worker poll_id (unat (chunk_bytes (s_config svc))) (Stream k))
        (unat (ids_per_chunk (s_config svc))) (t_remaining tk) (s_pool svc) (t_taken tk) = Some (x, q, rs)"
      by (subst (asm) feed_chunks_def, subst (asm) feed_loop.simps) (auto split: option.splits)
    obtain as tk' svc' where run: "server_run channel poll_id as (put t tk svc s) = Some (put t tk' svc' s)"
      and post: "s_pool svc' = q" "s_config svc' = s_config svc" "s_shutdown svc' = s_shutdown svc"
        "t_taken tk' = rs" "t_buf tk' = []" "\<not> t_gone tk'" "length (workers q) = length (workers (s_pool svc))"
      and pc: "case x of
         Inr n \<Rightarrow> t_pc tk' = Looping \<and> t_remaining tk' = n \<and> s_inflight svc' = s_inflight svc
       | Inl (Inl e) \<Rightarrow> t_pc tk' = Panicked \<and> s_inflight svc' = s_inflight svc
       | Inl (Inr e) \<Rightarrow> t_pc tk' = Returned e \<and> s_inflight svc' = s_inflight svc - 1"
      by (rule run_feed_step [OF less.prems(1) r less.prems(2,3,5,6) step, where channel = channel,
            unfolded loop])
    have body: "(case x of
         Inl o' \<Rightarrow> Some (o', q, rs)
       | Inr n \<Rightarrow> feed_chunks poll_id deliver n q rs (s_config svc)) = Some (out, p', r')"
      using less.prems(8) r step unfolding feed_chunks_def
      by (subst (asm) feed_loop.simps) (simp split: sum.splits)
    show ?thesis
    proof (cases x)
      case (Inl o')
      then have "out = o'" "p' = q" "r' = rs"
        using body by simp_all
      with run post pc Inl show ?thesis
        by (intro exI [of _ as] exI [of _ tk'] exI [of _ svc']) (simp split: sum.splits)
    next
      case (Inr n)
      with pc have tk': "t_pc tk' = Looping" "t_remaining tk' = n" "s_inflight svc' = s_inflight svc"
        by simp_all
      have "n < t_remaining tk"
        using step Inr r less.prems(7)
        by (auto simp: feed_step_def Let_def split: option.splits sum.splits prod.splits)
      moreover have "feed_chunks poll_id deliver (t_remaining tk') (s_pool svc') (t_taken tk') (s_config svc') =
          Some (out, p', r')"
        using body by (simp add: Inr post tk')
      ultimately obtain bs tk'' svc'' where
        "server_run channel poll_id bs (put t tk' svc' s) = Some (put t tk'' svc'' s)"
        "s_pool svc'' = p'" "s_config svc'' = s_config svc'" "s_shutdown svc'' = s_shutdown svc'"
        "t_taken tk'' = r'" "t_buf tk'' = []"
        "case out of
           Inl e \<Rightarrow> t_pc tk'' = Panicked \<and> s_inflight svc'' = s_inflight svc'
         | Inr r \<Rightarrow> t_pc tk'' = Returned r \<and> s_inflight svc'' = s_inflight svc' - 1"
        using less.hyps [of tk' svc'] less.prems(1,5-7) tk' post by auto
      with run post tk' show ?thesis
        by (intro exI [of _ "as @ bs"] exI [of _ tk''] exI [of _ svc''])
          (simp add: server_run_append split: sum.splits)
    qed
  qed
qed


text \<open>The sequential model of a request as a schedule.\<close>

lemma stream_schedule:
  fixes s :: "'g server"
  assumes "sv_mail s = replicate (length (sv_workers s)) no_mail"
    and "0 < unat (ids_per_chunk (sv_config s))" and "\<not> is_ok (channel 0)"
    and "stream_ids elapsed poll_id (\<lambda>n. map_ok (\<lambda>_. []) (channel n)) deliver count (sv_service s) =
      Some (r, svc')"
  shows "\<exists>as s'. server_run channel poll_id (Request count # as) s = Some s' \<and>
    s_pool (sv_service s') = s_pool svc' \<and> s_config (sv_service s') = s_config svc' \<and>
    s_shutdown (sv_service s') = s_shutdown svc' \<and> s_inflight (sv_service s') = s_inflight svc' \<and>
    sv_mail s' = sv_mail s \<and>
    (case r of
       Inl _ \<Rightarrow> sv_tasks s' = sv_tasks s \<and> sv_leaked s' = sv_leaked s + 1
     | Inr (Inl _) \<Rightarrow> sv_tasks s' = sv_tasks s
     | Inr (Inr (out, msgs)) \<Rightarrow> (\<exists>tk. sv_tasks s' = sv_tasks s @ [tk] \<and> t_taken tk = msgs \<and> t_buf tk = [] \<and>
         t_pc tk = (case out of Inl _ \<Rightarrow> Panicked | Inr outcome \<Rightarrow> Returned outcome)))"
proof -
  obtain a svc where acc: "stream_accept count (sv_service s) = (a, svc)" by fastforce
  note keeps = stream_accept_keeps [OF acc]
  show ?thesis
  proof (cases a)
    case (Inl status)
    with acc assms(4) have "r = Inr (Inl status)" "svc' = svc" by (simp_all add: stream_ids_def)
    with acc Inl show ?thesis
      by (intro exI [of _ "[]"] exI [of _ "s\<lparr>sv_service := svc\<rparr>"]) (simp add: act_request_def)
  next
    case (Inr n)
    show ?thesis
    proof (cases "channel (stream_buffer_size (s_config svc))")
      case (Inl panic)
      with acc Inr assms(4) have "r = Inl panic" "svc' = svc" by (simp_all add: stream_ids_def)
      with acc Inr Inl show ?thesis
        by (intro exI [of _ "[]"] exI [of _ "s\<lparr>sv_service := svc, sv_leaked := sv_leaked s + 1\<rparr>"])
          (simp add: act_request_def)
    next
      case (Inr u)
      let ?s = "s\<lparr>sv_service := svc, sv_tasks := sv_tasks s @ [new_task n]\<rparr>" and ?t = "length (sv_tasks s)"
      have req: "server_act channel poll_id (Request count) s = Some ?s"
        using acc \<open>a = Inr n\<close> Inr by (simp add: act_request_def)
      from Inr assms(3) have "stream_buffer_size (s_config svc) \<noteq> 0" by (auto simp: is_ok_iff)
      then have buf: "0 < unat (stream_buffer_size (s_config svc))" by (simp add: unat_gt_0)
      from assms(4) acc \<open>a = Inr n\<close> Inr obtain out p msgs where
        feed: "feed_chunks poll_id deliver n (s_pool svc) [] (s_config svc) = Some (out, p, msgs)"
        by (auto simp: stream_ids_def split: option.splits)
      have same: "put ?t (new_task n) svc ?s = ?s" by (simp add: put_def)
      obtain as tk' svc'' where run:
          "server_run channel poll_id as ?s = Some (put ?t tk' svc'' ?s)"
          "s_pool svc'' = p" "s_config svc'' = s_config svc" "s_shutdown svc'' = s_shutdown svc"
          "t_taken tk' = msgs" "t_buf tk' = []"
          "case out of
             Inl e \<Rightarrow> t_pc tk' = Panicked \<and> s_inflight svc'' = s_inflight svc
           | Inr r \<Rightarrow> t_pc tk' = Returned r \<and> s_inflight svc'' = s_inflight svc - 1"
        using run_feed [of ?t ?s "new_task n" svc poll_id out p msgs channel, unfolded same]
          feed buf assms(1,2) keeps by auto
      have "r = Inr (Inr (out, msgs))"
        "svc' = (case out of Inl _ \<Rightarrow> svc\<lparr>s_pool := p\<rparr> | Inr _ \<Rightarrow> stream_finish elapsed (svc\<lparr>s_pool := p\<rparr>))"
        using assms(4) acc \<open>a = Inr n\<close> Inr feed by (auto simp: stream_ids_def split: sum.splits)
      with run req show ?thesis
        by (intro exI [of _ as] exI [of _ "put ?t tk' svc'' ?s"]) (auto split: sum.splits)
    qed
  qed
qed

end
