(* ===== verification/Server_Progress.thy ===== *)
theory Server_Progress
  imports Server_Delivery
begin

text \<open>
  Progress of the machine. Every action but a new request lowers a rank, so that the machine
  can only take a bounded number of steps without one; and as long as a stream has not
  returned, or a shutdown has not ended, some action is possible, unless a worker waits for
  its generator for ever.
\<close>

subsection \<open>Rank\<close>

definition pc_rank :: "task_pc \<Rightarrow> nat" where
  "pc_rank pc =
     (case pc of
        Looping \<Rightarrow> 1
      | Sending _ _ \<Rightarrow> 7
      | Awaiting _ \<Rightarrow> 4
      | Receiving msgs \<Rightarrow> 2 + 2 * length msgs
      | Reporting _ \<Rightarrow> 2
      | Returned _ \<Rightarrow> 0
      | Panicked \<Rightarrow> 0)"

definition task_rank :: "task \<Rightarrow> nat" where
  "task_rank tk =
     10 * t_remaining tk + pc_rank (t_pc tk) + length (t_buf tk) + (if t_gone tk then 0 else 1)"

definition mail_rank :: "mailbox \<Rightarrow> nat" where
  "mail_rank mb = (if mb_queue mb = None then 0 else 2) + (if mb_busy mb = None then 0 else 1)"

definition phase_rank :: "nat \<Rightarrow> phase \<Rightarrow> nat" where
  "phase_rank n ph =
     (case ph of
        Serving \<Rightarrow> 3 * n + 4
      | NotServing \<Rightarrow> 3 * n + 3
      | Draining \<Rightarrow> 3 * n + 2
      | Stopping i \<Rightarrow> 3 * (n - i) + 1
      | Stopped \<Rightarrow> 0)"

definition server_rank :: "'g server \<Rightarrow> nat" where
  "server_rank s =
     (\<Sum>tk\<leftarrow>sv_tasks s. task_rank tk) + (\<Sum>mb\<leftarrow>sv_mail s. mail_rank mb) +
     phase_rank (length (sv_workers s)) (sv_phase s)"

lemma pc_rank_simps [simp]:
  "pc_rank Looping = 1" "pc_rank (Sending i k) = 7" "pc_rank (Awaiting k) = 4"
  "pc_rank (Receiving msgs) = 2 + 2 * length msgs" "pc_rank (Reporting e) = 2"
  "pc_rank (Returned r) = 0" "pc_rank Panicked = 0"
  by (simp_all add: pc_rank_def)

text \<open>A step of one task; a step of one mailbox.\<close>

lemma rank_task:
  assumes "t < length (sv_tasks s)" and "sv_tasks s' = (sv_tasks s)[t := tk]"
    and "sv_mail s' = sv_mail s" and "sv_workers s' = sv_workers s" and "sv_phase s' = sv_phase s"
    and "task_rank tk < task_rank (sv_tasks s ! t)"
  shows "server_rank s' < server_rank s"
  using sum_map_update [OF assms(1), of task_rank tk] assms(2-6) by (simp add: server_rank_def)

lemma rank_iterate:
  assumes "0 < unat (ids_per_chunk (sv_config s))" and "act_iterate elapsed t s = Some s'"
  shows "server_rank s' < server_rank s"
proof -
  have less: "10 * (r - min r c) + 7 < 10 * r + 1" if "0 < r" "0 < c" for r c :: nat
    using that by linarith
  from assms(2) show ?thesis
  proof (cases rule: act_iterateE)
    case completed
    then show ?thesis by (intro rank_task [of t]) (auto simp: task_rank_def)
  next
    case (cancelled k)
    then show ?thesis
      using less [OF cancelled(3) assms(1)] by (intro rank_task [of t]) (auto simp: task_rank_def)
  next
    case (panicked k p)
    then show ?thesis
      using less [OF panicked(3) assms(1)] by (intro rank_task [of t]) (auto simp: task_rank_def)
  next
    case (claimed k i p)
    then show ?thesis
      using less [OF claimed(3) assms(1)] by (intro rank_task [of t]) (auto simp: task_rank_def)
  qed
qed

lemma rank_send:
  assumes "server_wf s" and "act_send t s = Some s'"
  shows "server_rank s' < server_rank s"
  using assms(2)
proof (cases rule: act_sendE)
  case (closed i k e)
  then show ?thesis by (intro rank_task [of t]) (auto simp: task_rank_def)
next
  case (queued i k)
  have i: "i < length (sv_mail s)"
    using assms(1) server_wf_waiting(1) [OF assms(1) queued(1,2)] by (simp add: server_wf_def parts_wf_def)
  show ?thesis
    using queued sum_map_update [OF queued(1), of task_rank "(sv_tasks s ! t)\<lparr>t_pc := Awaiting k\<rparr>"]
      sum_map_update [OF i, of mail_rank "(sv_mail s ! i)\<lparr>mb_queue := Some (Chunk t k)\<rparr>"]
    by (simp add: server_rank_def task_rank_def mail_rank_def)
qed

lemma rank_forward:
  assumes "act_forward elapsed t s = Some s'"
  shows "server_rank s' < server_rank s"
  using assms
  by (cases rule: act_forwardE)
    (rule rank_task [of t _ _ "sv_tasks s' ! t"]; simp add: task_rank_def)+

lemma rank_report:
  assumes "act_report elapsed t s = Some s'"
  shows "server_rank s' < server_rank s"
  using assms
  by (cases rule: act_reportE)
    (rule rank_task [of t _ _ "sv_tasks s' ! t"]; simp add: task_rank_def)+

lemma rank_client:
  shows "act_client_take t s = Some s' \<Longrightarrow> server_rank s' < server_rank s"
    and "act_disconnect t s = Some s' \<Longrightarrow> server_rank s' < server_rank s"
  by (erule act_client_takeE act_disconnectE;
      rule rank_task [of t _ _ "sv_tasks s' ! t"]; simp add: task_rank_def)+

lemma rank_take:
  assumes "server_wf s" and "act_take i s = Some s'"
  shows "server_rank s' < server_rank s"
  using assms(2)
proof (cases rule: act_takeE)
  case 1
  have "i < length (sv_mail s)" using assms(1) 1(1) by (simp add: server_wf_def parts_wf_def)
  from sum_map_update [OF this, of mail_rank "\<lparr>mb_queue = None, mb_busy = mb_queue (sv_mail s ! i)\<rparr>"] 1
  show ?thesis by (simp add: server_rank_def mail_rank_def)
qed

lemma rank_shutdown:
  assumes "server_wf s"
  shows "act_signal s = Some s' \<Longrightarrow> server_rank s' < server_rank s"
    and "act_refuse s = Some s' \<Longrightarrow> server_rank s' < server_rank s"
    and "act_cancel s = Some s' \<Longrightarrow> server_rank s' < server_rank s"
    and "act_stop_next s = Some s' \<Longrightarrow> server_rank s' < server_rank s"
proof -
  show "server_rank s' < server_rank s" if "act_stop_next s = Some s'"
    using that
  proof (cases rule: act_stop_nextE)
    case (asked i)
    have "i < length (sv_mail s)" using assms asked(2) by (simp add: server_wf_def parts_wf_def)
    from sum_map_update [OF this, of mail_rank "(sv_mail s ! i)\<lparr>mb_queue := Some Stop\<rparr>"] asked
    show ?thesis by (simp add: server_rank_def mail_rank_def phase_rank_def)
  qed (auto simp: server_rank_def phase_rank_def)
qed (auto simp: server_rank_def phase_rank_def act_signal_def act_refuse_def act_cancel_def
    set_global_shutdown_def split: if_splits)


text \<open>A round of a worker.\<close>

lemma closed_tasks_rank:
  assumes "\<And>t k. e = Some (Chunk t k) \<Longrightarrow> 2 \<le> pc_rank (t_pc (ts ! t))"
  shows "(\<Sum>tk\<leftarrow>closed_tasks e [] ts. task_rank tk) \<le> (\<Sum>tk\<leftarrow>ts. task_rank tk)"
proof (cases "\<exists>t k. e = Some (Chunk t k) \<and> t < length ts")
  case True
  then obtain t k where e: "e = Some (Chunk t k)" "t < length ts" by blast
  with assms [OF e(1)] sum_map_update [OF e(2), of task_rank "(ts ! t)\<lparr>t_pc := Receiving []\<rparr>"]
  show ?thesis by (simp add: closed_tasks_def task_rank_def)
qed (auto simp: closed_tasks_def list_update_beyond split: option.split envelope.split)

lemma closed_tasks_pc_rank:
  assumes "2 \<le> pc_rank (t_pc (ts ! u))" and "u < length ts"
  shows "2 \<le> pc_rank (t_pc (closed_tasks e [] ts ! u))"
  using assms by (simp add: closed_tasks_def nth_update split: option.split envelope.split)

context worker_contract
begin

lemma rank_serve:
  assumes "server_wf s" and "delivery_ok cb c n safe fresh s" and "act_serve poll_id i s = Some s'"
  shows "server_rank s' < server_rank s"
proof -
  have i': "i < length (sv_mail s)" if "i < length (sv_workers s)"
    using assms(1) that by (simp add: server_wf_def parts_wf_def)
  have mail: "sv_mail s' = (sv_mail s)[i := if sv_workers s' ! i = None then no_mail
        else (sv_mail s ! i)\<lparr>mb_busy := None\<rparr>]" "sv_phase s' = sv_phase s"
      "mb_busy (sv_mail s ! i) \<noteq> None" "i < length (sv_workers s)"
      "length (sv_workers s') = length (sv_workers s)"
    using assms(3) by (auto elim!: act_serveE)
  have "mail_rank (if sv_workers s' ! i = None then no_mail else (sv_mail s ! i)\<lparr>mb_busy := None\<rparr>) <
      mail_rank (sv_mail s ! i)"
    using mail(3) by (simp add: mail_rank_def no_mail_def)
  then have less: "(\<Sum>mb\<leftarrow>sv_mail s'. mail_rank mb) < (\<Sum>mb\<leftarrow>sv_mail s. mail_rank mb)"
    using sum_map_update [OF i' [OF mail(4)], of mail_rank] unfolding mail(1) by (smt (verit) add_less_cancel_left add.commute)
  have "(\<Sum>tk\<leftarrow>sv_tasks s'. task_rank tk) \<le> (\<Sum>tk\<leftarrow>sv_tasks s. task_rank tk)"
    using assms
  proof (cases rule: serve_cases)
    case (answered t k xs w w')
    from sum_map_update [OF answered(3), of task_rank "(sv_tasks s ! t)\<lparr>t_pc := Receiving [pack_ids xs]\<rparr>"]
      answered(4,7)
    show ?thesis by (simp add: task_rank_def)
  next
    case (ended e w)
    note lets = parts_wf_letters [OF assms(1) [unfolded server_wf_def] ended(1)]
    have pc: "u < length (sv_tasks s) \<and> 2 \<le> pc_rank (t_pc (sv_tasks s ! u))"
      if "x = Some (Chunk u k)" "letter_ok (sv_tasks s) x" for x u k
      using that letter_ok_live [of "sv_tasks s" u k] by simp
    have "(\<Sum>tk\<leftarrow>closed_tasks (Some e) [] (sv_tasks s). task_rank tk) \<le> (\<Sum>tk\<leftarrow>sv_tasks s. task_rank tk)"
      by (rule closed_tasks_rank) (use pc lets(2) ended(3) in fastforce)
    moreover have "(\<Sum>tk\<leftarrow>sv_tasks s'. task_rank tk) \<le>
        (\<Sum>tk\<leftarrow>closed_tasks (Some e) [] (sv_tasks s). task_rank tk)"
      unfolding ended(6)
      by (rule closed_tasks_rank, rule closed_tasks_pc_rank) (use pc lets(1) in fastforce)+
    ultimately show ?thesis by linarith
  qed
  with less mail(2,5) show ?thesis by (simp add: server_rank_def)
qed

theorem rank_step:
  assumes "server_wf s" and "delivery_ok cb c n safe fresh s"
    and "server_act channel poll_id a s = Some s'" and "\<And>k. a \<noteq> Request k"
  shows "server_rank s' < server_rank s"
proof -
  have c: "0 < unat (ids_per_chunk (sv_config s))" using assms(2) room by (simp add: delivery_ok_def)
  note ranks = rank_iterate [OF c] rank_send [OF assms(1)] rank_forward rank_report rank_client
    rank_take [OF assms(1)] rank_serve [OF assms(1,2)] rank_shutdown [OF assms(1)]
  show ?thesis using assms(3,4) by (cases a) (auto dest: ranks)
qed

theorem rank_run:
  assumes "server_wf s" and "delivery_ok cb c n safe fresh s"
    and "server_run channel poll_id as s = Some s'" and "\<forall>a \<in> set as. \<forall>k. a \<noteq> Request k"
  shows "length as + server_rank s' \<le> server_rank s"
  using assms
proof (induction as arbitrary: s)
  case (Cons a as)
  from Cons.prems(3) obtain q where
    q: "server_act channel poll_id a s = Some q" "server_run channel poll_id as q = Some s'"
    by (auto split: option.splits)
  have "length as + server_rank s' \<le> server_rank q"
    using Cons.IH [OF server_wf_step [OF Cons.prems(1) q(1)] delivery_ok_step [OF Cons.prems(1,2) q(1)] q(2)]
      Cons.prems(4) by simp
  moreover have "server_rank q < server_rank s"
    by (rule rank_step [OF Cons.prems(1,2) q(1)]) (use Cons.prems(4) in auto)
  ultimately show ?case by simp
qed simp

end


subsection \<open>Some action is possible\<close>

text \<open>A worker whose generator stays pending for ever never answers the request it serves.\<close>

definition never_answers ::
  "('g \<Rightarrow> (u64 snowflake, u64) poll res \<times> 'g) \<Rightarrow> 'g server \<Rightarrow> nat \<Rightarrow> bool" where
  "never_answers poll_id s i \<longleftrightarrow>
     i < length (sv_workers s) \<and>
     (case (sv_workers s ! i, mb_busy (sv_mail s ! i)) of
        (Some w, Some e) \<Rightarrow>
          worker_round poll_id (unat (chunk_bytes (sv_config s))) (work_of e) w = None
      | _ \<Rightarrow> False)"

lemma mailbox_moves:
  assumes "i < length (sv_workers s)" and "sv_workers s ! i \<noteq> None" and "sv_mail s ! i \<noteq> no_mail"
    and "\<not> never_answers poll_id s i"
  shows "act_take i s \<noteq> None \<or> act_serve poll_id i s \<noteq> None"
proof (cases "mb_busy (sv_mail s ! i)")
  case None
  then have "mb_queue (sv_mail s ! i) \<noteq> None"
    using assms(3) by (cases "sv_mail s ! i") (auto simp: no_mail_def)
  with assms(1,2) None show ?thesis by (simp add: act_take_def)
next
  case (Some e)
  obtain w where w: "sv_workers s ! i = Some w" using assms(2) by blast
  with assms(1,4) Some obtain msgs ow where
    "worker_round poll_id (unat (chunk_bytes (sv_config s))) (work_of e) w = Some (msgs, ow)"
    by (auto simp: never_answers_def)
  with assms(1) w Some show ?thesis by (cases ow) (simp_all add: act_serve_def Let_def)
qed

lemma awaited_mailbox:
  assumes "server_wf s" and "t < length (sv_tasks s)" and "t_pc (sv_tasks s ! t) = Awaiting k"
  obtains i where "i < length (sv_workers s)" "sv_workers s ! i \<noteq> None" "sv_mail s ! i \<noteq> no_mail"
    "mail_count t (sv_mail s ! i) \<noteq> 0"
proof -
  have wf: "length (sv_mail s) = length (sv_workers s)"
      "\<forall>i < length (sv_workers s). sv_workers s ! i = None \<longrightarrow> sv_mail s ! i = no_mail"
      "(\<Sum>mb\<leftarrow>sv_mail s. mail_count t mb) = 1"
    using assms by (simp_all add: server_wf_def parts_wf_def)
  have "\<exists>mb \<in> set (sv_mail s). mail_count t mb \<noteq> 0"
  proof (rule ccontr)
    assume "\<not> (\<exists>mb \<in> set (sv_mail s). mail_count t mb \<noteq> 0)"
    then have "(\<Sum>mb\<leftarrow>sv_mail s. mail_count t mb) = 0" by simp
    with wf(3) show False by simp
  qed
  then obtain i where "i < length (sv_mail s)" "mail_count t (sv_mail s ! i) \<noteq> 0"
    by (auto simp: in_set_conv_nth)
  with wf(1,2) that [of i] show thesis by fastforce
qed

text \<open>The worker a stream waits for: the one whose queue it wants to use, or the one that has its request;
  and the actions that bring the stream on: its own, those of its client, those of that worker.\<close>

definition waits_for :: "'g server \<Rightarrow> nat \<Rightarrow> nat list" where
  "waits_for s t =
     (case t_pc (sv_tasks s ! t) of
        Sending i _ \<Rightarrow> [i]
      | Awaiting _ \<Rightarrow> filter (\<lambda>i. mail_count t (sv_mail s ! i) \<noteq> 0) [0..<length (sv_workers s)]
      | _ \<Rightarrow> [])"

definition stream_actions :: "'g server \<Rightarrow> nat \<Rightarrow> action list" where
  "stream_actions s t =
     [Iterate 0 t, Send t, Forward 0 t, Report 0 t, ClientTake t] @
     concat (map (\<lambda>i. [Take i, Serve i]) (waits_for s t))"

lemma stream_moves:
  assumes "server_wf s" and "t < length (sv_tasks s)" and "is_live (t_pc (sv_tasks s ! t))"
    and "sv_workers s \<noteq> []" and "0 < unat (stream_buffer_size (sv_config s))"
    and quiet: "\<And>i. \<not> never_answers poll_id s i"
  shows "\<exists>a \<in> set (stream_actions s t). server_act channel poll_id a s \<noteq> None"
proof -
  let ?tk = "sv_tasks s ! t" and ?as = "set (stream_actions s t)"
  have own: "Iterate 0 t \<in> ?as" "Send t \<in> ?as" "Forward 0 t \<in> ?as" "Report 0 t \<in> ?as" "ClientTake t \<in> ?as"
    by (simp_all add: stream_actions_def)
  have mail: ?thesis
    if i: "i < length (sv_workers s)" "sv_workers s ! i \<noteq> None" "sv_mail s ! i \<noteq> no_mail"
      and w: "i \<in> set (waits_for s t)" for i
  proof -
    have "Take i \<in> ?as" "Serve i \<in> ?as" using w by (auto simp: stream_actions_def)
    moreover have "server_act channel poll_id (Take i) s \<noteq> None \<or>
        server_act channel poll_id (Serve i) s \<noteq> None"
      using mailbox_moves [OF i quiet] by simp
    ultimately show ?thesis by blast
  qed
  have client: "server_act channel poll_id (ClientTake t) s \<noteq> None"
    if "\<not> t_gone ?tk" "t_buf ?tk \<noteq> []"
    using that assms(2) by (auto simp: act_client_take_def Let_def split: list.split)
  have full: "t_buf ?tk \<noteq> []" if "\<not> length (t_buf ?tk) < unat (stream_buffer_size (sv_config s))"
    using that assms(5) by auto
  show ?thesis
  proof (cases "t_pc ?tk")
    case Looping
    then have "server_act channel poll_id (Iterate 0 t) s \<noteq> None"
      using assms(2) by (auto simp: act_iterate_def Let_def split: prod.split sum.split)
    with own show ?thesis by blast
  next
    case (Sending i k)
    note i = server_wf_waiting(1) [OF assms(1,2) Sending]
    show ?thesis
    proof (cases "sv_workers s ! i = None \<or> mb_queue (sv_mail s ! i) = None")
      case True
      then have "server_act channel poll_id (Send t) s \<noteq> None"
        using assms(2) Sending by (auto simp: act_send_def Let_def split: option.split)
      with own show ?thesis by blast
    next
      case False
      then show ?thesis
        using i Sending by (intro mail [of i]) (auto simp: no_mail_def waits_for_def)
    qed
  next
    case (Awaiting k)
    obtain i where i: "i < length (sv_workers s)" "sv_workers s ! i \<noteq> None" "sv_mail s ! i \<noteq> no_mail"
      "mail_count t (sv_mail s ! i) \<noteq> 0"
      by (rule awaited_mailbox [OF assms(1,2) Awaiting])
    show ?thesis by (rule mail [OF i(1-3)]) (use i(1,4) Awaiting in \<open>simp add: waits_for_def\<close>)
  next
    case (Receiving msgs)
    have "server_act channel poll_id (Forward 0 t) s \<noteq> None \<or>
        server_act channel poll_id (ClientTake t) s \<noteq> None"
      using assms(2) Receiving client full
      by (cases msgs) (auto simp: act_forward_def Let_def)
    with own show ?thesis by blast
  next
    case (Reporting e)
    have "server_act channel poll_id (Report 0 t) s \<noteq> None \<or>
        server_act channel poll_id (ClientTake t) s \<noteq> None"
      using assms(2) Reporting client full by (auto simp: act_report_def Let_def)
    with own show ?thesis by blast
  next
    case Panicked
    with server_wf_task [OF assms(1,2)] assms(4) show ?thesis by (simp add: task_ok_def)
  qed (use assms(3) in simp)
qed

lemma shutdown_moves:
  assumes "server_wf s" and "phase_ok s" and quiet: "\<And>i. \<not> never_answers poll_id s i"
    and rest: "\<And>a. (\<And>k. a \<noteq> Request k) \<Longrightarrow> server_act channel poll_id a s = None"
  shows "sv_phase s = Stopped" and "\<forall>i < length (sv_workers s). sv_workers s ! i = None"
proof -
  have mail: "sv_mail s ! i = no_mail"
    if "i < length (sv_workers s)" "sv_workers s ! i \<noteq> None" for i
    using mailbox_moves [OF that _ quiet] rest [of "Take i"] rest [of "Serve i"] by auto
  show "sv_phase s = Stopped"
  proof (cases "sv_phase s")
    case Serving
    with rest [of Signal] show ?thesis by (simp add: act_signal_def)
  next
    case NotServing
    with rest [of Refuse] show ?thesis by (simp add: act_refuse_def)
  next
    case Draining
    with rest [of Cancel] show ?thesis by (simp add: act_cancel_def)
  next
    case (Stopping i)
    with rest [of StopNext] mail [of i] show ?thesis
      by (auto simp: act_stop_next_def Let_def no_mail_def split: if_splits option.splits)
  qed simp
  then have "sv_workers s ! i = None \<or> has_stop (sv_mail s ! i)" if "i < length (sv_workers s)" for i
    using assms(2) that by (simp add: phase_ok_def asked_to_stop_def)
  moreover have "\<not> has_stop no_mail" by (simp add: has_stop_def no_mail_def)
  ultimately show "\<forall>i < length (sv_workers s). sv_workers s ! i = None" using mail by metis
qed

end
