(* ===== verification/Server_Properties.thy ===== *)
theory Server_Properties
  imports Server_Schedules Server_Progress
begin

text \<open>
  The properties of the running server, for every schedule of the machine of theory
  \<open>Server_Machine\<close>: that no identifier is delivered twice, that streams that succeed are
  complete, the counters and metrics, progress and the end of a shutdown, the agreement with the
  sequential model; and the one way in which a shutdown can cut a stream short unnoticed.
\<close>

subsection \<open>A server for the witnesses\<close>

definition demo_channel :: "usize \<Rightarrow> unit res" where
  "demo_channel n =
     (if n = 0 then Inl (Panic ''mpsc bounded channel requires buffer > 0'') else Inr ())"

lemma new_workers_length: "new_workers b c clock js = Inr ws \<Longrightarrow> length ws = length js"
  by (induction js arbitrary: ws) (auto simp: map_ok_eq_Inr_iff)

lemma new_service_length:
  "service_new b c clock mt = Inr svc \<Longrightarrow> length (workers (s_pool svc)) = unat (num_workers c)"
  by (auto simp: service_new_def map_ok_eq_Inr_iff pool_new_def dest: new_workers_length)

lemma demo_request:
  obtains svc xss svc' where "service_new Debug demo_config (1 :: u64) mt = Inr svc"
    "s_config svc = demo_config"
    "stream_ids 0 (basic_snow_poll_id demo_clock Debug SnowflakeId)
       (\<lambda>n. map_ok (\<lambda>_. []) (demo_channel n)) deliver 3 svc =
      Some (Inr (Inr (Inr (Inr ()), map (\<lambda>xs. Inr (pack_ids xs)) xss)), svc')"
    "length (concat xss) = 3" "s_inflight svc = 0" "s_metrics svc = mt"
    "\<not> s_shutdown svc"
proof -
  let ?poll = "basic_snow_poll_id demo_clock Debug SnowflakeId"
  obtain svc xss svc' where svc: "service_new Debug demo_config (1 :: u64) mt = Inr svc"
      "s_config svc = demo_config" "\<not> s_shutdown svc" "s_inflight svc = 0"
      "stream_ids 0 ?poll (\<lambda>_. Inr []) deliver 3 svc =
        Some (Inr (Inr (Inr (Inr ()), map (\<lambda>xs. Inr (pack_ids xs)) xss)), svc')"
      "length (concat xss) = 3"
    by (rule demo_stream)
  have "stream_ids 0 ?poll (\<lambda>n. map_ok (\<lambda>_. []) (demo_channel n)) deliver 3 svc =
      stream_ids 0 ?poll (\<lambda>_. Inr []) deliver 3 svc"
    using svc(2) by (simp add: stream_ids_def stream_accept_def Let_def demo_config_def demo_channel_def)
  moreover have "s_metrics svc = mt"
    using svc(1) by (auto simp: service_new_def map_ok_eq_Inr_iff)
  ultimately show thesis using that [OF svc(1,2)] svc(3-6) by simp
qed

lemma demo_schedule:
  obtains svc s tk where "service_new Debug demo_config (1 :: u64) mt = Inr svc"
    "server_reach demo_channel (basic_snow_poll_id demo_clock Debug SnowflakeId) (server_start svc) s"
    "sv_tasks s = [tk]" "t_pc tk = Returned (Inr ())" "length (concat (map msg_ids (t_taken tk))) = 3"
    "s_inflight svc = 0" "s_metrics svc = mt" "\<not> s_shutdown svc"
proof -
  let ?poll = "basic_snow_poll_id demo_clock Debug SnowflakeId"
  obtain svc xss svc' where svc: "service_new Debug demo_config (1 :: u64) mt = Inr svc"
      "s_config svc = demo_config"
      "stream_ids 0 ?poll (\<lambda>n. map_ok (\<lambda>_. []) (demo_channel n)) deliver 3 svc =
        Some (Inr (Inr (Inr (Inr ()), map (\<lambda>xs. Inr (pack_ids xs)) xss)), svc')"
      "length (concat xss) = 3" "s_inflight svc = 0" "s_metrics svc = mt" "\<not> s_shutdown svc"
    by (rule demo_request)
  let ?s = "server_start svc"
  have start: "sv_mail ?s = replicate (length (sv_workers ?s)) no_mail" "sv_tasks ?s = []"
      "0 < unat (ids_per_chunk (sv_config ?s))" "\<not> is_ok (demo_channel 0)" "sv_service ?s = svc"
    by (simp_all add: server_start_def svc(2) demo_config_def demo_channel_def)
  from stream_schedule [where s = ?s and channel = demo_channel, OF start(1,3,4), unfolded start(5),
      OF svc(3)]
  obtain as s' tk where
    s': "server_run demo_channel ?poll (Request 3 # as) ?s = Some s'" "sv_tasks s' = [tk]"
      "t_taken tk = map (\<lambda>xs. Inr (pack_ids xs)) xss" "t_pc tk = Returned (Inr ())"
    by (auto simp: start(2) simp del: server_run.simps)
  have "map msg_ids (t_taken tk) = xss" by (simp add: s'(3) msg_ids_def unpack_pack comp_def)
  then show thesis
    using that [OF svc(1) server_run_reach [OF s'(1) server_reach.start] s'(2,4)] svc(4-7) by simp
qed

text \<open>The number of identifiers in a message, as its bytes and as the hook of the stream counts them.\<close>

lemma sum_lengths: "(\<Sum>m\<leftarrow>ms. int (length (f m))) = int (length (concat (map f ms)))"
  by (induction ms) simp_all

lemma length_unpack: "length (unpack w dec n bs) = n"
  by (induction n arbitrary: bs) simp_all

lemma length_unpack_ids: "length (unpack_ids m) = length m div 8"
  by (simp add: unpack_ids_def length_unpack)

lemma counted_ids_msg:
  assumes "\<And>b. m = Inr b \<Longrightarrow> chunk_msg (unat (c :: usize)) b"
  shows "counted_ids m = int (length (msg_ids m))"
proof (cases m)
  case (Inr b)
  then have "chunk_msg (unat c) b" using assms by simp
  then have "length b div 8 \<le> unat c" by (auto simp: chunk_msg_def)
  then have "length b div 8 < 2 ^ 64" using unsigned_less [of c, where 'a = nat] by simp
  then show ?thesis
    by (simp add: Inr counted_ids_def msg_ids_def length_unpack_ids SNOWFLAKE_ID_SIZE_def uint_nat
        unat_of_nat)
qed (simp add: counted_ids_def msg_ids_def)

lemma taken_count_ids:
  assumes "\<And>tk. tk \<in> set ts \<Longrightarrow> msgs_ok (unat (c :: usize)) tk"
  shows "taken_count ts = int (length (concat (map (\<lambda>tk. concat (map msg_ids (t_taken tk))) ts)))"
  using assms
proof (induction ts)
  case (Cons tk ts)
  have "counted_ids m = int (length (msg_ids m))" if "m \<in> set (t_taken tk)" for m
    using that Cons.prems [of tk] by (intro counted_ids_msg [where c = c]) (auto simp: msgs_ok_def)
  then have "(\<Sum>m\<leftarrow>t_taken tk. counted_ids m) = (\<Sum>m\<leftarrow>t_taken tk. int (length (msg_ids m)))"
    by (intro arg_cong [where f = sum_list] map_cong) simp_all
  also have "\<dots> = int (length (concat (map msg_ids (t_taken tk))))"
    by (rule sum_lengths)
  finally show ?case using Cons by (simp add: taken_count_def)
qed (simp add: taken_count_def)

subsection \<open>Properties\<close>

text \<open>C8: no identifier twice, under every schedule. Whatever the clients ask for, in whatever order the
  streams, the workers, the clients and a shutdown take their steps, and even when workers panic: in
  every state the server can reach, the identifiers that the clients of all streams have taken and
  those still in the channels are pairwise distinct, and no live worker will ever hand out one of
  them again.\<close>

theorem server_ids_unique:
  assumes "config_try_from args = Inr c" and "0 < unat (ids_per_chunk c)"
    and "unat (shard_offset c) + unat (num_workers c) \<le> 1024"
    and "b = Debug \<or> always_below cm (2 ^ 41) clock" and "service_new b c clock mt = Inr svc"
    and "server_reach channel (basic_snow_poll_id cm b SnowflakeId) (server_start svc) s"
  shows "distinct (concat (map task_ids (sv_tasks s))) \<and>
    (\<forall>x \<in> set (concat (map task_ids (sv_tasks s))).
      \<not> pool_fresh (shard_offset c) (s_pool (sv_service s)) x)"
proof -
  let ?ids = "concat (map task_ids (sv_tasks s))"
  have ids: "ids_ok (\<lambda>i w. worker_fresh (shard_offset c + word_of_nat i) (Some w)) (sv_workers s) (sv_tasks s)"
    using server_delivery(1) [OF assms] by (simp add: delivery_ok_def)
  have count: "count_list ?ids x = id_count (sv_tasks s) x" for x
    by (simp add: id_count_def count_list_concat)
  have "distinct ?ids"
    using ids by (intro distinct_if_counts) (simp add: count ids_ok_def)
  moreover have "\<not> pool_fresh (shard_offset c) (s_pool (sv_service s)) x" if "x \<in> set ?ids" for x
  proof -
    have "0 < id_count (sv_tasks s) x"
      using that count_list_0_iff [of ?ids x] by (simp add: count [symmetric])
    with ids show ?thesis
      by (auto simp: ids_ok_def pool_fresh_def worker_fresh_def split: option.splits)
  qed
  ultimately show ?thesis by blast
qed

theorem server_ids_unique_witness:
  "\<exists>svc s tk. service_new Debug demo_config (1 :: u64) no_metrics = Inr svc \<and> sv_tasks s = [tk] \<and>
    server_reach demo_channel (basic_snow_poll_id demo_clock Debug SnowflakeId) (server_start svc) s \<and>
    length (concat (map msg_ids (t_taken tk))) = 3 \<and> distinct (concat (map task_ids [tk]))"
proof -
  obtain svc s tk where d: "service_new Debug demo_config (1 :: u64) no_metrics = Inr svc"
      "server_reach demo_channel (basic_snow_poll_id demo_clock Debug SnowflakeId) (server_start svc) s"
      "sv_tasks s = [tk]" "length (concat (map msg_ids (t_taken tk))) = 3"
    by (rule demo_schedule)
  have "0 < unat (ids_per_chunk demo_config)"
      "unat (shard_offset demo_config) + unat (num_workers demo_config) \<le> 1024"
    by (simp_all add: demo_config_def)
  from server_ids_unique [OF demo_config this _ d(1,2)] d show ?thesis by simp blast
qed

text \<open>C9: a stream that ends without error is complete. As long as no worker has ended, a stream
  whose task has returned success to a client that is still there has sent exactly the number of
  identifiers the client asked for; in every state, under every schedule, a stream has never
  sent more than that, and every message holds at least one and at most \<open>ids_per_chunk\<close>
  identifiers.\<close>

theorem server_streams_complete:
  assumes "config_try_from args = Inr c" and "0 < unat (ids_per_chunk c)"
    and "unat (shard_offset c) + unat (num_workers c) \<le> 1024"
    and "b = Debug \<or> always_below cm (2 ^ 41) clock" and "service_new b c clock mt = Inr svc"
    and "server_reach channel (basic_snow_poll_id cm b SnowflakeId) (server_start svc) s"
    and "tk \<in> set (sv_tasks s)"
  shows "length (concat (map msg_ids (t_taken tk @ t_buf tk))) \<le> t_total tk \<and>
    (all_alive (sv_workers s) \<and> t_pc tk = Returned (Inr ()) \<and> \<not> t_gone tk \<longrightarrow>
      length (concat (map msg_ids (t_taken tk @ t_buf tk))) = t_total tk) \<and>
    (\<forall>m. Inr m \<in> set (t_taken tk @ t_buf tk) \<longrightarrow>
      (\<exists>k. 0 < k \<and> k \<le> unat (ids_per_chunk c) \<and> length m = 8 * k))"
proof -
  have fine: "task_fine (unat (ids_per_chunk c)) (all_alive (sv_workers s)) tk"
    using server_delivery(1) [OF assms(1-6)] assms(7) by (simp add: delivery_ok_def)
  have "\<exists>k. 0 < k \<and> k \<le> unat (ids_per_chunk c) \<and> length m = 8 * k"
    if "Inr m \<in> set (t_taken tk @ t_buf tk)" for m
  proof -
    have "chunk_msg (unat (ids_per_chunk c)) m" using that fine by (auto simp: task_defs)
    moreover then obtain k where "length m = 8 * k" by (auto simp: chunk_msg_def)
    ultimately show ?thesis by (intro exI [of _ k]) (auto simp: chunk_msg_def)
  qed
  with fine show ?thesis by (auto simp: task_defs)
qed

theorem server_streams_complete_witness:
  "\<exists>svc s tk. service_new Debug demo_config (1 :: u64) no_metrics = Inr svc \<and> sv_tasks s = [tk] \<and>
    server_reach demo_channel (basic_snow_poll_id demo_clock Debug SnowflakeId) (server_start svc) s \<and>
    length (concat (map msg_ids (t_taken tk))) = 3 \<and> 3 \<le> t_total tk"
proof -
  obtain svc s tk where d: "service_new Debug demo_config (1 :: u64) no_metrics = Inr svc"
      "server_reach demo_channel (basic_snow_poll_id demo_clock Debug SnowflakeId) (server_start svc) s"
      "sv_tasks s = [tk]" "length (concat (map msg_ids (t_taken tk))) = 3"
    by (rule demo_schedule)
  have "0 < unat (ids_per_chunk demo_config)"
      "unat (shard_offset demo_config) + unat (num_workers demo_config) \<le> 1024"
    by (simp_all add: demo_config_def)
  from server_streams_complete [OF demo_config this _ d(1,2), of tk] d
  have "3 \<le> t_total tk" by simp
  with d show ?thesis by blast
qed

text \<open>C24: the sequential model of a request is one of the machine's schedules. From any state in which
  no worker has anything to do, whatever \<open>stream_ids\<close> gives when its task runs to the end on its
  own (a refusal, a panic, success or an error, with the messages in their order), the machine
  reaches by a schedule that starts with the request: the same messages taken by the client, the
  same outcome, the same pool, counter and flags.\<close>

theorem stream_ids_is_a_schedule:
  fixes s :: "'g server"
  assumes "sv_mail s = replicate (length (sv_workers s)) no_mail"
    and "0 < unat (ids_per_chunk (sv_config s))" and "\<not> is_ok (channel 0)"
    and "stream_ids elapsed poll_id (\<lambda>n. map_ok (\<lambda>_. []) (channel n)) deliver count (sv_service s) =
      Some (r, svc')"
  shows "\<exists>as s'. server_run channel poll_id (Request count # as) s = Some s' \<and>
    s_pool (sv_service s') = s_pool svc' \<and> s_config (sv_service s') = s_config svc' \<and>
    s_shutdown (sv_service s') = s_shutdown svc' \<and> s_inflight (sv_service s') = s_inflight svc' \<and>
    sv_mail s' = sv_mail s \<and>
    (case r of
       Inl _ \<Rightarrow> sv_tasks s' = sv_tasks s \<and> sv_leaked s' = sv_leaked s + 1
     | Inr (Inl _) \<Rightarrow> sv_tasks s' = sv_tasks s
     | Inr (Inr (out, msgs)) \<Rightarrow> (\<exists>tk. sv_tasks s' = sv_tasks s @ [tk] \<and> t_taken tk = msgs \<and> t_buf tk = [] \<and>
         t_pc tk = (case out of Inl _ \<Rightarrow> Panicked | Inr outcome \<Rightarrow> Returned outcome)))"
  using assms by (rule stream_schedule)

theorem stream_ids_is_a_schedule_witness:
  "\<exists>svc as s' tk. service_new Debug demo_config (1 :: u64) no_metrics = Inr svc \<and>
    server_run demo_channel (basic_snow_poll_id demo_clock Debug SnowflakeId) (Request 3 # as)
      (server_start svc) = Some s' \<and> sv_tasks s' = [tk] \<and> t_pc tk = Returned (Inr ())"
proof -
  let ?poll = "basic_snow_poll_id demo_clock Debug SnowflakeId"
  obtain svc msgs svc' where d: "service_new Debug demo_config (1 :: u64) no_metrics = Inr svc"
      "s_config svc = demo_config"
      "stream_ids 0 ?poll (\<lambda>n. map_ok (\<lambda>_. []) (demo_channel n)) deliver 3 svc =
        Some (Inr (Inr (Inr (Inr ()), msgs)), svc')"
    by (rule demo_request)
  have start: "sv_mail (server_start svc) = replicate (length (sv_workers (server_start svc))) no_mail"
      "0 < unat (ids_per_chunk (sv_config (server_start svc)))" "\<not> is_ok (demo_channel 0)"
      "sv_service (server_start svc) = svc" "sv_tasks (server_start svc) = []"
    by (simp_all add: server_start_def d(2) demo_config_def demo_channel_def)
  from stream_ids_is_a_schedule [where s = "server_start svc" and channel = demo_channel, OF start(1-3),
      unfolded start(4), OF d(3)] d(1)
  show ?thesis by (auto simp: start(5) simp del: server_run.simps)
qed

text \<open>C26: the shape of every state the server can reach, whatever the generators and the clients do. A
  stream that waits for an answer has exactly one request, in the queue or in the hands of one
  worker, which is alive; every request belongs to a stream that waits for it and asks for as
  many identifiers as the stream expects; a worker that has ended has no mail; a request goes to
  a worker that exists and is not larger than a chunk.\<close>

theorem server_always_wf:
  assumes "server_reach channel poll_id (server_start svc) s"
  shows "server_wf s"
  using assms by (rule server_reach_wf)

theorem server_always_wf_witness:
  "\<exists>svc s tk. server_reach demo_channel (basic_snow_poll_id demo_clock Debug SnowflakeId) (server_start svc) s \<and>
    sv_tasks s = [tk] \<and> t_pc tk = Returned (Inr ()) \<and> server_wf s"
proof -
  obtain svc s tk where d:
      "server_reach demo_channel (basic_snow_poll_id demo_clock Debug SnowflakeId) (server_start svc) s"
      "sv_tasks s = [tk]" "t_pc tk = Returned (Inr ())"
    by (rule demo_schedule)
  with server_always_wf [OF d(1)] show ?thesis by blast
qed

text \<open>C25: the counters, under every schedule. The counter of streams in flight is the number of
  streams whose task has not returned, plus one for every request whose response channel could not
  be created: those are never counted down, so that a shutdown waits its whole grace period. With
  metrics on, the metric of streams in flight shows the same number, the request counter shows the
  accepted requests, and the counter of identifiers those the clients have taken.\<close>

theorem server_counters:
  assumes "config_try_from args = Inr c" and "0 < unat (ids_per_chunk c)"
    and "unat (shard_offset c) + unat (num_workers c) \<le> 1024"
    and "b = Debug \<or> always_below cm (2 ^ 41) clock"
    and "service_new b c clock (init_metric_handles no_metrics) = Inr svc"
    and "server_reach channel (basic_snow_poll_id cm b SnowflakeId) (server_start svc) s"
  shows "s_inflight (sv_service s) = word_of_nat (live_count (sv_tasks s) + sv_leaked s) \<and>
    metric_total STREAMS_INFLIGHT_METRIC (s_metrics (sv_service s)) =
      int (live_count (sv_tasks s) + sv_leaked s) \<and>
    metric_total REQUESTS_METRIC (s_metrics (sv_service s)) = int (length (sv_tasks s) + sv_leaked s) \<and>
    metric_total IDS_GENERATED_METRIC (s_metrics (sv_service s)) =
      int (length (concat (map (\<lambda>tk. concat (map msg_ids (t_taken tk))) (sv_tasks s))))"
proof -
  have svc: "s_inflight svc = 0" "s_metrics svc = init_metric_handles no_metrics"
    using assms(5) by (auto simp: service_new_def map_ok_eq_Inr_iff)
  then have ok: "counters_ok s" "\<forall>k. m_set (s_metrics (sv_service s)) k"
    using server_reach_counters [OF assms(6)] by (simp_all add: init_metric_handles_def no_metrics_def)
  have "msgs_ok (unat (ids_per_chunk c)) tk" if "tk \<in> set (sv_tasks s)" for tk
    using server_delivery(1) [OF assms] that by (simp add: delivery_ok_def task_fine_def)
  from taken_count_ids [OF this] ok show ?thesis by (simp add: counters_ok_def)
qed

theorem server_counters_witness:
  "\<exists>svc s tk. service_new Debug demo_config (1 :: u64) (init_metric_handles no_metrics) = Inr svc \<and>
    server_reach demo_channel (basic_snow_poll_id demo_clock Debug SnowflakeId) (server_start svc) s \<and>
    sv_tasks s = [tk] \<and> t_pc tk = Returned (Inr ()) \<and>
    metric_total IDS_GENERATED_METRIC (s_metrics (sv_service s)) = 3 \<and>
    s_inflight (sv_service s) = word_of_nat (sv_leaked s)"
proof -
  obtain svc s tk where d:
      "service_new Debug demo_config (1 :: u64) (init_metric_handles no_metrics) = Inr svc"
      "server_reach demo_channel (basic_snow_poll_id demo_clock Debug SnowflakeId) (server_start svc) s"
      "sv_tasks s = [tk]" "t_pc tk = Returned (Inr ())" "length (concat (map msg_ids (t_taken tk))) = 3"
    by (rule demo_schedule)
  have "0 < unat (ids_per_chunk demo_config)"
      "unat (shard_offset demo_config) + unat (num_workers demo_config) \<le> 1024"
    by (simp_all add: demo_config_def)
  from server_counters [OF demo_config this _ d(1,2)] d show ?thesis
    by (intro exI [of _ svc] exI [of _ s] exI [of _ tk]) (simp add: live_count_def)
qed

text \<open>C23: without new requests the server comes to rest. From every state it can reach, every schedule
  without a new request has at most \<open>server_rank\<close> many steps, a bound that can be computed from
  the state: ten steps for every identifier still to be sent and a few for every stream, message,
  request and worker. No schedule goes on for ever.\<close>

theorem server_steps_bounded:
  assumes "config_try_from args = Inr c" and "0 < unat (ids_per_chunk c)"
    and "unat (shard_offset c) + unat (num_workers c) \<le> 1024"
    and "b = Debug \<or> always_below cm (2 ^ 41) clock" and "service_new b c clock mt = Inr svc"
    and "server_reach channel (basic_snow_poll_id cm b SnowflakeId) (server_start svc) s"
    and "server_run channel (basic_snow_poll_id cm b SnowflakeId) as s = Some s'"
    and "\<forall>a \<in> set as. \<forall>n. a \<noteq> Request n"
  shows "length as + server_rank s' \<le> server_rank s"
proof -
  obtain j where j: "unat (ids_per_chunk c) = Suc j" using assms(2) by (cases "unat (ids_per_chunk c)") auto
  from snow_workers.rank_run [OF server_delivery(2) [OF assms(1-6)]
      server_delivery(1) [OF assms(1-6), unfolded j] assms(7,8)]
  show ?thesis .
qed

theorem server_steps_bounded_witness:
  "\<exists>svc s s'. service_new Debug demo_config (1 :: u64) no_metrics = Inr svc \<and>
    server_reach demo_channel (basic_snow_poll_id demo_clock Debug SnowflakeId) (server_start svc) s \<and>
    server_run demo_channel (basic_snow_poll_id demo_clock Debug SnowflakeId) [Signal, Refuse] (server_start svc) =
      Some s' \<and> 2 + server_rank s' \<le> server_rank (server_start svc)"
proof -
  let ?poll = "basic_snow_poll_id demo_clock Debug SnowflakeId"
  obtain svc s where d: "service_new Debug demo_config (1 :: u64) no_metrics = Inr svc"
      "server_reach demo_channel ?poll (server_start svc) s"
    by (rule demo_schedule)
  have "0 < unat (ids_per_chunk demo_config)"
      "unat (shard_offset demo_config) + unat (num_workers demo_config) \<le> 1024"
    by (simp_all add: demo_config_def)
  note bound = server_steps_bounded [OF demo_config this _ d(1) server_reach.start]
  obtain s' where "server_run demo_channel ?poll [Signal, Refuse] (server_start svc) = Some s'"
    by (simp add: act_signal_def act_refuse_def server_start_def)
  with bound [of demo_clock demo_channel "[Signal, Refuse]" s'] d show ?thesis by auto
qed

text \<open>C22: the server never gets stuck half-way. In every state it can reach, a stream that has not
  returned can be brought on by an action of its own, of its client or of the worker it waits for; and a state
  in which nothing but a new request is possible is one in which the shutdown is over, every worker
  has ended and every stream has returned. The only exception is a worker whose generator stays
  pending for ever.\<close>

theorem server_comes_to_rest:
  assumes "server_reach channel poll_id (server_start svc) s" and "\<not> s_shutdown svc"
    and "\<not> cancelled (s_pool svc)" and "workers (s_pool svc) \<noteq> []"
    and "0 < unat (stream_buffer_size (s_config svc))"
    and "\<forall>i. \<not> never_answers poll_id s i"
  shows "(\<forall>t < length (sv_tasks s). is_live (t_pc (sv_tasks s ! t)) \<longrightarrow>
      (\<exists>a \<in> set (stream_actions s t). server_act channel poll_id a s \<noteq> None)) \<and>
    ((\<forall>a. (\<forall>n. a \<noteq> Request n) \<longrightarrow> server_act channel poll_id a s = None) \<longrightarrow>
      sv_phase s = Stopped \<and> (\<forall>i < length (sv_workers s). sv_workers s ! i = None) \<and>
      (\<forall>tk \<in> set (sv_tasks s). \<not> is_live (t_pc tk)))"
proof -
  have wf: "server_wf s" by (rule server_reach_wf [OF assms(1)])
  have keeps: "length (sv_workers s) = length (workers (s_pool svc)) \<and> sv_config s = s_config svc"
    by (rule server_reach_config [OF assms(1)])
  have moves: "\<exists>a \<in> set (stream_actions s t). server_act channel poll_id a s \<noteq> None"
    if "t < length (sv_tasks s)" "is_live (t_pc (sv_tasks s ! t))" for t
  proof (rule stream_moves [OF wf that])
    show "sv_workers s \<noteq> []" using keeps assms(4) by auto
    show "0 < unat (stream_buffer_size (sv_config s))" using keeps assms(5) by simp
  qed (use assms(6) in blast)
  have rest: "sv_phase s = Stopped \<and> (\<forall>i < length (sv_workers s). sv_workers s ! i = None) \<and>
      (\<forall>tk \<in> set (sv_tasks s). \<not> is_live (t_pc tk))"
    if none: "\<forall>a. (\<forall>n. a \<noteq> Request n) \<longrightarrow> server_act channel poll_id a s = None"
  proof -
    have "server_act channel poll_id a s = None" if "a \<in> set (stream_actions s t)" for a t
      using none that by (auto simp: stream_actions_def)
    then have "\<forall>tk \<in> set (sv_tasks s). \<not> is_live (t_pc tk)" using moves by (metis in_set_conv_nth)
    with shutdown_moves [OF wf server_reach_phase [OF assms(1-3)], of poll_id channel] none assms(6)
    show ?thesis by blast
  qed
  show ?thesis using moves rest by blast
qed

theorem server_comes_to_rest_witness:
  "\<exists>svc s a s'. service_new Debug demo_config (1 :: u64) no_metrics = Inr svc \<and>
    server_run demo_channel (basic_snow_poll_id demo_clock Debug SnowflakeId) [Request 3] (server_start svc) =
      Some s \<and> a \<in> set (stream_actions s 0) \<and>
    server_act demo_channel (basic_snow_poll_id demo_clock Debug SnowflakeId) a s = Some s'"
proof -
  let ?poll = "basic_snow_poll_id demo_clock Debug SnowflakeId"
  obtain svc where d: "service_new Debug demo_config (1 :: u64) no_metrics = Inr svc"
      "s_config svc = demo_config" "\<not> s_shutdown svc"
      "pool_stocked demo_clock Debug (unat (chunk_bytes demo_config)) (shard_offset demo_config) 3 (s_pool svc)"
    by (rule demo_service)
  have p: "\<not> cancelled (s_pool svc)" "workers (s_pool svc) \<noteq> []"
    using d(4) by (auto simp: pool_stocked_def)
  have n: "length (workers (s_pool svc)) = 2"
    using new_service_length [OF d(1)] by (simp add: demo_config_def)
  have cfg: "0 < unat (stream_buffer_size (s_config svc))" by (simp add: d(2) demo_config_def)
  obtain s where s: "server_run demo_channel ?poll [Request 3] (server_start svc) = Some s"
      "sv_tasks s = [new_task 3]" "sv_mail s = replicate 2 no_mail" "length (sv_workers s) = 2"
    using d(2,3) n by (auto simp: server_start_def act_request_def stream_accept_def demo_channel_def
        demo_config_def Let_def)
  have "\<not> never_answers ?poll s i" for i
    using s(3,4) by (auto simp: never_answers_def no_mail_def split: option.splits)
  with server_comes_to_rest [OF server_run_reach [OF s(1) server_reach.start] d(3) p cfg] s(2,4)
  have "\<exists>a \<in> set (stream_actions s 0). server_act demo_channel ?poll a s \<noteq> None" by simp
  with d(1) s(1) show ?thesis by (simp del: server_run.simps) blast
qed

text \<open>C27: how a shutdown can cut a stream short unnoticed. A stream has passed the test for the
  shutdown token and chosen its worker; then the shutdown cancels the work and its request
  reaches that worker first; the stream's request gets into the queue after the worker has
  taken the shutdown request out of it. The worker ends and drops its queue; the stream sees the
  end of its chunk, has nothing left to ask for and reports success: the client, still
  connected, gets the end of the stream and not a single identifier, and no error.\<close>

theorem shutdown_loses_chunk:
  assumes "\<not> s_shutdown svc" and "\<not> cancelled (s_pool svc)" and "next_worker (s_pool svc) = 0"
    and "workers (s_pool svc) = Some w # ws" and "0 < unat count"
    and "unat count \<le> unat (ids_per_chunk (s_config svc))"
    and "unat count \<le> unat (max_allowed_ids (s_config svc))"
    and "channel (stream_buffer_size (s_config svc)) = Inr ()"
  shows "\<exists>s' tk. server_run channel poll_id
      [Request count, Iterate 0 0, Signal, Refuse, Cancel, StopNext, Take 0, Send 0, Serve 0,
       Forward 0 0, Iterate 0 0] (server_start svc) = Some s' \<and>
    sv_tasks s' = [tk] \<and> t_total tk = unat count \<and> t_pc tk = Returned (Inr ()) \<and> \<not> t_gone tk \<and>
    t_taken tk = [] \<and> t_buf tk = []"
proof -
  obtain m where acc: "stream_accept count svc =
      (Inr (unat count), svc\<lparr>s_inflight := s_inflight svc + 1, s_metrics := m\<rparr>)"
    using stream_acceptI [of svc count] assms(1,5,7) by blast
  have k: "min (unat count) (unat (ids_per_chunk (s_config svc))) = unat count" using assms(6) by simp
  show ?thesis
    using assms(2-5,8)
    by (simp add: act_request_def act_iterate_def act_signal_def act_refuse_def act_cancel_def
        act_stop_next_def act_take_def act_send_def act_serve_def act_forward_def acc k Let_def
        server_start_def new_task_def set_task_def set_mail_def set_pool_def set_worker_def
        close_chunk_def finish_def set_global_shutdown_def next_worker_index_def no_mail_def
        work_of_def worker_round_def)
qed

theorem shutdown_loses_chunk_witness:
  "\<exists>s' tk. server_run demo_channel (\<lambda>g :: unit. (Inr (Ready (Snowflake 7)), g))
      [Request 2, Iterate 0 0, Signal, Refuse, Cancel, StopNext, Take 0, Send 0, Serve 0,
       Forward 0 0, Iterate 0 0]
      (server_start \<lparr>s_config = demo_config, s_pool = pool_new [Some (worker_start 16 ())] 3,
         s_shutdown = False, s_inflight = 0, s_metrics = no_metrics\<rparr>) = Some s' \<and>
    sv_tasks s' = [tk] \<and> t_total tk = 2 \<and> t_pc tk = Returned (Inr ()) \<and> \<not> t_gone tk \<and>
    t_taken tk = [] \<and> t_buf tk = []"
  using shutdown_loses_chunk [of "\<lparr>s_config = demo_config, s_pool = pool_new [Some (worker_start 16 ())] 3,
      s_shutdown = False, s_inflight = 0, s_metrics = no_metrics\<rparr>" "worker_start 16 ()" "[]" 2 demo_channel
      "\<lambda>g. (Inr (Ready (Snowflake 7)), g)"]
  by (simp add: pool_new_def demo_config_def demo_channel_def del: server_run.simps)

end
