(* ===== verification/Service_Clock.thy ===== *)
theory Service_Clock
  imports Stream_Service
begin

text \<open>
  The service on a clock that goes. Delivery of a stream needs generators that can produce the
  identifiers asked for; here that is derived from what a clock does: its readings never go back,
  two successive ones are at most \<open>J\<close> apart, and they pass a bound in the end. The locale
  \<open>ticking_generator\<close> extends the contract of the theory \<open>Generator_Interface\<close> by the timestamp
  of a new identifier, and shows that a generator keeps up with such a clock; it is interpreted
  on the basic Snowflake generator of the server's workers.
\<close>

subsection \<open>Clocks that go\<close>

definition steady :: "('t \<Rightarrow> 'a::len word \<times> 't) \<Rightarrow> nat \<Rightarrow> 't \<Rightarrow> bool" where
  "steady cm J t \<longleftrightarrow> (\<forall>i. unat (reading cm t i) \<le> unat (reading cm t (Suc i)) \<and>
     unat (reading cm t (Suc i)) \<le> unat (reading cm t i) + J)"

definition passes :: "('t \<Rightarrow> 'a::len word \<times> 't) \<Rightarrow> nat \<Rightarrow> 't \<Rightarrow> bool" where
  "passes cm B t \<longleftrightarrow> (\<exists>i. B < unat (reading cm t i))"

lemma steady_next: "steady cm J t \<Longrightarrow> steady cm J (snd (cm t))"
  unfolding steady_def by (metis reading_Suc)

lemma passes_next: "steady cm J t \<Longrightarrow> passes cm B t \<Longrightarrow> passes cm B (snd (cm t))"
  unfolding passes_def steady_def by (metis reading_Suc less_le_trans)

lemma steady_now:
  assumes "steady cm J t"
  shows "unat (fst (cm t)) \<le> unat (fst (cm (snd (cm t))))"
    and "unat (fst (cm (snd (cm t)))) \<le> unat (fst (cm t)) + J"
  using assms [unfolded steady_def, rule_format, of 0] by (simp_all add: reading_Suc reading_0)

subsection \<open>Generators that keep up\<close>

locale ticking_generator = clocked_generator +
  assumes ready_tick: "inv g \<Longrightarrow> fst (poll_id g) = Inr (Ready x) \<Longrightarrow>
      inv (snd (poll_id g)) \<and> time (snd (poll_id g)) = snd (current_millis (time g)) \<and>
      tick x = fst (current_millis (time g))"
begin

text \<open>
  The last tick is not ahead of the clock, and neither the next reading nor a jump from the last
  tick exceeds the ceiling \<open>c\<close>. Waiting keeps the ceiling, an identifier raises it by one jump.
\<close>

definition on_time :: "nat \<Rightarrow> nat \<Rightarrow> nat \<Rightarrow> 'a \<Rightarrow> bool" where
  "on_time J B c g \<longleftrightarrow> inv g \<and> steady current_millis J (time g) \<and> passes current_millis B (time g) \<and>
     unat (tick (latest g)) \<le> unat (fst (current_millis (time g))) \<and>
     unat (fst (current_millis (time g))) \<le> c \<and> unat (tick (latest g)) + J \<le> c"

lemma on_time_pending:
  assumes "on_time J B c g" and "pending_step poll_id g h"
  shows "on_time J B c h"
proof -
  obtain d where d: "poll_id g = (Inr (Pending d), h)" using assms(2) by (auto simp: pending_step_def)
  with pending [of g d] assms(1) have p: "inv h" "latest h = latest g"
      "time h = snd (current_millis (time g))"
      "\<not> tick (latest g) < fst (current_millis (time g))"
    by (auto simp: on_time_def)
  moreover note steady_now [of current_millis J "time g"] steady_next [of current_millis J "time g"]
    passes_next [of current_millis J "time g" B]
  ultimately show ?thesis
    using assms(1) by (auto simp: on_time_def not_less word_le_nat_alt)
qed

lemma on_time_ready:
  assumes "on_time J B c g" and "poll_id g = (Inr (Ready x), h)"
  shows "on_time J B (c + J) h"
proof -
  from ready_tick [of g x] ready_later [of g x] assms have "inv h" "latest h = x"
      "time h = snd (current_millis (time g))" "tick x = fst (current_millis (time g))"
    by (auto simp: on_time_def)
  with assms(1) steady_now [of current_millis J "time g"] steady_next [of current_millis J "time g"]
    passes_next [of current_millis J "time g" B] show ?thesis
    by (auto simp: on_time_def)
qed

lemma on_time_next_loop:
  assumes "on_time J B c g" and "c \<le> B"
  obtains x h ws where "next_loop poll_id g [] = Some (Inr x, h, ws)" "on_time J B (c + J) h"
proof -
  obtain n where "B < unat (reading current_millis (time g) n)"
    using assms(1) by (auto simp: on_time_def passes_def)
  then have "tick (latest g) < reading current_millis (time g) n" and "inv g"
    using assms by (auto simp: on_time_def word_less_nat_alt)
  then obtain x h ws where x: "next_loop poll_id g [] = Some (Inr x, h, ws)"
    using next_loop_returns by metis
  then obtain k where k: "(pending_step poll_id)\<^sup>*\<^sup>* g k" "poll_id k = (map_ok Ready (Inr x), h)"
    by (rule next_loop_chain)
  from k(1) assms(1) have "on_time J B c k"
    by induction (auto intro: on_time_pending)
  with on_time_ready [of J B c k x h] k(2) x that show thesis by simp
qed

theorem collect_returns:
  "on_time J B c g \<Longrightarrow> c + J * n \<le> B \<Longrightarrow> collect poll_id n g \<noteq> None"
proof (induction n arbitrary: c g)
  case (Suc n)
  then have "c \<le> B" by simp
  with Suc.prems(1) obtain x h ws where
    "next_loop poll_id g [] = Some (Inr x, h, ws)" "on_time J B (c + J) h"
    by (rule on_time_next_loop)
  with Suc.IH [of "c + J" h] Suc.prems(2) show ?case by auto
qed simp

end

sublocale snowflake_generation \<subseteq> basic_ticking: ticking_generator
  "basic_snow_poll_id cm b L"
  "\<lambda>g. snow_live_inv cm L (bs_state g) (bs_time g)"
  bs_state "snow_timestamp L" bs_time cm
proof unfold_locales
  fix g x
  assume g: "snow_live_inv cm L (bs_state g) (bs_time g)"
    and x: "fst (basic_snow_poll_id cm b L g) = Inr (Ready x)"
  have d: "snow_decide b L (fst (cm (bs_time g))) (bs_state g) = Inr (Ready x)"
    using x by (simp add: basic_snow_poll_eq Let_def)
  with live_inv_step [OF g, of b] decide_ready [of "bs_state g" b "fst (cm (bs_time g))" x] g
  show "snow_live_inv cm L (bs_state (snd (basic_snow_poll_id cm b L g)))
        (bs_time (snd (basic_snow_poll_id cm b L g))) \<and>
      bs_time (snd (basic_snow_poll_id cm b L g)) = snd (cm (bs_time g)) \<and>
      snow_timestamp L x = fst (cm (bs_time g))"
    by (simp add: basic_snow_poll_eq Let_def snow_live_inv_def always_below_now)
qed

context snowflake_generation
begin

lemma basic_collects:
  assumes "snow_live_inv cm L (bs_state g) (bs_time g)" and "steady cm J (bs_time g)"
    and "passes cm (unat (fst (cm (bs_time g))) + J * Suc n) (bs_time g)"
    and "snow_timestamp L (bs_state g) \<le> fst (cm (bs_time g))"
  shows "collect (basic_snow_poll_id cm b L) n g \<noteq> None"
proof (rule basic_ticking.collect_returns)
  show "basic_ticking.on_time J (unat (fst (cm (bs_time g))) + J * Suc n)
      (unat (fst (cm (bs_time g))) + J) g"
    using assms by (simp add: basic_ticking.on_time_def word_le_nat_alt)
qed simp

end

subsection \<open>A service on such a clock\<close>

text \<open>A new worker generator starts at tick zero on the clock it is given.\<close>

lemma worker_gen_start:
  assumes "worker_gen b c clock i = Inr g"
  shows "bs_time g = clock" and "snow_timestamp SnowflakeId (bs_state g) = 0"
proof -
  note wf = wf_snowflake_layoutI [OF server_layout_wf]
  obtain m where g: "snow_from_components b SnowflakeId 0 m 0 = Inr (bs_state g)" "bs_time g = clock"
    using assms
    by (auto simp: worker_gen_def basic_snow_new_def basic_snow_from_components_def map_ok_eq_Inr_iff)
  then show "bs_time g = clock" by simp
  show "snow_timestamp SnowflakeId (bs_state g) = 0"
    using wf_snowflake_layout.fields_of_value(1) [OF wf
        wf_snowflake_layout.raw_from_components [OF wf g(1)]]
    by (simp add: unat_eq_zero)
qed

lemma worker_gen_collects:
  assumes "unat (shard_offset c) + i < 1024" and "worker_gen b c clock i = Inr g"
    and "always_below cm (2 ^ 41) clock" and "steady cm J clock"
    and "passes cm (unat (fst (cm clock)) + J * Suc n) clock"
  shows "collect (basic_snow_poll_id cm b SnowflakeId) n g \<noteq> None"
proof -
  note gen = snowflake_generationI [OF server_layout_wf]
  note st = worker_gen_start [OF assms(2)]
  have "snow_is_valid SnowflakeId (bs_state g)"
    using worker_gen_inv [OF assms(1) _ assms(2), of cm] assms(3) by (simp add: snow_gen_inv_def)
  then show ?thesis
    using assms(3-5) by (intro snowflake_generation.basic_collects [OF gen, where J = J])
      (simp_all add: snow_live_inv_def st server_bits)
qed

text \<open>Requests that one client after another makes, each stream read to its end.\<close>

fun serve_requests :: "('n \<Rightarrow> 's \<Rightarrow> ('r \<times> 's) option) \<Rightarrow> 'n list \<Rightarrow> 's \<Rightarrow> ('r list \<times> 's) option" where
  "serve_requests stream [] svc = Some ([], svc)"
| "serve_requests stream (count # counts) svc =
     (case stream count svc of
        None \<Rightarrow> None
      | Some (r, svc') \<Rightarrow> map_option (\<lambda>(rs, svc''). (r # rs, svc'')) (serve_requests stream counts svc'))"

lemma serve_requests_deliver:
  assumes c: "config_try_from args = Inr c" and "0 < unat (ids_per_chunk c)"
    and ch: "channel (stream_buffer_size c) = Inr []"
  shows "s_config svc = c \<Longrightarrow> \<not> s_shutdown svc \<Longrightarrow>
    pool_stocked cm b (unat (chunk_bytes c)) (shard_offset c) (sum_list (map (\<lambda>r. unat (snd r)) rs)) (s_pool svc) \<Longrightarrow>
    (\<forall>(e, count) \<in> set rs. 0 < unat count \<and> unat count \<le> unat (max_allowed_ids c)) \<Longrightarrow>
    \<exists>streams svc'. serve_requests (\<lambda>(elapsed, count).
        stream_ids elapsed (basic_snow_poll_id cm b SnowflakeId) channel deliver count) rs svc =
      Some (map (\<lambda>xss. Inr (Inr (Inr (Inr ()), map (\<lambda>xs. Inr (pack_ids xs)) xss))) streams, svc') \<and>
    map (\<lambda>xss. length (concat xss)) streams = map (\<lambda>r. unat (snd r)) rs \<and>
    distinct (concat (concat streams)) \<and> s_inflight svc' = s_inflight svc \<and>
    (\<forall>x \<in> set (concat (concat streams)). pool_fresh (shard_offset c) (s_pool svc) x)"
proof (induction rs arbitrary: svc)
  case Nil
  then show ?case by (intro exI [of _ "[]"]) simp
next
  case (Cons r rs)
  obtain e count where r: "r = (e, count)" by (cases r)
  let ?rest = "sum_list (map (\<lambda>r. unat (snd r)) rs)"
  let ?s = "\<lambda>(elapsed, count).
        stream_ids elapsed (basic_snow_poll_id cm b SnowflakeId) channel deliver count"
  have stocked: "pool_stocked cm b (unat (chunk_bytes c)) (shard_offset c) (unat count + ?rest) (s_pool svc)"
    and count: "0 < unat count" "unat count \<le> unat (max_allowed_ids c)"
    and more: "\<forall>(e, count) \<in> set rs. 0 < unat count \<and> unat count \<le> unat (max_allowed_ids c)"
    using Cons.prems(3,4) by (auto simp: r)
  from stream_delivers [where channel = channel and elapsed = e, OF c assms(2) Cons.prems(1,2) stocked count ch]
  obtain xss svc1 where 1: "?s r svc = Some (Inr (Inr (Inr (Inr ()), map (\<lambda>xs. Inr (pack_ids xs)) xss)), svc1)"
      "length (concat xss) = unat count" "distinct (concat xss)"
      "\<forall>x \<in> set (concat xss). pool_fresh (shard_offset c) (s_pool svc) x \<and>
         \<not> pool_fresh (shard_offset c) (s_pool svc1) x"
      "\<forall>x. pool_fresh (shard_offset c) (s_pool svc1) x \<longrightarrow> pool_fresh (shard_offset c) (s_pool svc) x"
      "s_config svc1 = c" "\<not> s_shutdown svc1" "s_inflight svc1 = s_inflight svc"
      "pool_stocked cm b (unat (chunk_bytes c)) (shard_offset c) ?rest (s_pool svc1)"
    unfolding r by auto
  from Cons.IH [OF 1(6,7,9) more] obtain streams svc2 where 2:
      "serve_requests ?s rs svc1 =
        Some (map (\<lambda>xss. Inr (Inr (Inr (Inr ()), map (\<lambda>xs. Inr (pack_ids xs)) xss))) streams, svc2)"
      "map (\<lambda>xss. length (concat xss)) streams = map (\<lambda>r. unat (snd r)) rs"
      "distinct (concat (concat streams))" "s_inflight svc2 = s_inflight svc1"
      "\<forall>x \<in> set (concat (concat streams)). pool_fresh (shard_offset c) (s_pool svc1) x"
    by blast
  have "set (concat xss) \<inter> set (concat (concat streams)) = {}" using 1(4) 2(5) by blast
  moreover have "serve_requests ?s (r # rs) svc =
      Some (map (\<lambda>xss. Inr (Inr (Inr (Inr ()), map (\<lambda>xs. Inr (pack_ids xs)) xss))) (xss # streams), svc2)"
    using 1(1) 2(1) by simp
  ultimately show ?case
    using 1(2-5,8) 2(2-5)
    by (intro exI [of _ "xss # streams"] exI [of _ svc2]) (auto simp: r distinct_append simp del: serve_requests.simps)
qed

subsection \<open>Properties\<close>

text \<open>C7: a server whose clock goes delivers. Take any accepted configuration with a chunk size
  above zero and machine numbers that fit, and a clock whose readings fit 41 bits, never go back,
  are at most \<open>J\<close> apart and pass, in the end, the first reading by more than \<open>J\<close> per requested
  identifier. Then the service can be created, in either build, and every sequence of valid
  requests is answered: each stream ends without error with exactly the number of identifiers
  asked for, the identifiers of all streams are pairwise distinct, and no stream is left in
  flight. That the generators can produce the identifiers is proved here, not supposed.\<close>

theorem ticking_service_delivers:
  assumes "config_try_from args = Inr c" and "0 < unat (ids_per_chunk c)"
    and "unat (shard_offset c) + unat (num_workers c) \<le> 1024"
    and "always_below cm (2 ^ 41) clock" and "steady cm J clock"
    and "passes cm (unat (fst (cm clock)) + J * Suc (\<Sum>r \<leftarrow> rs. unat (snd r))) clock"
    and "\<forall>(elapsed, count) \<in> set rs. 0 < unat count \<and> unat count \<le> unat (max_allowed_ids c)"
    and "channel (stream_buffer_size c) = Inr []"
  shows "\<exists>svc streams svc'. service_new b c clock mt = Inr svc \<and>
    serve_requests (\<lambda>(elapsed, count).
        stream_ids elapsed (basic_snow_poll_id cm b SnowflakeId) channel deliver count) rs svc =
      Some (map (\<lambda>xss. Inr (Inr (Inr (Inr ()), map (\<lambda>xs. Inr (pack_ids xs)) xss))) streams, svc') \<and>
    map (\<lambda>xss. length (concat xss)) streams = map (\<lambda>r. unat (snd r)) rs \<and>
    distinct (concat (concat streams)) \<and> s_inflight svc' = 0"
proof -
  obtain svc where svc: "service_new b c clock mt = Inr svc"
    by (rule service_new_ok [OF assms(1,3)])
  have n: "collect (basic_snow_poll_id cm b SnowflakeId) (\<Sum>r \<leftarrow> rs. unat (snd r)) g \<noteq> None"
    if "i < unat (num_workers c)" and "worker_gen b c clock i = Inr g" for i g
    using that assms(3) by (intro worker_gen_collects [OF _ that(2) assms(4-6)]) simp
  note st = service_new_stocked [OF assms(1,3) disjI2 [OF assms(4)] svc]
  have s: "pool_stocked cm b (unat (chunk_bytes c)) (shard_offset c) (\<Sum>r \<leftarrow> rs. unat (snd r)) (s_pool svc)"
    "s_config svc = c" "\<not> s_shutdown svc" "s_inflight svc = 0"
    by (rule st, erule (1) n)+
  show ?thesis
    using serve_requests_deliver [where channel = channel and cm = cm and b = b,
        OF assms(1,2,8) s(2,3,1) assms(7)] svc s(4)
    by auto
qed

text \<open>A clock for the witness: it counts to one thousand and stays there.\<close>

definition slow_clock :: "u64 \<Rightarrow> u64 \<times> u64" where
  "slow_clock k = (k, min 1000 (k + 1))"

lemma slow_clock_reading: "unat (reading slow_clock 1 i) = min 1000 (Suc i)"
proof (induction i)
  case 0
  show ?case by (simp add: reading_0 slow_clock_def)
next
  case (Suc i)
  let ?t = "((\<lambda>t. snd (slow_clock t)) ^^ i) 1"
  have t: "unat ?t = min 1000 (Suc i)" using Suc.IH by (simp add: reading_def slow_clock_def)
  have "unat (?t + 1) = Suc (unat ?t)" using t by (simp add: unat_word_ariths)
  with t show ?case
    by (auto simp: reading_def slow_clock_def min_def word_le_nat_alt)
qed

theorem ticking_service_delivers_witness:
  "\<exists>svc streams svc'. service_new Release demo_config (1 :: u64) no_metrics = Inr svc \<and>
    serve_requests (\<lambda>(elapsed, count).
        stream_ids elapsed (basic_snow_poll_id slow_clock Release SnowflakeId) (\<lambda>_. Inr []) deliver count)
      [(7, 3), (9, 50)] svc =
      Some (map (\<lambda>xss. Inr (Inr (Inr (Inr ()), map (\<lambda>xs. Inr (pack_ids xs)) xss))) streams, svc') \<and>
    map (\<lambda>xss. length (concat xss)) streams = [3, 50] \<and>
    distinct (concat (concat streams)) \<and> s_inflight svc' = 0"
proof -
  have "always_below slow_clock (2 ^ 41) 1" "steady slow_clock 1 1"
    by (auto simp: always_below_def steady_def slow_clock_reading)
  moreover have "passes slow_clock (unat (fst (slow_clock 1)) + 1 * Suc 53) 1"
    unfolding passes_def by (intro exI [of _ 999]) (simp add: slow_clock_reading slow_clock_def)
  ultimately show ?thesis
    using ticking_service_delivers [OF demo_config, of slow_clock 1 1 "[(7, 3), (9, 50)]" "\<lambda>_. Inr []" Release no_metrics]
    by (simp add: demo_config_def)
qed

end
