(* ===== verification/Server_Process.thy ===== *)
theory Server_Process
  imports Stream_Service
begin

text \<open>
  The server as a process: \<open>main\<close>, the set-up of telemetry and the shutdown after a signal
  (\<^verbatim>\<open>crates/ferroid-tonic-server/src/main.rs\<close>, \<^verbatim>\<open>server/telemetry.rs\<close>). The state of the
  process is the log of its calls to the outside, the metric handles and the service. A computation
  maps a state to a result, which may be an \<open>anyhow\<close> error, and the next state; a panic ends it,
  and a shutdown that never returns leaves it waiting.
  What the libraries and the operating system answer is a record of parameters, \<open>world\<close>: the
  environment, the outcome of binding a socket, of serving, of flushing, and the run of the shutdown. Which cargo features are
  compiled in is the record \<open>features\<close>. Of the tracing messages only the startup line is logged.
\<close>

subsection \<open>Features, providers and the state of the process\<close>

record features =
  f_tracing :: bool
  f_metrics :: bool
  f_stdout :: bool
  f_honeycomb :: bool
  f_unix :: bool

text \<open>The two \<open>compile_error!\<close>s: exporters need something to export.\<close>

definition features_ok :: "features \<Rightarrow> bool" where
  "features_ok ft \<longleftrightarrow> (f_honeycomb ft \<longrightarrow> f_tracing ft \<or> f_metrics ft) \<and>
     (f_stdout ft \<longrightarrow> f_tracing ft \<or> f_metrics ft)"

datatype exporter =
    StdoutExporter
  | OtlpExporter (metadata: "(string \<times> string) list") (endpoint: string) (compression: string)
      (timeout_secs: nat)

datatype reader =
    PeriodicReader exporter "nat option"
  | BatchProcessor exporter nat nat

record providers =
  tracer_provider :: "reader list"
  meter_provider :: "reader list"

datatype event =
    SetTextMapPropagator | SetTracerProvider | SetMeterProvider | InitSubscriber
  | BindUnix string | BindTcp string | RemoveFile string
  | LogFullConfig string server_config | LogWorkers string usize
  | SetServing | Serve | SetNotServing | ShutdownService
  | FlushTraces | ShutdownTracer | FlushMetrics | ShutdownMeter
  | Print string

record 'g process =
  p_log :: "event list"
  p_metrics :: metrics
  p_service :: "'g service option"

text \<open>How serving ends: with an error of its own, or after the shutdown future, with a result.\<close>

datatype serve_end = ServeError string | ServeStopped "string + unit"

text \<open>How waiting for a signal ends: one arrives, or a handler cannot be installed.\<close>

datatype signal_end = SignalArrived | NoHandler string

record 'g world =
  env_var :: "string \<Rightarrow> string option"
  compression_from_str :: "string \<Rightarrow> string + string"
  metadata_value :: "string \<Rightarrow> string option"
  build_exporter :: "exporter \<Rightarrow> string option"
  bind_unix :: "string \<Rightarrow> string + unit"
  bind_tcp :: "string \<Rightarrow> string + unit"
  build_reflection :: "string + unit"
  serving :: "'g service \<Rightarrow> serve_end \<times> 'g service"
  wait_signal :: signal_end
  provider_call :: "event \<Rightarrow> string option"
  stopping :: "'g shutdown_run"

text \<open>How a computation ends: with a result, with a panic, or never, waiting for something that
  does not happen; the state is then the one it waits in.\<close>

datatype 'a ending = Finished "string + 'a" | Aborted fault | Stuck

definition finished :: "'a ending \<Rightarrow> bool" where
  "finished r \<longleftrightarrow> (case r of Finished _ \<Rightarrow> True | _ \<Rightarrow> False)"

type_synonym ('g, 'a) proc = "'g process \<Rightarrow> 'a ending \<times> 'g process"

definition ok :: "'a \<Rightarrow> ('g, 'a) proc" where
  "ok x p = (Finished (Inr x), p)"

definition result :: "string + 'a \<Rightarrow> ('g, 'a) proc" where
  "result r p = (Finished r, p)"

definition emit :: "event \<Rightarrow> ('g, unit) proc" where
  "emit e p = (Finished (Inr ()), p\<lparr>p_log := p_log p @ [e]\<rparr>)"

definition emit_if :: "bool \<Rightarrow> event \<Rightarrow> ('g, unit) proc" where
  "emit_if c e = (if c then emit e else ok ())"

text \<open>The operator \<open>?\<close>: go on with the value, leave with the error or the panic.\<close>

definition and_do :: "('g, 'a) proc \<Rightarrow> ('a \<Rightarrow> ('g, 'b) proc) \<Rightarrow> ('g, 'b) proc" where
  "and_do m k p =
     (case m p of
        (Stuck, p') \<Rightarrow> (Stuck, p')
      | (Aborted panic, p') \<Rightarrow> (Aborted panic, p')
      | (Finished (Inl e), p') \<Rightarrow> (Finished (Inl e), p')
      | (Finished (Inr x), p') \<Rightarrow> k x p')"

subsection \<open>Telemetry\<close>

definition to_ascii_lowercase :: "string \<Rightarrow> string" where
  "to_ascii_lowercase s =
     map (\<lambda>c. let n = of_char c :: nat in if 65 \<le> n \<and> n \<le> 90 then char_of (n + 32) else c) s"

definition context_err :: "string \<Rightarrow> 'a option \<Rightarrow> string + 'a" where
  "context_err msg r = (case r of None \<Rightarrow> Inl msg | Some x \<Rightarrow> Inr x)"

definition get_honeycomb_metadata :: "'g world \<Rightarrow> string + (string \<times> string) list \<times> string \<times> string" where
  "get_honeycomb_metadata w =
     and_then (context_err ''missing `HONEYCOMB_ENDPOINT`'' (env_var w ''HONEYCOMB_ENDPOINT'')) (\<lambda>endpoint.
     and_then (context_err ''missing `HONEYCOMB_COMPRESSION`'' (env_var w ''HONEYCOMB_COMPRESSION'')) (\<lambda>raw.
     and_then (compression_from_str w (to_ascii_lowercase raw)) (\<lambda>compression.
     and_then (context_err ''missing `HONEYCOMB_API_KEY`'' (env_var w ''HONEYCOMB_API_KEY'')) (\<lambda>api_key.
     and_then (context_err ''missing `HONEYCOMB_DATASET`'' (env_var w ''HONEYCOMB_DATASET'')) (\<lambda>dataset.
     and_then (context_err ''invalid API key'' (metadata_value w api_key)) (\<lambda>team.
     and_then (context_err ''invalid dataset'' (metadata_value w dataset)) (\<lambda>ds.
       Inr ([(''x-honeycomb-team'', team), (''x-honeycomb-dataset'', ds)], endpoint, compression))))))))"

definition otlp_exporter :: "'g world \<Rightarrow> string \<Rightarrow> string + exporter" where
  "otlp_exporter w failure =
     and_then (get_honeycomb_metadata w) (\<lambda>(md, ep, comp).
       let exporter = OtlpExporter md ep comp 10
       in case build_exporter w exporter of None \<Rightarrow> Inr exporter | Some _ \<Rightarrow> Inl failure)"

definition init_metrics :: "features \<Rightarrow> 'g world \<Rightarrow> string + reader list" where
  "init_metrics ft w =
     (let builder = (if f_stdout ft then [PeriodicReader StdoutExporter (Some 5)] else [])
      in if f_honeycomb ft
         then map_ok (\<lambda>exporter. builder @ [PeriodicReader exporter None])
                (otlp_exporter w ''failed to build metrics exporter'')
         else Inr builder)"

definition init_tracer :: "features \<Rightarrow> 'g world \<Rightarrow> string + reader list" where
  "init_tracer ft w =
     (let builder = (if f_stdout ft then [BatchProcessor StdoutExporter 5 2048] else [])
      in if f_honeycomb ft
         then map_ok (\<lambda>exporter. builder @ [BatchProcessor exporter 5 2048])
                (otlp_exporter w ''failed to build tracer exporter'')
         else Inr builder)"

definition set_handles :: "('g, unit) proc" where
  "set_handles p = (Finished (Inr ()), p\<lparr>p_metrics := init_metric_handles (p_metrics p)\<rparr>)"

definition init_telemetry :: "features \<Rightarrow> 'g world \<Rightarrow> ('g, providers) proc" where
  "init_telemetry ft w =
     and_do (emit_if (f_tracing ft) SetTextMapPropagator) (\<lambda>_.
     and_do (result (if f_tracing ft then init_tracer ft w else Inr [])) (\<lambda>tracer.
     and_do (result (if f_metrics ft then init_metrics ft w else Inr [])) (\<lambda>meter.
     and_do (emit_if (f_tracing ft) SetTracerProvider) (\<lambda>_.
     and_do (emit_if (f_metrics ft) SetMeterProvider) (\<lambda>_.
     and_do (if f_metrics ft then set_handles else ok ()) (\<lambda>_.
     and_do (emit InitSubscriber) (\<lambda>_.
       ok \<lparr>tracer_provider = tracer, meter_provider = meter\<rparr>)))))))"

subsection \<open>Serving and shutting down\<close>

definition log_startup_info :: "features \<Rightarrow> build \<Rightarrow> string \<Rightarrow> server_config \<Rightarrow> ('g, unit) proc" where
  "log_startup_info ft b addr config =
     (if b = Debug then emit_if (f_tracing ft) (LogFullConfig addr config)
      else emit_if (f_tracing ft) (LogWorkers addr (num_workers config)))"

text \<open>\<open>if let Err(err) = provider.call() { eprintln!(..) }\<close>\<close>

definition report_call :: "'g world \<Rightarrow> event \<Rightarrow> string \<Rightarrow> ('g, unit) proc" where
  "report_call w call msg =
     and_do (emit call) (\<lambda>_.
       case provider_call w call of None \<Rightarrow> ok () | Some err \<Rightarrow> emit (Print (msg @ err)))"

text \<open>\<open>service.shutdown().await\<close>, whose only result is \<open>Ok\<close>.\<close>

definition stop_service ::
  "'g world \<Rightarrow> ('g \<Rightarrow> (u64 snowflake, u64) poll res \<times> 'g) \<Rightarrow> ('g, unit) proc" where
  "stop_service w poll_id p =
     (let p = p\<lparr>p_log := p_log p @ [ShutdownService]\<rparr>
      in case p_service p of
           None \<Rightarrow> (Finished (Inr ()), p)
         | Some svc \<Rightarrow>
             (case service_shutdown (stopping w) poll_id svc of
                (None, svc') \<Rightarrow> (Stuck, p\<lparr>p_service := Some svc'\<rparr>)
              | (Some _, svc') \<Rightarrow> (Finished (Inr ()), p\<lparr>p_service := Some svc'\<rparr>)))"

definition shutdown_signal ::
  "features \<Rightarrow> 'g world \<Rightarrow> ('g \<Rightarrow> (u64 snowflake, u64) poll res \<times> 'g) \<Rightarrow> ('g, unit) proc" where
  "shutdown_signal ft w poll_id =
     (case wait_signal w of
        NoHandler msg \<Rightarrow> (\<lambda>p. (Aborted (Panic msg), p))
      | SignalArrived \<Rightarrow>
          and_do (emit SetNotServing) (\<lambda>_.
          and_do (stop_service w poll_id) (\<lambda>_.
          and_do (if f_tracing ft
                  then and_do (report_call w FlushTraces ''Error flushing traces: '') (\<lambda>_.
                         report_call w ShutdownTracer ''Error shutting down tracer: '')
                  else ok ()) (\<lambda>_.
            if f_metrics ft
            then and_do (report_call w FlushMetrics ''Error flushing metrics: '') (\<lambda>_.
                   report_call w ShutdownMeter ''Error shutting down meter: '')
            else ok ()))))"

text \<open>
  \<open>serve_with_incoming_shutdown\<close> of the library: requests act on the service until serving fails
  or the given future, which waits for a signal, has run.
\<close>

definition serve_with_shutdown :: "'g world \<Rightarrow> ('g, unit) proc \<Rightarrow> ('g, unit) proc" where
  "serve_with_shutdown w signal p =
     (let p = p\<lparr>p_log := p_log p @ [Serve]\<rparr>
      in case p_service p of
           None \<Rightarrow> (Finished (Inr ()), p)
         | Some svc \<Rightarrow>
             (case serving w svc of
                (ServeError e, svc') \<Rightarrow> (Finished (Inl e), p\<lparr>p_service := Some svc'\<rparr>)
              | (ServeStopped r, svc') \<Rightarrow>
                  and_do signal (\<lambda>_. result r) (p\<lparr>p_service := Some svc'\<rparr>)))"

definition create_service ::
  "build \<Rightarrow> server_config \<Rightarrow> 't \<Rightarrow> ((u64 snowflake, 't) basic_snow_gen, unit) proc" where
  "create_service b config clock p =
     (case service_new b config clock (p_metrics p) of
        Inl panic \<Rightarrow> (Aborted panic, p)
      | Inr svc \<Rightarrow> (Finished (Inr ()), p\<lparr>p_service := Some svc\<rparr>))"

definition run_server_with_incoming ::
  "features \<Rightarrow> build \<Rightarrow> (u64 snowflake, 't) basic_snow_gen world \<Rightarrow> ('t \<Rightarrow> u64 \<times> 't) \<Rightarrow>
     server_config \<Rightarrow> 't \<Rightarrow> ((u64 snowflake, 't) basic_snow_gen, unit) proc" where
  "run_server_with_incoming ft b w current_millis config clock =
     and_do (emit SetServing) (\<lambda>_.
     and_do (create_service b config clock) (\<lambda>_.
     and_do (result (build_reflection w)) (\<lambda>_.
       serve_with_shutdown w (shutdown_signal ft w (basic_snow_poll_id current_millis b SnowflakeId)))))"

definition remove_socket :: "string \<Rightarrow> ('g, unit) proc \<Rightarrow> ('g, unit) proc" where
  "remove_socket path server p =
     (case server p of
        (Stuck, p') \<Rightarrow> (Stuck, p')
      | (Aborted panic, p') \<Rightarrow> (Aborted panic, p')
      | (Finished res, p') \<Rightarrow> (Finished res, p'\<lparr>p_log := p_log p' @ [RemoveFile path]\<rparr>))"

definition main ::
  "features \<Rightarrow> build \<Rightarrow> (u64 snowflake, 't) basic_snow_gen world \<Rightarrow> ('t \<Rightarrow> u64 \<times> 't) \<Rightarrow>
     cli_args \<Rightarrow> 't \<Rightarrow> ((u64 snowflake, 't) basic_snow_gen, unit) proc" where
  "main ft b w current_millis args clock =
     and_do (result (config_try_from args)) (\<lambda>config.
     and_do (init_telemetry ft w) (\<lambda>_.
       let addr = server_addr config;
           server = and_do (log_startup_info ft b addr config) (\<lambda>_.
             run_server_with_incoming ft b w current_millis config clock)
       in if uds config then
            if f_unix ft then
              and_do (result (bind_unix w addr)) (\<lambda>_.
              and_do (emit (BindUnix addr)) (\<lambda>_. remove_socket addr server))
            else result (Inl ''Unix domain sockets are not supported on this platform'')
          else
            and_do (result (bind_tcp w addr)) (\<lambda>_.
            and_do (emit (BindTcp addr)) (\<lambda>_. server))))"

subsection \<open>Running a process\<close>

lemma and_do_result [simp]:
  "and_do (ok x) k p = k x p"
  "and_do (result (Inr x)) k p = k x p"
  "and_do (result (Inl err)) k p = (Finished (Inl err), p)"
  by (simp_all add: and_do_def ok_def result_def)

lemma and_do_effect [simp]:
  "and_do (emit e) k p = k () (p\<lparr>p_log := p_log p @ [e]\<rparr>)"
  "and_do set_handles k p = k () (p\<lparr>p_metrics := init_metric_handles (p_metrics p)\<rparr>)"
  by (simp_all add: and_do_def emit_def set_handles_def)

lemma and_do_assoc [simp]: "and_do (and_do m k) l = and_do m (\<lambda>x. and_do (k x) l)"
  by (rule ext) (simp add: and_do_def split: prod.split sum.split ending.split)

lemma and_do_if [simp]: "and_do (if c then m else n) k p = (if c then and_do m k p else and_do n k p)"
  by simp

definition log_add :: "event list \<Rightarrow> 'g process \<Rightarrow> 'g process" where
  "log_add es p = p\<lparr>p_log := p_log p @ es\<rparr>"

lemma log_add_log_add [simp]: "log_add fs (log_add es p) = log_add (es @ fs) p"
  by (simp add: log_add_def)

lemma and_do_emit_if: "and_do (emit_if c e) k p = k () (log_add (if c then [e] else []) p)"
  by (simp add: emit_if_def log_add_def)

text \<open>A provider call and the message it may print.\<close>

definition reported :: "'g world \<Rightarrow> event \<Rightarrow> string \<Rightarrow> event list" where
  "reported w call msg =
     call # (case provider_call w call of None \<Rightarrow> [] | Some err \<Rightarrow> [Print (msg @ err)])"

definition flush_events :: "features \<Rightarrow> 'g world \<Rightarrow> event list" where
  "flush_events ft w =
     (if f_tracing ft then reported w FlushTraces ''Error flushing traces: '' @
        reported w ShutdownTracer ''Error shutting down tracer: '' else []) @
     (if f_metrics ft then reported w FlushMetrics ''Error flushing metrics: '' @
        reported w ShutdownMeter ''Error shutting down meter: '' else [])"

lemma report_call_eq: "report_call w call msg p = (Finished (Inr ()), log_add (reported w call msg) p)"
  by (simp add: report_call_def reported_def log_add_def emit_def ok_def split: option.split)

lemma and_do_report: "and_do (report_call w call msg) k p = k () (log_add (reported w call msg) p)"
  by (simp add: and_do_def report_call_eq)

lemma shutdown_signal_eq:
  assumes "wait_signal w = SignalArrived" and "p_service p = Some svc"
    and "service_shutdown (stopping w) poll_id svc = (outcome, svc')"
  shows "shutdown_signal ft w poll_id p =
    (if outcome = None
     then (Stuck, log_add [SetNotServing, ShutdownService] (p\<lparr>p_service := Some svc'\<rparr>))
     else (Finished (Inr ()), log_add ([SetNotServing, ShutdownService] @ flush_events ft w)
       (p\<lparr>p_service := Some svc'\<rparr>)))"
proof -
  let ?log = "p_log p @ [SetNotServing, ShutdownService]"
  have "stop_service w poll_id (p\<lparr>p_log := p_log p @ [SetNotServing]\<rparr>) =
      (if outcome = None then Stuck else Finished (Inr ()), p\<lparr>p_log := ?log, p_service := Some svc'\<rparr>)"
    using assms(2,3) by (auto simp: stop_service_def Let_def)
  then show ?thesis
    using assms(1)
    by (simp add: shutdown_signal_def and_do_def [of "stop_service w poll_id"] and_do_report report_call_eq
        flush_events_def log_add_def ok_def)
qed

definition telemetry_events :: "features \<Rightarrow> event list" where
  "telemetry_events ft =
     (if f_tracing ft then [SetTextMapPropagator, SetTracerProvider] else []) @
     (if f_metrics ft then [SetMeterProvider] else []) @ [InitSubscriber]"

definition telemetry_ok :: "features \<Rightarrow> 'g world \<Rightarrow> bool" where
  "telemetry_ok ft w \<longleftrightarrow> (f_tracing ft \<longrightarrow> is_ok (init_tracer ft w)) \<and>
     (f_metrics ft \<longrightarrow> is_ok (init_metrics ft w))"

definition metrics_of :: "features \<Rightarrow> metrics \<Rightarrow> metrics" where
  "metrics_of ft m = (if f_metrics ft then init_metric_handles m else m)"

lemma init_telemetry_ok:
  assumes "telemetry_ok ft w"
  shows "\<exists>pv. init_telemetry ft w p = (Finished (Inr pv),
    log_add (telemetry_events ft) (p\<lparr>p_metrics := metrics_of ft (p_metrics p)\<rparr>))"
proof -
  obtain t m where "f_tracing ft \<Longrightarrow> init_tracer ft w = Inr t" "f_metrics ft \<Longrightarrow> init_metrics ft w = Inr m"
    using assms by (auto simp: telemetry_ok_def is_ok_iff)
  then show ?thesis
    by (cases "f_tracing ft"; cases "f_metrics ft")
      (simp_all add: init_telemetry_def emit_if_def log_add_def telemetry_events_def metrics_of_def ok_def)
qed

lemma init_telemetry_err:
  assumes "\<not> telemetry_ok ft w"
  shows "\<exists>e. init_telemetry ft w p = (Finished (Inl e),
    log_add (if f_tracing ft then [SetTextMapPropagator] else []) p)"
  using assms
  by (cases "init_tracer ft w"; cases "init_metrics ft w"; cases "f_tracing ft"; cases "f_metrics ft")
    (simp_all add: telemetry_ok_def init_telemetry_def emit_if_def log_add_def)

text \<open>A Honeycomb build does not start without its settings: the features it needs are the ones
  that look at them.\<close>

lemma honeycomb_settings_checked:
  assumes "features_ok ft" and "f_honeycomb ft"
    and "k \<in> {''HONEYCOMB_ENDPOINT'', ''HONEYCOMB_COMPRESSION'', ''HONEYCOMB_API_KEY'', ''HONEYCOMB_DATASET''}"
    and "env_var w k = None"
  shows "\<not> telemetry_ok ft w"
proof -
  have "\<not> is_ok (get_honeycomb_metadata w)"
    using assms(3,4) by (auto simp: get_honeycomb_metadata_def is_ok_iff context_err_def split: option.splits)
  then have "\<not> is_ok (otlp_exporter w failure)" for failure
    by (auto simp: otlp_exporter_def is_ok_iff)
  then show ?thesis
    using assms(1,2) by (auto simp: telemetry_ok_def init_tracer_def init_metrics_def features_ok_def)
qed

text \<open>The listener of a configuration, if it can be bound, and its events.\<close>

definition bound :: "features \<Rightarrow> 'g world \<Rightarrow> server_config \<Rightarrow> bool" where
  "bound ft w c \<longleftrightarrow> (if uds c then f_unix ft \<and> is_ok (bind_unix w (server_addr c))
     else is_ok (bind_tcp w (server_addr c)))"

definition bind_event :: "server_config \<Rightarrow> event" where
  "bind_event c = (if uds c then BindUnix (server_addr c) else BindTcp (server_addr c))"

definition startup_events :: "features \<Rightarrow> build \<Rightarrow> server_config \<Rightarrow> event list" where
  "startup_events ft b c =
     bind_event c # (if f_tracing ft then [if b = Debug then LogFullConfig (server_addr c) c
                                           else LogWorkers (server_addr c) (num_workers c)] else [])"

definition cleanup_events :: "server_config \<Rightarrow> event list" where
  "cleanup_events c = (if uds c then [RemoveFile (server_addr c)] else [])"

text \<open>\<open>main\<close> up to the server, and what becomes of the server's result.\<close>

lemma main_config_err:
  "config_try_from args = Inl e \<Longrightarrow> main ft b w cm args clock p = (Finished (Inl e), p)"
  by (simp add: main_def)

lemma main_telemetry_err:
  assumes "config_try_from args = Inr c" and "\<not> telemetry_ok ft w"
  shows "\<exists>e. main ft b w cm args clock p =
    (Finished (Inl e), log_add (if f_tracing ft then [SetTextMapPropagator] else []) p)"
  using init_telemetry_err [OF assms(2), of p] assms(1) by (auto simp: main_def and_do_def [of "init_telemetry ft w"])

lemma main_bind_err:
  assumes "config_try_from args = Inr c" and "telemetry_ok ft w" and "\<not> bound ft w c"
  shows "\<exists>e. main ft b w cm args clock p = (Finished (Inl e),
    log_add (telemetry_events ft) (p\<lparr>p_metrics := metrics_of ft (p_metrics p)\<rparr>))"
proof -
  obtain pv where "init_telemetry ft w p = (Finished (Inr pv),
      log_add (telemetry_events ft) (p\<lparr>p_metrics := metrics_of ft (p_metrics p)\<rparr>))"
    using init_telemetry_ok [OF assms(2)] by blast
  then show ?thesis
    using assms(1,3)
    by (cases "uds c"; cases "f_unix ft"; cases "bind_unix w (server_addr c)"; cases "bind_tcp w (server_addr c)")
      (simp_all add: main_def and_do_def [of "init_telemetry ft w"] bound_def result_def Let_def)
qed

lemma main_bound:
  assumes "config_try_from args = Inr c" and "telemetry_ok ft w" and "bound ft w c"
    and "run_server_with_incoming ft b w cm c clock
      (log_add (telemetry_events ft @ startup_events ft b c) (p\<lparr>p_metrics := metrics_of ft (p_metrics p)\<rparr>)) = (r, q)"
  shows "main ft b w cm args clock p = (r, if finished r then log_add (cleanup_events c) q else q)"
proof -
  obtain pv where "init_telemetry ft w p = (Finished (Inr pv),
      log_add (telemetry_events ft) (p\<lparr>p_metrics := metrics_of ft (p_metrics p)\<rparr>))"
    using init_telemetry_ok [OF assms(2)] by blast
  then show ?thesis
    using assms(1,3,4)
    by (cases "uds c"; cases r)
      (auto simp: main_def and_do_def [of "init_telemetry ft w"] bound_def is_ok_iff finished_def remove_socket_def Let_def
        log_startup_info_def and_do_emit_if startup_events_def bind_event_def cleanup_events_def log_add_def)
qed

text \<open>The ways a server can end.\<close>

lemma run_server_new_err:
  "service_new b c clock (p_metrics p) = Inl f \<Longrightarrow>
     run_server_with_incoming ft b w cm c clock p = (Aborted f, log_add [SetServing] p)"
  by (simp add: run_server_with_incoming_def and_do_def [of "create_service b c clock"]
      create_service_def log_add_def)

lemma run_server_serves:
  assumes "service_new b c clock (p_metrics p) = Inr svc"
  shows "run_server_with_incoming ft b w cm c clock p =
    (case build_reflection w of
       Inl e \<Rightarrow> (Finished (Inl e), log_add [SetServing] (p\<lparr>p_service := Some svc\<rparr>))
     | Inr _ \<Rightarrow>
         (case serving w svc of
            (ServeError e, svc') \<Rightarrow>
              (Finished (Inl e), log_add [SetServing, Serve] (p\<lparr>p_service := Some svc'\<rparr>))
          | (ServeStopped r, svc') \<Rightarrow>
              (case wait_signal w of
                 NoHandler msg \<Rightarrow>
                   (Aborted (Panic msg), log_add [SetServing, Serve] (p\<lparr>p_service := Some svc'\<rparr>))
               | SignalArrived \<Rightarrow>
                   (case service_shutdown (stopping w) (basic_snow_poll_id cm b SnowflakeId) svc' of
                      (outcome, svc'') \<Rightarrow>
                        (if outcome = None then Stuck else Finished r,
                         log_add ([SetServing, Serve, SetNotServing, ShutdownService] @
                             (if outcome = None then [] else flush_events ft w))
                           (p\<lparr>p_service := Some svc''\<rparr>))))))"
proof -
  let ?sig = "shutdown_signal ft w (basic_snow_poll_id cm b SnowflakeId)"
  have "run_server_with_incoming ft b w cm c clock p =
      and_do (result (build_reflection w)) (\<lambda>_. serve_with_shutdown w ?sig)
        (log_add [SetServing] (p\<lparr>p_service := Some svc\<rparr>))"
    using assms by (cases p) (simp add: run_server_with_incoming_def
        and_do_def [of "create_service b c clock"] create_service_def log_add_def)
  moreover obtain se svc' where "serving w svc = (se, svc')" by (cases "serving w svc")
  moreover obtain outcome svc'' where
    "service_shutdown (stopping w) (basic_snow_poll_id cm b SnowflakeId) svc' = (outcome, svc'')" by fastforce
  ultimately show ?thesis
    by (cases p; cases "build_reflection w"; cases se; cases "wait_signal w")
      (simp_all add: serve_with_shutdown_def and_do_def [of ?sig] shutdown_signal_eq result_def log_add_def,
        simp add: shutdown_signal_def)
qed

text \<open>A service that was shut down refuses every request, and its pool every dispatch.\<close>

definition refuses_all :: "'g service \<Rightarrow> bool" where
  "refuses_all svc \<longleftrightarrow>
     (\<forall>count. stream_accept count svc = (Inl (Status Unavailable ''Service is shutting down''), svc)) \<and>
     (\<forall>poll_id cb work. send_to_next_worker poll_id cb work (s_pool svc) =
        Some (Inr (Inl ServiceShutdown), s_pool svc))"

lemma service_shutdown_refuses_all:
  "service_shutdown run poll_id svc = (outcome, svc') \<Longrightarrow> refuses_all svc'"
  by (simp add: refuses_all_def service_shutdown_refuses)

definition process_start :: "metrics \<Rightarrow> 'g process" where
  "process_start m = \<lparr>p_log = [], p_metrics = m, p_service = None\<rparr>"

text \<open>What the server adds to the log.\<close>

lemma flush_events_calls:
  "set (flush_events ft w) \<subseteq> {FlushTraces, ShutdownTracer, FlushMetrics, ShutdownMeter} \<union> range Print"
  by (auto simp: flush_events_def reported_def split: option.splits if_splits)

lemma run_server_events:
  assumes "run_server_with_incoming ft b w cm c clock p = (r, q)"
  obtains es where "p_log q = p_log p @ es" "\<forall>path. BindUnix path \<notin> set es \<and> RemoveFile path \<notin> set es"
    "ShutdownService \<in> set es \<longrightarrow> (\<exists>us vs. es = us @ SetNotServing # ShutdownService # vs) \<and>
      (\<exists>svc. p_service q = Some svc \<and> refuses_all svc)"
proof -
  have q: "\<exists>es. p_log q = p_log p @ es \<and> (es = [SetServing] \<or> es = [SetServing, Serve] \<or>
      (\<exists>fs. set fs \<subseteq> set (flush_events ft w) \<and> es = [SetServing, Serve, SetNotServing, ShutdownService] @ fs) \<and>
        (\<exists>svc. p_service q = Some svc \<and> refuses_all svc))"
  proof (cases "service_new b c clock (p_metrics p)")
    case (Inl f)
    from assms [unfolded run_server_new_err [OF this]] show ?thesis by (auto simp: log_add_def)
  next
    case (Inr svc)
    from assms [unfolded run_server_serves [OF this]] show ?thesis
      by (auto simp: log_add_def intro: service_shutdown_refuses_all
          split: sum.splits prod.splits serve_end.splits signal_end.splits if_splits)
  qed
  then obtain es where es: "p_log q = p_log p @ es" "es = [SetServing] \<or> es = [SetServing, Serve] \<or>
      (\<exists>fs. set fs \<subseteq> set (flush_events ft w) \<and> es = [SetServing, Serve, SetNotServing, ShutdownService] @ fs) \<and>
        (\<exists>svc. p_service q = Some svc \<and> refuses_all svc)" by blast
  have "\<forall>path. BindUnix path \<notin> set es \<and> RemoveFile path \<notin> set es"
    using es(2) flush_events_calls [of ft w] by auto
  moreover have "ShutdownService \<in> set es \<longrightarrow> (\<exists>us vs. es = us @ SetNotServing # ShutdownService # vs) \<and>
      (\<exists>svc. p_service q = Some svc \<and> refuses_all svc)"
    using es(2) by (auto intro: exI [of _ "[SetServing, Serve]"])
  ultimately show thesis using es(1) that by blast
qed

lemma socket_removed:
  assumes "RemoveFile path \<notin> set ps" and "BindUnix path \<in> set ps \<longleftrightarrow> uds c \<and> path = server_addr c"
    and "\<forall>path. BindUnix path \<notin> set es \<and> RemoveFile path \<notin> set es"
  shows "RemoveFile path \<in> set (ps @ es @ (if good then cleanup_events c else [])) \<longleftrightarrow>
    BindUnix path \<in> set (ps @ es @ (if good then cleanup_events c else [])) \<and> good"
  using assms by (cases "uds c"; cases good) (auto simp: cleanup_events_def)

lemma shutdown_logged:
  assumes "ShutdownService \<notin> set ps" and "ShutdownService \<in> set (ps @ es @ (if good then cleanup_events c else []))"
    and "ShutdownService \<in> set es \<longrightarrow> (\<exists>us vs. es = us @ SetNotServing # ShutdownService # vs) \<and> P"
  shows "(\<exists>us vs. ps @ es @ (if good then cleanup_events c else []) =
    us @ SetNotServing # ShutdownService # vs) \<and> P"
proof -
  have "ShutdownService \<in> set es"
    using assms(1,2) by (simp add: cleanup_events_def split: if_splits)
  then obtain us vs where "es = us @ SetNotServing # ShutdownService # vs" and P using assms(3) by blast
  then show ?thesis
    by (intro conjI exI [of _ "ps @ us"] exI [of _ "vs @ (if good then cleanup_events c else [])"]) simp_all
qed

subsection \<open>Properties\<close>

text \<open>C31: the life of a server. With an accepted configuration whose machine numbers fit, telemetry
  that can be set up and a socket that can be bound, \<open>main\<close> creates the service and serves until
  a signal arrives. Its calls to the outside are, in this order: telemetry, the socket, the
  startup message, the health status, serving; then the health status is withdrawn before the
  service is shut down, and traces and metrics are flushed after that, each failure printed and
  none of them stopping the rest; the socket file of a Unix server is removed last. The result
  is the server's, the metric handles were set before the service existed exactly if metrics are
  compiled in, and the service that is left is the one the shutdown leaves and refuses every request.
  The one way not to get to the end is a shutdown that never returns, which is one in which the
  queue of a live worker never takes the stop request: then nothing is flushed and no file removed.\<close>

theorem process_lifecycle:
  fixes w :: "(u64 snowflake, 't) basic_snow_gen world"
  assumes "config_try_from args = Inr c" and "unat (shard_offset c) + unat (num_workers c) \<le> 1024"
    and "telemetry_ok ft w" and "bound ft w c" and "build_reflection w = Inr ()"
    and "wait_signal w = SignalArrived" and "\<And>svc. fst (serving w svc) = ServeStopped r"
  shows "\<exists>svc outcome svc' q.
    main ft b w cm args clock (process_start no_metrics) = (if outcome = None then Stuck else Finished r, q) \<and>
    service_new b c clock (if f_metrics ft then init_metric_handles no_metrics else no_metrics) = Inr svc \<and>
    service_shutdown (stopping w) (basic_snow_poll_id cm b SnowflakeId) (snd (serving w svc)) = (outcome, svc') \<and>
    (outcome = None \<longleftrightarrow>
      (\<exists>i \<in> live (workers (s_pool (snd (serving w svc)))). send_stop (stopping w) i = Blocked)) \<and>
    p_log q = telemetry_events ft @ startup_events ft b c @
      [SetServing, Serve, SetNotServing, ShutdownService] @
      (if outcome = None then [] else flush_events ft w @ cleanup_events c) \<and>
    p_service q = Some svc' \<and> refuses_all svc'"
proof -
  let ?m = "metrics_of ft no_metrics"
  let ?start = "process_start no_metrics :: (u64 snowflake, 't) basic_snow_gen process"
  let ?p = "log_add (telemetry_events ft @ startup_events ft b c)
    (?start\<lparr>p_metrics := metrics_of ft (p_metrics ?start)\<rparr>)"
  have p: "p_metrics ?p = ?m" "p_log ?p = telemetry_events ft @ startup_events ft b c"
    by (simp_all add: log_add_def process_start_def)
  obtain svc where svc: "service_new b c clock ?m = Inr svc"
    by (rule service_new_ok [OF assms(1,2)])
  obtain svc1 where s: "serving w svc = (ServeStopped r, svc1)"
    using assms(7) [of svc] by (metis prod.collapse)
  obtain outcome svc' where stop:
    "service_shutdown (stopping w) (basic_snow_poll_id cm b SnowflakeId) svc1 = (outcome, svc')" by fastforce
  let ?q = "log_add ([SetServing, Serve, SetNotServing, ShutdownService] @
      (if outcome = None then [] else flush_events ft w)) (?p\<lparr>p_service := Some svc'\<rparr>)"
  let ?r = "if outcome = None then Stuck else Finished r"
  have "run_server_with_incoming ft b w cm c clock ?p = (?r, ?q)"
    using run_server_serves [of b c clock ?p svc ft w cm] svc p(1) s stop assms(5,6) by simp
  then have "main ft b w cm args clock (process_start no_metrics) =
      (?r, if finished ?r then log_add (cleanup_events c) ?q else ?q)"
    by (rule main_bound [OF assms(1,3,4)])
  moreover have "outcome = None \<longleftrightarrow> (\<exists>i \<in> live (workers (s_pool svc1)). send_stop (stopping w) i = Blocked)"
    using service_shutdown_None [of "stopping w" "basic_snow_poll_id cm b SnowflakeId" svc1] stop by simp
  ultimately show ?thesis
    using svc s stop p(2) service_shutdown_refuses_all [OF stop]
    by (intro exI [of _ svc] exI [of _ outcome] exI [of _ svc'])
      (cases outcome; simp add: metrics_of_def log_add_def finished_def)
qed

text \<open>An outside world for the witness: the variables are set and everything can be built.\<close>

definition demo_world :: "'g world" where
  "demo_world = \<lparr>env_var = (\<lambda>_. Some ''gzip''), compression_from_str = Inr, metadata_value = Some,
     build_exporter = (\<lambda>_. None), bind_unix = (\<lambda>_. Inr ()), bind_tcp = (\<lambda>_. Inl ''in use''),
     build_reflection = Inr (), serving = (\<lambda>svc. (ServeStopped (Inr ()), svc)),
     wait_signal = SignalArrived,
     provider_call = (\<lambda>call. if call = FlushTraces then Some ''timeout'' else None),
     stopping = \<lparr>inflight_at = (\<lambda>_. 0), send_stop = (\<lambda>_. Accepted 1),
       stop_answer = (\<lambda>_. Acked 3), left_as = (\<lambda>_ w. w)\<rparr>\<rparr>"

theorem process_lifecycle_witness:
  "\<exists>q. main \<lparr>f_tracing = True, f_metrics = False, f_stdout = True, f_honeycomb = True, f_unix = True\<rparr>
      Release demo_world demo_clock (demo_args\<lparr>a_uds := True\<rparr>) (1 :: u64) (process_start no_metrics) =
        (Finished (Inr ()), q) \<and>
    p_log q = [SetTextMapPropagator, SetTracerProvider, InitSubscriber, BindUnix ''127.0.0.1:50051'',
      LogWorkers ''127.0.0.1:50051'' 2, SetServing, Serve, SetNotServing, ShutdownService,
      FlushTraces, Print ''Error flushing traces: timeout'', ShutdownTracer,
      RemoveFile ''127.0.0.1:50051''] \<and>
    refuses_all (the (p_service q))"
proof -
  let ?ft = "\<lparr>f_tracing = True, f_metrics = False, f_stdout = True, f_honeycomb = True, f_unix = True\<rparr>"
  let ?w = "demo_world :: (u64 snowflake, u64) basic_snow_gen world"
  let ?c = "demo_config\<lparr>uds := True\<rparr>"
  have c: "config_try_from (demo_args\<lparr>a_uds := True\<rparr>) = Inr ?c"
    by (simp add: config_cases demo_args_def demo_config_def)
  have "telemetry_ok ?ft ?w" "bound ?ft ?w ?c" "unat (shard_offset ?c) + unat (num_workers ?c) \<le> 1024"
    by (simp_all add: telemetry_ok_def init_tracer_def otlp_exporter_def get_honeycomb_metadata_def
        context_err_def demo_world_def bound_def demo_config_def)
  with process_lifecycle [OF c, of ?ft ?w "Inr ()" Release demo_clock 1] show ?thesis
    by (auto simp: telemetry_events_def startup_events_def bind_event_def flush_events_def
        reported_def cleanup_events_def demo_world_def demo_config_def)
qed

text \<open>C32: what a server leaves behind when it does not get that far. Whatever the configuration,
  the environment and the libraries answer: a rejected configuration is reported before anything
  is done; the server serves only on a socket it has bound, with an accepted configuration and
  telemetry set up; a socket file is removed exactly when it was created and the server came to
  an end without a panic; and if a shutdown of the service was begun, its status had been withdrawn
  before, and the service refuses every request.\<close>

theorem process_failures:
  fixes w :: "(u64 snowflake, 't) basic_snow_gen world"
  shows "case main ft b w cm args clock (process_start m) of (r, q) \<Rightarrow>
    (case config_try_from args of
       Inl e \<Rightarrow> r = Finished (Inl e) \<and> p_log q = []
     | Inr c \<Rightarrow>
         (Serve \<in> set (p_log q) \<longrightarrow>
            telemetry_ok ft w \<and> bound ft w c \<and> bind_event c \<in> set (p_log q)) \<and>
         (\<forall>path. RemoveFile path \<in> set (p_log q) \<longleftrightarrow> BindUnix path \<in> set (p_log q) \<and> finished r) \<and>
         (ShutdownService \<in> set (p_log q) \<longrightarrow>
            (\<exists>us vs. p_log q = us @ SetNotServing # ShutdownService # vs) \<and>
            (\<exists>svc. p_service q = Some svc \<and> refuses_all svc)))"
proof (cases "config_try_from args")
  case (Inl e)
  then show ?thesis by (simp add: main_config_err process_start_def)
next
  case (Inr c)
  let ?start = "process_start m :: (u64 snowflake, 't) basic_snow_gen process"
  let ?p = "log_add (telemetry_events ft @ startup_events ft b c)
    (?start\<lparr>p_metrics := metrics_of ft (p_metrics ?start)\<rparr>)"
  note t = telemetry_events_def process_start_def log_add_def
  consider "\<not> telemetry_ok ft w" | "telemetry_ok ft w" "\<not> bound ft w c" | "telemetry_ok ft w" "bound ft w c"
    by blast
  then show ?thesis
  proof cases
    case 1
    from main_telemetry_err [OF Inr this, of b cm clock ?start] Inr show ?thesis by (auto simp: t)
  next
    case 2
    from main_bind_err [OF Inr this, of b cm clock ?start] Inr show ?thesis by (auto simp: t)
  next
    case 3
    have p: "p_log ?p = telemetry_events ft @ startup_events ft b c" by (simp add: t)
    obtain r q where rq: "run_server_with_incoming ft b w cm c clock ?p = (r, q)" by fastforce
    obtain es where es: "p_log q = p_log ?p @ es"
        "\<forall>path. BindUnix path \<notin> set es \<and> RemoveFile path \<notin> set es"
        "ShutdownService \<in> set es \<longrightarrow>
          (\<exists>us vs. es = us @ SetNotServing # ShutdownService # vs) \<and>
          (\<exists>svc. p_service q = Some svc \<and> refuses_all svc)"
      by (rule run_server_events [OF rq])
    have start: "ShutdownService \<notin> set (p_log ?p)" "RemoveFile path \<notin> set (p_log ?p)"
      "bind_event c \<in> set (p_log ?p)"
      "BindUnix path \<in> set (p_log ?p) \<longleftrightarrow> uds c \<and> path = server_addr c" for path
      unfolding p by (auto simp: telemetry_events_def startup_events_def bind_event_def split: if_splits)
    have main: "main ft b w cm args clock ?start = (r, if finished r then log_add (cleanup_events c) q else q)"
      by (rule main_bound [OF Inr 3 rq])
    have log: "p_log (if finished r then log_add (cleanup_events c) q else q) =
        p_log ?p @ es @ (if finished r then cleanup_events c else [])"
      by (simp add: es(1) log_add_def)
    have svc: "p_service (if finished r then log_add (cleanup_events c) q else q) = p_service q"
      by (simp add: log_add_def)
    note socket_removed [OF start(2) start(4) es(2), where good = "finished r"]
    moreover note shutdown_logged [OF start(1) _ es(3), where good = "finished r" and c = c]
    ultimately show ?thesis
      unfolding main Inr prod.case sum.case log svc using 3 start(3) by simp
  qed
qed

theorem process_failures_witness:
  "case main \<lparr>f_tracing = True, f_metrics = True, f_stdout = True, f_honeycomb = False, f_unix = False\<rparr>
      Debug demo_world demo_clock (demo_args\<lparr>a_uds := True\<rparr>) (1 :: u64) (process_start no_metrics) of
    (r, q) \<Rightarrow> Serve \<notin> set (p_log q)"
proof -
  let ?ft = "\<lparr>f_tracing = True, f_metrics = True, f_stdout = True, f_honeycomb = False, f_unix = False\<rparr>"
  let ?w = "demo_world :: (u64 snowflake, u64) basic_snow_gen world"
  let ?c = "demo_config\<lparr>uds := True\<rparr>"
  have c: "config_try_from (demo_args\<lparr>a_uds := True\<rparr>) = Inr ?c"
    by (simp add: config_cases demo_args_def demo_config_def)
  have "\<not> bound ?ft ?w ?c" by (simp add: bound_def)
  with process_failures [where ft = ?ft and b = Debug and w = ?w and cm = demo_clock and
      args = "demo_args\<lparr>a_uds := True\<rparr>" and clock = 1 and m = no_metrics]
  show ?thesis by (auto simp: c split: prod.splits)
qed

end
