(* ===== verification/Pg_Ulid.thy ===== *)
theory Pg_Ulid
  imports Base32 Ulid_Generators
begin

text \<open>
  The PostgreSQL type \<open>ulid\<close> of \<^verbatim>\<open>crates/pg-ferroid/src/lib.rs\<close>: sixteen big-endian
  bytes, with its text and binary input and output, the casts from and to \<open>text\<close>,
  \<open>bytea\<close>, \<open>timestamp\<close> and \<open>timestamptz\<close>, and the generating functions.

  An \<open>i64\<close> is an \<open>int\<close> with its bounds checked by the checked operations. PostgreSQL and
  pgrx are parameters: the conversions between a timestamp and its microseconds, and the reading
  of a message buffer. Every call of \<open>pgrx::error!\<close> is a constructor of \<open>pg_error\<close>. The
  glue that moves the bytes between Rust and server memory is in the theory \<open>Pg_Datum\<close>.
\<close>

subsection \<open>Checked arithmetic on i64\<close>

definition checked_i64 :: "int \<Rightarrow> int option" where
  "checked_i64 v = (if - (2 ^ 63) \<le> v \<and> v < 2 ^ 63 then Some v else None)"

definition i64_checked_mul :: "int \<Rightarrow> int \<Rightarrow> int option" where
  "i64_checked_mul x y = checked_i64 (x * y)"

definition i64_checked_add :: "int \<Rightarrow> int \<Rightarrow> int option" where
  "i64_checked_add x y = checked_i64 (x + y)"

definition i64_checked_sub :: "int \<Rightarrow> int \<Rightarrow> int option" where
  "i64_checked_sub x y = checked_i64 (x - y)"

text \<open>Division truncates towards zero.\<close>

definition i64_checked_div :: "int \<Rightarrow> int \<Rightarrow> int option" where
  "i64_checked_div x y = (if y = 0 then None else checked_i64 (sgn x * sgn y * (\<bar>x\<bar> div \<bar>y\<bar>)))"

definition u128_try_from :: "int \<Rightarrow> u128 option" where
  "u128_try_from v = (if 0 \<le> v \<and> v < 2 ^ 128 then Some (word_of_int v) else None)"

subsection \<open>The stored type\<close>

datatype pg_ulid = PgUlid (as_bytes: bytes)

definition SIZE :: nat where
  "SIZE = be_SIZE TYPE(128)"

definition from_bytes :: "bytes \<Rightarrow> pg_ulid" where
  "from_bytes bytes = PgUlid bytes"

definition to_inner :: "pg_ulid \<Rightarrow> u128 ulid" where
  "to_inner u = ulid_from_raw (from_be_bytes (as_bytes u))"

definition from_inner :: "u128 ulid \<Rightarrow> pg_ulid" where
  "from_inner x = from_bytes (to_be_bytes (ulid_to_raw x))"

text \<open>\<open>timestamp() as i64\<close>: the low 64 bits, read as two's complement.\<close>

definition pg_timestamp :: "pg_ulid \<Rightarrow> int" where
  "pg_timestamp u = sint (ucast (ulid_timestamp ULID (to_inner u)) :: i64)"

instantiation pg_ulid :: linorder
begin

definition less_eq_pg_ulid :: "pg_ulid \<Rightarrow> pg_ulid \<Rightarrow> bool" where
  "less_eq_pg_ulid u v \<longleftrightarrow> as_bytes u \<le> as_bytes v"

definition less_pg_ulid :: "pg_ulid \<Rightarrow> pg_ulid \<Rightarrow> bool" where
  "less_pg_ulid u v \<longleftrightarrow> as_bytes u < as_bytes v"

instance
  by standard (auto simp: less_eq_pg_ulid_def less_pg_ulid_def pg_ulid.expand)

end

subsection \<open>Errors\<close>

datatype pg_error =
    InvalidUlid "u128 ulid base32_error"
  | InvalidUlidText "u128 ulid base32_error"
  | InvalidByteaLength nat nat
  | UlidTimestampOverflow
  | TimestampUnderflow
  | TimestampOutOfRange string
  | InvalidTimestamp string
  | TimestampOverflow
  | BeforeUnixEpoch
  | NullBuffer
  | MessageError string
  | NullArgument

type_synonym 'a pg = "(pg_error + 'a) res"

definition or_error :: "pg_error \<Rightarrow> 'a option \<Rightarrow> pg_error + 'a" where
  "or_error e v = (case v of None \<Rightarrow> Inl e | Some x \<Rightarrow> Inr x)"

subsection \<open>Text\<close>

definition ulid_in :: "bytes \<Rightarrow> pg_ulid pg" where
  "ulid_in input =
     and_then (ulid_decode ULID input) (\<lambda>r. Inr (map_err InvalidUlid (map_ok from_inner r)))"

definition ulid_out :: "build \<Rightarrow> pg_ulid \<Rightarrow> bytes res" where
  "ulid_out b u = map_ok ulid_formatter_as_bytes (ulid_encode b (to_inner u))"

definition pg_display :: "build \<Rightarrow> pg_ulid \<Rightarrow> bytes res" where
  "pg_display b u = and_then (ulid_encode b (to_inner u)) ulid_formatter_as_str"

definition text_to_ulid :: "bytes \<Rightarrow> pg_ulid pg" where
  "text_to_ulid s =
     and_then (ulid_decode ULID s) (\<lambda>r. Inr (map_err InvalidUlidText (map_ok from_inner r)))"

definition ulid_to_text :: "build \<Rightarrow> pg_ulid \<Rightarrow> bytes res" where
  "ulid_to_text b u = and_then (ulid_encode b (to_inner u)) ulid_formatter_as_str"

definition ulid_is_valid :: "bytes \<Rightarrow> bool res" where
  "ulid_is_valid s =
     map_ok is_ok (ulid_decode ULID s :: (u128 ulid base32_error + u128 ulid) res)"

subsection \<open>Generation\<close>

definition gen_ulid ::
  "('t \<Rightarrow> u128 \<times> 't) \<Rightarrow> ('r \<Rightarrow> u128 \<times> 'r) \<Rightarrow> build \<Rightarrow> ('t, 'r) basic_ulid_gen \<Rightarrow>
     pg_ulid res \<times> ('t, 'r) basic_ulid_gen" where
  "gen_ulid current_millis rand b g =
     (let (r, g) = new_ulid current_millis rand b g in (map_ok from_inner r, g))"

definition gen_ulid_mono ::
  "('t \<Rightarrow> u128 \<times> 't) \<Rightarrow> ('r \<Rightarrow> u128 \<times> 'r) \<Rightarrow> build \<Rightarrow> (u128 ulid, 't, 'r) basic_mono_gen \<Rightarrow>
     (pg_ulid res \<times> (u128 ulid, 't, 'r) basic_mono_gen) option" where
  "gen_ulid_mono current_millis rand b g =
     map_option (\<lambda>(r, g, _). (map_ok from_inner r, g)) (new_ulid_mono current_millis rand b g)"

subsection \<open>Casts\<close>

definition PG_EPOCH_OFFSET_MICROS :: int where
  "PG_EPOCH_OFFSET_MICROS = 946684800000000"

definition ulid_to_timestamptz :: "(int \<Rightarrow> string + 'tz) \<Rightarrow> pg_ulid \<Rightarrow> pg_error + 'tz" where
  "ulid_to_timestamptz tz_try_from u =
     (let ms = pg_timestamp u
      in and_then (or_error UlidTimestampOverflow (i64_checked_mul ms 1000)) (\<lambda>unix_micros.
         and_then (or_error TimestampUnderflow (i64_checked_sub unix_micros PG_EPOCH_OFFSET_MICROS))
           (\<lambda>pg_micros. map_err TimestampOutOfRange (tz_try_from pg_micros))))"

definition timestamptz_to_ulid :: "build \<Rightarrow> ('tz \<Rightarrow> string + int) \<Rightarrow> 'tz \<Rightarrow> pg_ulid pg" where
  "timestamptz_to_ulid b tz_try_into ts =
     (case and_then (map_err InvalidTimestamp (tz_try_into ts)) (\<lambda>pg_micros.
           and_then (or_error TimestampOverflow (i64_checked_add pg_micros PG_EPOCH_OFFSET_MICROS))
             (\<lambda>unix_micros. or_error BeforeUnixEpoch
               (case i64_checked_div unix_micros 1000 of None \<Rightarrow> None | Some v \<Rightarrow> u128_try_from v))) of
        Inl e \<Rightarrow> Inr (Inl e)
      | Inr ms \<Rightarrow> map_ok (\<lambda>x. Inr (from_inner x)) (ulid_from_components b ULID ms 0))"

text \<open>The casts for \<open>timestamp\<close> go through \<open>timestamptz\<close>, with pgrx's conversions.\<close>

definition ulid_to_timestamp ::
  "(int \<Rightarrow> string + 'tz) \<Rightarrow> ('tz \<Rightarrow> 'ts) \<Rightarrow> pg_ulid \<Rightarrow> pg_error + 'ts" where
  "ulid_to_timestamp tz_try_from into u = map_ok into (ulid_to_timestamptz tz_try_from u)"

definition timestamp_to_ulid ::
  "build \<Rightarrow> ('tz \<Rightarrow> string + int) \<Rightarrow> ('ts \<Rightarrow> 'tz) \<Rightarrow> 'ts \<Rightarrow> pg_ulid pg" where
  "timestamp_to_ulid b tz_try_into into ts = timestamptz_to_ulid b tz_try_into (into ts)"

definition bytea_to_ulid :: "bytes \<Rightarrow> pg_error + pg_ulid" where
  "bytea_to_ulid bytes =
     (if length bytes = SIZE then Inr (from_bytes bytes)
      else Inl (InvalidByteaLength SIZE (length bytes)))"

definition ulid_to_bytea :: "pg_ulid \<Rightarrow> bytes" where
  "ulid_to_bytea u = take SIZE (as_bytes u)"

subsection \<open>Binary protocol\<close>

definition ulid_recv ::
  "(nat \<Rightarrow> 'buf \<Rightarrow> string + bytes \<times> 'buf) \<Rightarrow> ('buf \<Rightarrow> string + unit) \<Rightarrow> 'buf option \<Rightarrow>
     pg_error + pg_ulid" where
  "ulid_recv pq_getmsgbytes pq_getmsgend internal =
     and_then (or_error NullBuffer internal) (\<lambda>buf.
     and_then (map_err MessageError (pq_getmsgbytes SIZE buf)) (\<lambda>(out, buf).
     and_then (map_err MessageError (pq_getmsgend buf)) (\<lambda>_. Inr (from_bytes out))))"

definition ulid_send :: "pg_ulid \<Rightarrow> bytes" where
  "ulid_send u = ulid_to_bytea u"

subsection \<open>Stored values\<close>

text \<open>What a column holds: sixteen bytes, which are those of exactly one ULID.\<close>

definition pg_ok :: "pg_ulid \<Rightarrow> bool" where
  "pg_ok u \<longleftrightarrow> length (as_bytes u) = SIZE"

lemma SIZE_16: "SIZE = 16"
  by (simp add: SIZE_def be_SIZE_def)

lemma inner_roundtrip: "to_inner (from_inner x) = x"
  by (simp add: to_inner_def from_inner_def from_bytes_def ulid_from_raw_def from_to_be_bytes)

lemma stored_roundtrip: "pg_ok u \<Longrightarrow> from_inner (to_inner u) = u"
  by (simp add: to_inner_def from_inner_def from_bytes_def ulid_from_raw_def pg_ok_def SIZE_def
      to_from_be_bytes)

lemma from_inner_ok: "pg_ok (from_inner x)"
  by (simp add: pg_ok_def from_inner_def from_bytes_def SIZE_def)

lemma stored_less_iff:
  assumes "pg_ok u" and "pg_ok v"
  shows "u < v \<longleftrightarrow> to_inner u < to_inner v"
proof -
  have "from_inner x < from_inner y \<longleftrightarrow> x < y" for x y
    by (simp add: less_pg_ulid_def from_inner_def from_bytes_def to_be_bytes_less_iff less_ulid_def)
  then show ?thesis by (metis assms stored_roundtrip)
qed

lemma decode_encoded: "ulid_decode ULID (canonical_text (ulid_to_raw x)) = Inr (Inr (x :: u128 ulid))"
  by (simp add: ulid128_text.decode_canonical ULID_always_valid)

lemma encode_text:
  "ulid_encode b (x :: u128 ulid) = Inr (UlidFormatter (canonical_text (ulid_to_raw x)))"
  by (simp add: ulid_encode_def ulid128_text.formatter_new_eq)

lemma to_text_eq: "ulid_to_text b u = Inr (canonical_text (ulid_to_raw (to_inner u)))"
  using ulid128_text.to_string_eq [of b "to_inner u"]
  by (simp add: ulid_to_text_def ulid_to_string_def)

lemma ulid_out_eq: "ulid_out b u = Inr (canonical_text (ulid_to_raw (to_inner u)))"
  by (simp add: ulid_out_def encode_text ulid_formatter_as_bytes_def)

subsection \<open>Timestamps\<close>

lemma timestamp_below: "unat (ulid_timestamp ULID (x :: u128 ulid)) < 2 ^ 48"
  using ulid128.field_bounds(1) [of x] by (simp add: ULID_def)

lemma fits_i64: "n < 2 ^ 48 \<Longrightarrow> - (2 ^ 63) \<le> int n \<and> int n < 2 ^ 63"
  by simp

lemma pg_timestamp_eq:
  "pg_timestamp u = int (unat (ulid_timestamp ULID (to_inner u)))"
proof -
  let ?t = "ulid_timestamp ULID (to_inner u)"
  have t: "unat ?t < 2 ^ 48" by (rule timestamp_below)
  have "uint (ucast ?t :: i64) = take_bit 64 (uint ?t)" by (simp add: unsigned_ucast_eq)
  also have "\<dots> = int (take_bit 64 (unat ?t))" by (simp add: of_nat_take_bit)
  also have "take_bit 64 (unat ?t) = unat ?t" using t by (simp add: take_bit_nat_eq_self)
  finally have "sint (ucast ?t :: i64) = signed_take_bit 63 (int (unat ?t))"
    by (simp add: sint_uint)
  also have "\<dots> = int (unat ?t)"
    using fits_i64 [OF t] by (simp only: signed_take_bit_int_eq_self_iff)
  finally show ?thesis by (simp add: pg_timestamp_def)
qed

lemma to_timestamptz_eq:
  "ulid_to_timestamptz tz_try_from u = map_err TimestampOutOfRange
     (tz_try_from (pg_timestamp u * 1000 - PG_EPOCH_OFFSET_MICROS))"
proof -
  obtain n where n: "pg_timestamp u = int n" "n < 2 ^ 48"
    using pg_timestamp_eq timestamp_below by metis
  then show ?thesis
    by (simp add: ulid_to_timestamptz_def Let_def i64_checked_mul_def i64_checked_sub_def
        checked_i64_def or_error_def PG_EPOCH_OFFSET_MICROS_def)
qed

text \<open>The milliseconds of a point in time: truncated towards the epoch, an error below it.\<close>

lemma u128_of_micros:
  fixes micros :: int
  assumes "- (2 ^ 63) \<le> micros" and "micros < 2 ^ 63"
  shows "(case i64_checked_div micros 1000 of None \<Rightarrow> None | Some v \<Rightarrow> u128_try_from v) =
    (if micros \<le> - 1000 then None else Some (word_of_nat (nat micros div 1000)))"
proof (cases "micros < 0")
  case True
  let ?q = "\<bar>micros\<bar> div 1000"
  have q: "0 \<le> ?q" "?q \<le> 2 ^ 63" using assms True by linarith+
  have "1000 \<le> \<bar>micros\<bar> \<longleftrightarrow> 0 < ?q" using pos_imp_zdiv_pos_iff [of 1000 "\<bar>micros\<bar>"] by simp
  then have "micros \<le> - 1000 \<longleftrightarrow> 0 < ?q" using True by linarith
  with True q show ?thesis
    by (auto simp: i64_checked_div_def checked_i64_def u128_try_from_def)
next
  case False
  then obtain m where m: "micros = int m" by (metis int_nat_eq not_less)
  let ?k = "m div 1000"
  have "int m < 2 ^ 63" using assms(2) m by simp
  then have k: "int ?k < 2 ^ 63" by (simp add: zdiv_int)
  have "sgn micros * sgn 1000 * (\<bar>micros\<bar> div \<bar>1000\<bar>) = int ?k"
    by (cases "m = 0") (simp_all add: m zdiv_int)
  then have "i64_checked_div micros 1000 = Some (int ?k)"
    using k by (simp add: i64_checked_div_def checked_i64_def)
  moreover have "u128_try_from (int ?k) = Some (word_of_nat ?k)"
    using k by (simp add: u128_try_from_def)
  ultimately show ?thesis by (simp add: m)
qed

lemma text_facts:
  fixes r :: u128
  shows "length (canonical_text r) = 26" and "0 \<notin> set (canonical_text r)"
proof -
  show "length (canonical_text r) = 26"
    by (simp add: canonical_text_def be_BASE32_SIZE_def base32_size_def be_SIZE_def)
  have "\<forall>c \<in> set ENCODE_LUT. c \<noteq> 0" by code_simp
  then have "ENCODE_LUT ! d \<noteq> 0" if "d < 32" for d using that by simp
  then show "0 \<notin> set (canonical_text r)"
    using radix32.digits_below by (fastforce simp: canonical_text_def chars_def)
qed

lemma from_components_zero_random:
  fixes t :: u128
  shows "if b = Debug \<and> 2 ^ 48 \<le> unat t
    then ulid_from_components b ULID t 0 = Inl (Panic ''timestamp overflow'')
    else \<exists>x. ulid_from_components b ULID t 0 = Inr x \<and>
      unat (ulid_timestamp ULID x) = unat t mod 2 ^ 48 \<and> ulid_random ULID x = 0"
proof -
  have "(t \<le> U_TIMESTAMP_MASK ULID) = (unat t < 2 ^ 48)"
    using ulid128.timestamp_in_range_iff [of t] by (simp add: ULID_def)
  moreover have "\<exists>x. ulid_from_components b ULID t 0 = Inr x" if "\<not> (b = Debug \<and> 2 ^ 48 \<le> unat t)"
    using that calculation by (cases b) (simp_all add: ulid_from_components_def Let_def)
  ultimately show ?thesis
    using ulid128.fields_from_components [of b t 0]
    by (auto simp: ulid_from_components_def debug_assert_def unat_take_bit ULID_def)
qed

lemma rebuild_ULID:
  fixes x :: "u128 ulid"
  shows "ulid_from_components b ULID (ulid_timestamp ULID x) (ulid_random ULID x) = Inr x"
proof -
  have "unat (ulid_timestamp ULID x) < 2 ^ u_timestamp_bits ULID"
    by (rule ulid128.field_bounds(1))
  from ulid128.from_components_ok [OF this, of b "ulid_random ULID x"] obtain y where
    y: "ulid_from_components b ULID (ulid_timestamp ULID x) (ulid_random ULID x) = Inr y" by metis
  have "unat (ulid_to_raw y) = unat (ulid_to_raw x)"
    using ulid128.raw_from_components [OF y] ulid128.value_of_valid [OF ULID_always_valid [of x]]
      ulid128.field_bounds [of x] by simp
  then have "y = x" by (simp add: ulid.expand word_unat_eq_iff)
  with y show ?thesis by simp
qed

subsection \<open>Properties\<close>

text \<open>C38: the representations of a stored \<open>ulid\<close>. Its text is a C string of 26 characters without
  an interior NUL, the same from the output function and the cast; reading it back with the input
  function or the cast gives the value, and \<open>ulid_is_valid\<close> accepts it; so do \<open>bytea\<close> and
  the binary protocol, for any message reader that returns the sixteen bytes it was sent and then
  reports the end of the message. The byte order that the B-tree index uses is the order of the
  ULIDs.\<close>

theorem pg_ulid_representations:
  assumes "pg_ok u" and "pg_ok v"
    and "pq_getmsgbytes 16 buf = Inr (ulid_send u, buf')" and "pq_getmsgend buf' = Inr ()"
  shows "(\<exists>s. ulid_out b u = Inr s \<and> ulid_to_text b u = Inr s \<and> length s = 26 \<and> 0 \<notin> set s \<and>
      ulid_in s = Inr (Inr u) \<and> text_to_ulid s = Inr (Inr u) \<and> ulid_is_valid s = Inr True) \<and>
    bytea_to_ulid (ulid_to_bytea u) = Inr u \<and>
    ulid_recv pq_getmsgbytes pq_getmsgend (Some buf) = Inr u \<and>
    from_inner (to_inner u) = u \<and> (u < v \<longleftrightarrow> to_inner u < to_inner v)"
proof -
  have send: "ulid_to_bytea u = as_bytes u" "length (as_bytes u) = SIZE"
    using assms(1) by (simp_all add: ulid_to_bytea_def pg_ok_def)
  then have "ulid_recv pq_getmsgbytes pq_getmsgend (Some buf) = Inr u"
    using assms(3,4) by (simp add: ulid_recv_def or_error_def SIZE_16 ulid_send_def from_bytes_def)
  moreover have "bytea_to_ulid (ulid_to_bytea u) = Inr u"
    using send by (simp add: bytea_to_ulid_def from_bytes_def)
  moreover have "ulid_in (canonical_text (ulid_to_raw (to_inner u))) = Inr (Inr u)"
    "text_to_ulid (canonical_text (ulid_to_raw (to_inner u))) = Inr (Inr u)"
    by (simp_all add: ulid_in_def text_to_ulid_def decode_encoded stored_roundtrip [OF assms(1)])
  ultimately show ?thesis
    using stored_roundtrip [OF assms(1)] stored_less_iff [OF assms(1,2)] text_facts
    by (simp add: ulid_out_eq to_text_eq ulid_is_valid_def decode_encoded)
qed

theorem pg_ulid_representations_witness:
  "bytea_to_ulid (ulid_to_bytea (PgUlid [1, 2, 3, 4, 5, 6, 7, 8, 9, 10, 11, 12, 13, 14, 15, 16])) =
     Inr (PgUlid [1, 2, 3, 4, 5, 6, 7, 8, 9, 10, 11, 12, 13, 14, 15, 16]) \<and>
   ulid_recv (\<lambda>n buf. Inr (take n buf, drop n buf))
       (\<lambda>buf. if buf = [] then Inr () else Inl ''invalid message format'')
       (Some [1, 2, 3, 4, 5, 6, 7, 8, 9, 10, 11, 12, 13, 14, 15, 16]) =
     Inr (PgUlid [1, 2, 3, 4, 5, 6, 7, 8, 9, 10, 11, 12, 13, 14, 15, 16])"
proof -
  let ?bs = "[1, 2, 3, 4, 5, 6, 7, 8, 9, 10, 11, 12, 13, 14, 15, 16] :: bytes"
  have "pg_ok (PgUlid ?bs)" "ulid_send (PgUlid ?bs) = ?bs"
    by (simp_all add: pg_ok_def SIZE_16 ulid_send_def ulid_to_bytea_def)
  with pg_ulid_representations [of "PgUlid ?bs" "PgUlid ?bs" "\<lambda>n buf. Inr (take n buf, drop n buf)" ?bs "[]"
      "\<lambda>buf. if buf = [] then Inr () else Inl ''invalid message format''"]
  show ?thesis by simp
qed

text \<open>C39: the casts between \<open>ulid\<close> and \<open>timestamptz\<close>, for any conversion pair of the server
  in which reading the microseconds of a timestamp gives those it was made from. From \<open>ulid\<close>
  the arithmetic never overflows. Towards \<open>ulid\<close>, microseconds whose sum with the epoch offset
  does not fit give an error, and so do points in time a millisecond or more before 1970; any
  other becomes the ULID with the truncated millisecond and a zero random part, with the
  millisecond kept modulo \<open>2 ^ 48\<close> by a release build and refused by a panic of a debug
  build.\<close>

theorem timestamptz_casts:
  assumes "\<And>m y. tz_try_from m = Inr y \<Longrightarrow> tz_try_into y = Inr m"
    and "- (2 ^ 63) \<le> micros" and "micros < 2 ^ 63" and "tz_try_into ts = Inr micros"
  shows "(let unix = micros + PG_EPOCH_OFFSET_MICROS; ms = nat unix div 1000 in
      if 2 ^ 63 \<le> unix then timestamptz_to_ulid b tz_try_into ts = Inr (Inl TimestampOverflow)
      else if unix \<le> - 1000 then timestamptz_to_ulid b tz_try_into ts = Inr (Inl BeforeUnixEpoch)
      else if b = Debug \<and> 2 ^ 48 \<le> ms
        then timestamptz_to_ulid b tz_try_into ts = Inl (Panic ''timestamp overflow'')
      else \<exists>u. timestamptz_to_ulid b tz_try_into ts = Inr (Inr u) \<and> pg_ok u \<and>
        pg_timestamp u = int (ms mod 2 ^ 48) \<and> ulid_random ULID (to_inner u) = 0) \<and>
    (case ulid_to_timestamptz tz_try_from u of
       Inl e \<Rightarrow> \<exists>msg. e = TimestampOutOfRange msg
     | Inr tz \<Rightarrow> tz_try_into tz = Inr (pg_timestamp u * 1000 - PG_EPOCH_OFFSET_MICROS))"
proof -
  let ?unix = "micros + PG_EPOCH_OFFSET_MICROS"
  let ?ms = "word_of_nat (nat ?unix div 1000) :: u128"
  have from_ulid: "case ulid_to_timestamptz tz_try_from u of
       Inl e \<Rightarrow> \<exists>msg. e = TimestampOutOfRange msg
     | Inr tz \<Rightarrow> tz_try_into tz = Inr (pg_timestamp u * 1000 - PG_EPOCH_OFFSET_MICROS)"
    using assms(1) by (cases "tz_try_from (pg_timestamp u * 1000 - PG_EPOCH_OFFSET_MICROS)")
      (simp_all add: to_timestamptz_eq)
  have low: "- (2 ^ 63) \<le> ?unix" using assms(2) by (simp add: PG_EPOCH_OFFSET_MICROS_def)
  have over: "timestamptz_to_ulid b tz_try_into ts = Inr (Inl TimestampOverflow)" if "2 ^ 63 \<le> ?unix"
    using that by (simp add: timestamptz_to_ulid_def assms(4) i64_checked_add_def checked_i64_def
        or_error_def)
  have fits: "timestamptz_to_ulid b tz_try_into ts =
      (if ?unix \<le> - 1000 then Inr (Inl BeforeUnixEpoch)
       else map_ok (\<lambda>x. Inr (from_inner x)) (ulid_from_components b ULID ?ms 0))"
    if "\<not> 2 ^ 63 \<le> ?unix"
    using that low u128_of_micros [OF low]
    by (simp add: timestamptz_to_ulid_def assms(4) i64_checked_add_def checked_i64_def or_error_def)
  have ms: "unat ?ms = nat ?unix div 1000" if "\<not> 2 ^ 63 \<le> ?unix"
  proof -
    have "nat ?unix < 2 ^ 63" using that by (simp add: nat_less_iff)
    then have "nat ?unix div 1000 < 2 ^ 128" by simp
    then show ?thesis by (simp add: unat_of_nat)
  qed
  have "if b = Debug \<and> 2 ^ 48 \<le> nat ?unix div 1000
      then timestamptz_to_ulid b tz_try_into ts = Inl (Panic ''timestamp overflow'')
      else \<exists>u. timestamptz_to_ulid b tz_try_into ts = Inr (Inr u) \<and> pg_ok u \<and>
        pg_timestamp u = int (nat ?unix div 1000 mod 2 ^ 48) \<and> ulid_random ULID (to_inner u) = 0"
    if r: "\<not> 2 ^ 63 \<le> ?unix" "\<not> ?unix \<le> - 1000"
    using fits [OF r(1)] r(2) from_components_zero_random [of b ?ms, unfolded ms [OF r(1)]]
    by (auto simp: from_inner_ok pg_timestamp_eq inner_roundtrip simp del: of_nat_unat)
  with from_ulid show ?thesis
    unfolding Let_def using over fits by (metis (no_types, lifting))
qed

theorem timestamptz_casts_witness:
  "timestamptz_to_ulid Debug Inr (- 946684800001000 :: int) = Inr (Inl BeforeUnixEpoch) \<and>
   (\<exists>u. timestamptz_to_ulid Debug Inr (- 946684800000999 :: int) = Inr (Inr u) \<and> pg_timestamp u = 0) \<and>
   timestamptz_to_ulid Debug Inr (2 ^ 62 :: int) = Inl (Panic ''timestamp overflow'')"
proof -
  have e: "PG_EPOCH_OFFSET_MICROS = 946684800000000" by (simp add: PG_EPOCH_OFFSET_MICROS_def)
  note casts = timestamptz_casts [where tz_try_from = Inr and tz_try_into = Inr and b = Debug,
      unfolded e Let_def]
  have "timestamptz_to_ulid Debug Inr (- 946684800001000 :: int) = Inr (Inl BeforeUnixEpoch)"
    using casts [of "- 946684800001000" "- 946684800001000"] by simp
  moreover have "\<exists>u. timestamptz_to_ulid Debug Inr (- 946684800000999 :: int) = Inr (Inr u) \<and>
      pg_timestamp u = 0"
    using casts [of "- 946684800000999" "- 946684800000999"] by auto
  moreover have "timestamptz_to_ulid Debug Inr (2 ^ 62 :: int) = Inl (Panic ''timestamp overflow'')"
    using casts [of "2 ^ 62" "2 ^ 62"] by simp
  ultimately show ?thesis by simp
qed

text \<open>A ULID with a zero random part survives the cast to \<open>timestamptz\<close> and back, in both
  builds, whenever the server can represent its point in time.\<close>

lemma timestamptz_roundtrip:
  assumes "\<And>m y. tz_try_from m = Inr y \<Longrightarrow> tz_try_into y = Inr m" and "pg_ok u"
    and "ulid_random ULID (to_inner u) = 0" and "ulid_to_timestamptz tz_try_from u = Inr tz"
  shows "timestamptz_to_ulid b tz_try_into tz = Inr (Inr u)"
proof -
  let ?n = "unat (ulid_timestamp ULID (to_inner u))"
  have n: "?n < 2 ^ 48" by (rule timestamp_below)
  have "tz_try_from (int ?n * 1000 - PG_EPOCH_OFFSET_MICROS) = Inr tz"
    using assms(4) by (auto simp: to_timestamptz_eq pg_timestamp_eq map_err_def split: sum.splits)
  then have into: "tz_try_into tz = Inr (int ?n * 1000 - PG_EPOCH_OFFSET_MICROS)" by (rule assms(1))
  have bound: "- (2 ^ 63) \<le> int k * 1000" "int k * 1000 < 2 ^ 63" if "k < 2 ^ 48" for k
    using that by simp_all
  have div: "nat (int k * 1000) div 1000 = k" for k by (simp add: nat_mult_distrib)
  have "timestamptz_to_ulid b tz_try_into tz =
      map_ok (\<lambda>x. Inr (from_inner x)) (ulid_from_components b ULID (word_of_nat ?n) 0)"
    using u128_of_micros [OF bound [OF n]] bound [OF n] div [of ?n]
    by (simp add: timestamptz_to_ulid_def into i64_checked_add_def checked_i64_def or_error_def
        del: of_nat_unat)
  also have "word_of_nat ?n = ulid_timestamp ULID (to_inner u)" by simp
  also have "ulid_from_components b ULID (ulid_timestamp ULID (to_inner u)) 0 = Inr (to_inner u)"
    using rebuild_ULID [of b "to_inner u"] assms(3) by simp
  finally show ?thesis by (simp add: stored_roundtrip [OF assms(2)])
qed

lemma timestamptz_roundtrip_witness:
  "timestamptz_to_ulid Release Inr (- 946684800000000 :: int) = Inr (Inr (PgUlid (replicate 16 0)))"
proof -
  have z: "to_inner (PgUlid (replicate 16 0)) = Ulid 0" by code_simp
  have "pg_timestamp (PgUlid (replicate 16 0)) = 0"
    by (simp add: pg_timestamp_eq z ulid_timestamp_def)
  then have "ulid_to_timestamptz Inr (PgUlid (replicate 16 0)) = Inr (- 946684800000000)"
    by (simp add: to_timestamptz_eq PG_EPOCH_OFFSET_MICROS_def)
  then show ?thesis
    by (intro timestamptz_roundtrip [where tz_try_from = Inr])
      (simp_all add: pg_ok_def SIZE_16 z ulid_random_def)
qed

end
