(* ===== verification/Pg_Datum.thy ===== *)
theory Pg_Datum
  imports Pg_Ulid
begin

text \<open>
  The glue of \<^verbatim>\<open>crates/pg-ferroid/src/lib.rs\<close> between a \<open>ulid\<close> value and the server's
  memory: \<open>FromDatum\<close>, \<open>IntoDatum\<close>, \<open>ArgAbi\<close> and \<open>BoxRet\<close>. A datum is an address; the
  memory is a partial map from addresses to bytes, and a read of an address that is not
  allocated is undefined. The server's allocator is the parameter \<open>palloc\<close>: what it promises
  is the predicate \<open>palloc_ok\<close>, which says that the returned block was free and that nothing
  else changes.
\<close>

type_synonym pg_memory = "nat \<rightharpoonup> u8"

subsection \<open>Memory\<close>

definition read_bytes :: "pg_memory \<Rightarrow> nat \<Rightarrow> nat \<Rightarrow> bytes option" where
  "read_bytes mem ptr n =
     (if list_all (\<lambda>i. mem (ptr + i) \<noteq> None) [0..<n]
      then Some (map (\<lambda>i. the (mem (ptr + i))) [0..<n]) else None)"

definition write_bytes :: "pg_memory \<Rightarrow> nat \<Rightarrow> bytes \<Rightarrow> pg_memory" where
  "write_bytes mem ptr bs =
     (\<lambda>a. if ptr \<le> a \<and> a < ptr + length bs then Some (bs ! (a - ptr)) else mem a)"

text \<open>What the server's allocator promises for a block of \<open>n\<close> bytes.\<close>

definition palloc_ok :: "(nat \<Rightarrow> pg_memory \<Rightarrow> nat \<times> pg_memory) \<Rightarrow> nat \<Rightarrow> pg_memory \<Rightarrow> bool" where
  "palloc_ok palloc n mem \<longleftrightarrow>
     (case palloc n mem of
        (ptr, mem') \<Rightarrow>
          (\<forall>i < n. mem (ptr + i) = None \<and> mem' (ptr + i) \<noteq> None) \<and>
          (\<forall>a. mem a \<noteq> None \<longrightarrow> mem' a = mem a))"

subsection \<open>Datum glue\<close>

definition from_polymorphic_datum :: "pg_memory \<Rightarrow> nat \<Rightarrow> bool \<Rightarrow> pg_ulid option res" where
  "from_polymorphic_datum mem datum is_null =
     (if is_null then Inr None
      else case read_bytes mem datum SIZE of
             None \<Rightarrow> Inl (Undefined ''read outside the allocated memory'')
           | Some bytes \<Rightarrow> Inr (Some (from_bytes bytes)))"

text \<open>The write goes to the block that \<open>palloc_struct\<close> has just allocated.\<close>

definition into_datum ::
  "(nat \<Rightarrow> pg_memory \<Rightarrow> nat \<times> pg_memory) \<Rightarrow> pg_ulid \<Rightarrow> pg_memory \<Rightarrow> nat option \<times> pg_memory" where
  "into_datum palloc u mem =
     (let (raw, mem) = palloc SIZE mem
      in (Some raw, write_bytes mem raw (as_bytes u)))"

definition unbox_arg_unchecked :: "pg_memory \<Rightarrow> nat \<Rightarrow> bool \<Rightarrow> pg_ulid pg" where
  "unbox_arg_unchecked mem datum is_null =
     map_ok (or_error NullArgument) (from_polymorphic_datum mem datum is_null)"

text \<open>The datum returned to the server, or SQL \<open>NULL\<close>.\<close>

definition box_into ::
  "(nat \<Rightarrow> pg_memory \<Rightarrow> nat \<times> pg_memory) \<Rightarrow> pg_ulid \<Rightarrow> pg_memory \<Rightarrow> nat option \<times> pg_memory" where
  "box_into palloc u mem =
     (case into_datum palloc u mem of
        (Some datum, mem) \<Rightarrow> (Some datum, mem)
      | (None, mem) \<Rightarrow> (None, mem))"

subsection \<open>Reading what was written\<close>

lemma read_bytes_eq:
  "read_bytes mem ptr n = Some bs \<longleftrightarrow> length bs = n \<and> (\<forall>i < n. mem (ptr + i) = Some (bs ! i))"
proof
  assume "read_bytes mem ptr n = Some bs"
  then have d: "\<forall>i < n. mem (ptr + i) \<noteq> None" "bs = map (\<lambda>i. the (mem (ptr + i))) [0..<n]"
    by (auto simp: read_bytes_def list_all_iff split: if_splits)
  then show "length bs = n \<and> (\<forall>i < n. mem (ptr + i) = Some (bs ! i))" by auto
next
  assume d: "length bs = n \<and> (\<forall>i < n. mem (ptr + i) = Some (bs ! i))"
  then have "map (\<lambda>i. the (mem (ptr + i))) [0..<n] = bs" by (intro nth_equalityI) auto
  with d show "read_bytes mem ptr n = Some bs" by (auto simp: read_bytes_def list_all_iff)
qed

lemma read_written: "length bs = n \<Longrightarrow> read_bytes (write_bytes mem ptr bs) ptr n = Some bs"
  by (simp add: read_bytes_eq write_bytes_def)

text \<open>A block that was readable before stays as it is.\<close>

lemma into_datum_frame:
  assumes "palloc_ok palloc SIZE mem" and "into_datum palloc u mem = (d, mem')" and "pg_ok u"
    and "read_bytes mem ptr n = Some bs"
  shows "read_bytes mem' ptr n = Some bs"
proof -
  obtain raw mem1 where p: "palloc SIZE mem = (raw, mem1)" by fastforce
  have len: "length (as_bytes u) = SIZE" using assms(3) by (simp add: pg_ok_def SIZE_16)
  have "mem' (ptr + i) = Some (bs ! i)" if "i < n" for i
  proof -
    have old: "mem (ptr + i) = Some (bs ! i)" using assms(4) that by (simp add: read_bytes_eq)
    have free: "mem (raw + j) = None" if "j < SIZE" for j
      using assms(1) that by (simp add: palloc_ok_def p)
    have "\<not> (raw \<le> ptr + i \<and> ptr + i < raw + SIZE)"
      using free [of "ptr + i - raw"] old by (auto simp: less_diff_conv2)
    moreover have "mem1 (ptr + i) = Some (bs ! i)" using assms(1) old by (simp add: palloc_ok_def p)
    ultimately show ?thesis using assms(2) by (auto simp: into_datum_def p write_bytes_def len)
  qed
  then show ?thesis using assms(4) by (simp add: read_bytes_eq)
qed

lemma into_datum_readable:
  assumes "into_datum palloc u mem = (d, mem')" and "pg_ok u"
  obtains ptr where "d = Some ptr" "read_bytes mem' ptr SIZE = Some (as_bytes u)"
proof -
  obtain raw mem1 where p: "palloc SIZE mem = (raw, mem1)" by fastforce
  have "length (as_bytes u) = SIZE" using assms(2) by (simp add: pg_ok_def SIZE_16)
  with assms(1) show thesis
    by (intro that [of raw]) (auto simp: into_datum_def p read_written)
qed

text \<open>C40: a value survives its way through the server's memory. Whatever block the allocator hands
  out, as long as it was free: the datum that a function returns for a \<open>ulid\<close> is read back by the
  next function as that value, now and after any later value is stored; everything that was in
  memory before reads as before; a \<open>NULL\<close> argument is an error and reads nothing.\<close>

theorem pg_datum_roundtrip:
  assumes "pg_ok u" and "pg_ok v" and "palloc_ok palloc SIZE mem"
    and "box_into palloc u mem = (d, mem1)" and "palloc_ok palloc SIZE mem1"
    and "box_into palloc v mem1 = (e, mem2)"
  shows "\<exists>p q. d = Some p \<and> e = Some q \<and>
    unbox_arg_unchecked mem1 p False = Inr (Inr u) \<and>
    unbox_arg_unchecked mem2 p False = Inr (Inr u) \<and> unbox_arg_unchecked mem2 q False = Inr (Inr v) \<and>
    (\<forall>ptr n bs. read_bytes mem ptr n = Some bs \<longrightarrow> read_bytes mem2 ptr n = Some bs) \<and>
    unbox_arg_unchecked mem2 p True = Inr (Inl NullArgument)"
proof -
  have box: "into_datum palloc u mem = (d, mem1)" "into_datum palloc v mem1 = (e, mem2)"
    using assms(4,6) by (auto simp: box_into_def split: prod.splits option.splits)
  obtain p where p: "d = Some p" "read_bytes mem1 p SIZE = Some (as_bytes u)"
    by (rule into_datum_readable [OF box(1) assms(1)])
  obtain q where q: "e = Some q" "read_bytes mem2 q SIZE = Some (as_bytes v)"
    by (rule into_datum_readable [OF box(2) assms(2)])
  note frame = into_datum_frame [OF assms(3) box(1) assms(1)] into_datum_frame [OF assms(5) box(2) assms(2)]
  have "read_bytes mem2 p SIZE = Some (as_bytes u)" by (rule frame(2) [OF p(2)])
  with p q frame show ?thesis
    by (auto simp: unbox_arg_unchecked_def from_polymorphic_datum_def or_error_def from_bytes_def)
qed

text \<open>An allocator that counts up, for a memory whose first \<open>1000\<close> addresses are in use.\<close>

definition bump_palloc :: "nat \<Rightarrow> pg_memory \<Rightarrow> nat \<times> pg_memory" where
  "bump_palloc n mem =
     (if mem 1000 = None then (1000, write_bytes mem 1000 (replicate n 0))
      else (2000, write_bytes mem 2000 (replicate n 0)))"

theorem pg_datum_roundtrip_witness:
  "\<exists>d e p mem1 mem2. box_into bump_palloc (PgUlid (replicate 16 7)) (\<lambda>_. None) = (d, mem1) \<and>
    box_into bump_palloc (PgUlid (replicate 16 8)) mem1 = (e, mem2) \<and> d = Some p \<and>
    unbox_arg_unchecked mem2 p False = Inr (Inr (PgUlid (replicate 16 7)))"
proof -
  let ?u = "PgUlid (replicate 16 7)" and ?v = "PgUlid (replicate 16 8)"
  have ok: "pg_ok ?u" "pg_ok ?v" by (simp_all add: pg_ok_def SIZE_16)
  obtain d mem1 where one: "box_into bump_palloc ?u (\<lambda>_. None) = (d, mem1)" by fastforce
  obtain e mem2 where two: "box_into bump_palloc ?v mem1 = (e, mem2)" by fastforce
  have mem1: "mem1 = write_bytes (write_bytes (\<lambda>_. None) 1000 (replicate 16 0)) 1000 (replicate 16 7)"
    using one by (simp add: box_into_def into_datum_def bump_palloc_def SIZE_16)
  have "palloc_ok bump_palloc SIZE (\<lambda>_. None)" "palloc_ok bump_palloc SIZE mem1"
    by (auto simp: palloc_ok_def bump_palloc_def write_bytes_def SIZE_16 mem1)
  from pg_datum_roundtrip [OF ok this(1) one this(2) two] one two show ?thesis by blast
qed

end
