(* ===== verification/Spec2Isabelle.thy ===== *)
theory Spec2Isabelle
  imports Base32 Concurrent_Generators Generator_Traits Clock Async_Ext Text_Views Server_Properties
    Service_Clock Server_Process Pg_Datum
begin

text \<open>
  \<^bold>\<open>Ferroid: time-ordered unique identifiers.\<close> The repository is a Rust workspace.
  The crate \<open>ferroid\<close> has identifier types (Snowflake layouts and ULID), generators that turn
  clock readings into identifiers, their Crockford Base32 text, a monotonic clock, asynchronous
  and serde front ends. \<open>ferroid-tonic-server\<close> is a gRPC server that streams identifiers from
  a pool of workers, each with a generator of its own; \<open>ferroid-tonic-core\<close> holds its common
  types. \<open>pg-ferroid\<close> is a PostgreSQL type. This development is a shallow embedding of that
  code: one definition per function or method, with the code's names, and the theorems that make
  it correct. Paths below are relative to \<^verbatim>\<open>src/crates/\<close>.

  \<^bold>\<open>Conventions\<close> (theory \<open>Prelude\<close>). Machine integers are words that wrap around.
  A \<open>build\<close> is \<open>Debug\<close>, with overflow checks and debug assertions, or \<open>Release\<close>,
  without. A panic and undefined behaviour are values of \<open>fault\<close>; \<open>'a res\<close> is a fault or a
  result, and a Rust \<open>Result\<close> is a sum inside it. State is passed explicitly. A loop that
  waits for the clock is a \<open>partial_function (option)\<close> whose value \<open>None\<close> means that it
  does not return; that it returns is proved, never assumed. There is no fuel. Code outside the
  repository is a parameter: the clock of a generator, the random source, sleeps, channels, data
  formats, and the functions of PostgreSQL.

  \<^bold>\<open>Identifiers\<close>. \<open>Snowflake_Id\<close> (\<^verbatim>\<open>ferroid/src/id/snowflake.rs\<close>) and
  \<open>Ulid_Id\<close> (\<^verbatim>\<open>id/ulid.rs\<close>) model what the two macros generate for any layout, and the
  layouts that are shipped: packing and unpacking of fields, validity, increments and rollovers,
  order. Both provide the interface \<open>time_sorted_id\<close> of \<open>Id_Interface\<close>: identifiers of one
  origin compare by time first. \<open>Be_Bytes\<close> (\<^verbatim>\<open>id/be_bytes.rs\<close>) has the byte
  conversions, proved against the positional notation of \<open>Positional\<close>.

  \<^bold>\<open>Text\<close>. \<open>Crockford\<close> (\<^verbatim>\<open>base32/crockford.rs\<close>) models encoder and decoder with
  their tables, accumulators and unchecked writes; the encoder is shown to write the radix-32
  digits within its buffer, and the chunked decoder with its postponed error search to be the
  left-to-right scanner. \<open>Base32\<close> (\<^verbatim>\<open>base32/interface.rs\<close>, \<^verbatim>\<open>snowflake.rs\<close>,
  \<^verbatim>\<open>ulid.rs\<close>) has formatters and string conversions: round trips, order, complete
  behaviour of parsing. \<open>Serde_Ext\<close> (\<^verbatim>\<open>serde/\<close>) has the serde adapters. \<open>Text_Format\<close> has
  what is used of Rust's formatting, and \<open>Text_Views\<close> the views of a formatter, the \<open>Debug\<close> forms
  and the error messages (\<^verbatim>\<open>base32/error.rs\<close>, \<^verbatim>\<open>serde/error.rs\<close>): a formatter keeps the
  promise of \<open>Borrow<str>\<close> (locale \<open>borrowed_str\<close>), and an error can be read off its message.

  \<^bold>\<open>Generators\<close>. \<open>Generator_Interface\<close> has outcomes, retry loops, the abstract
  generator \<open>spec_poll\<close> and the contracts \<open>id_generator\<close> (identifiers increase, whatever the
  clock does) and \<open>clocked_generator\<close> (the retry loop returns once the clock passes the last
  timestamp). \<open>Snowflake_Generators\<close> and \<open>Ulid_Generators\<close>
  (\<^verbatim>\<open>generator/snowflake/\<close>, \<^verbatim>\<open>generator/ulid/\<close>) model the basic, lock and atomic
  generators method by method, with lock poisoning, interpret the contracts on them and show that
  a poll refines \<open>spec_poll\<close>. \<open>Concurrent_Generators\<close> has step relations for threads that
  share a lock or atomic generator under relaxed memory ordering: loads may be stale, clock
  readings and random words are arbitrary, and still no identifier is handed out twice.
  \<open>Generator_Traits\<close> (\<^verbatim>\<open>interface.rs\<close> of both families) has the default methods of the
  traits.

  \<^bold>\<open>Clock and waiting\<close>. \<open>Clock\<close> (\<^verbatim>\<open>time/mono_clock.rs\<close>) models the ticker thread and
  the readings of a clock; a reader of the shared value sees it lag (locales \<open>lagging_clock\<close> and
  \<open>ticker_history\<close>). \<open>Async_Ext\<close> (\<^verbatim>\<open>futures/\<close>) has the futures, with the sleep provider as a
  parameter, and the wrappers for two runtimes: an uncontended call on the lagging clock returns
  after a bounded number of sleeps. This theory composes clock and generator.

  \<^bold>\<open>Server\<close>. \<open>Stream_Worker\<close> (\<^verbatim>\<open>ferroid-tonic-server/src/server/streaming/processor.rs\<close>,
  \<^verbatim>\<open>streaming/request.rs\<close>, \<^verbatim>\<open>pool/worker.rs\<close>) models a worker: it fills a buffer
  with packed identifiers and sends it. \<open>Stream_Server\<close> has configuration (\<^verbatim>\<open>config.rs\<close>),
  errors, the pool (\<^verbatim>\<open>pool/manager.rs\<close>), the coordinator (\<^verbatim>\<open>streaming/coordinator.rs\<close>)
  and the service (\<^verbatim>\<open>service/handler.rs\<close>), with the metrics of \<open>Telemetry\<close>
  (\<^verbatim>\<open>telemetry.rs\<close>). Coordinator and pool meet in the locale \<open>chunk_dispatch\<close>, interpreted on
  the pool of Snowflake workers; \<open>Stream_Service\<close> derives what a client gets from one stream
  that runs to its end, and the errors, the shutdown and the limits of the configuration check.
  The shutdown of the pool is modelled against time, phase by phase (flag, drain, cancellation,
  stop requests, acknowledgements with their timeout), with what the other tasks do meanwhile as
  the parameter \<open>shutdown_run\<close>: when it returns, when the work is cancelled, and which workers it
  leaves behind.
  \<open>Service_Clock\<close> puts the service on a clock that goes (locale \<open>ticking_generator\<close>) and derives
  that every sequence of valid requests is answered. \<open>Server_Process\<close> (\<^verbatim>\<open>main.rs\<close>,
  \<^verbatim>\<open>telemetry.rs\<close>) is the process around it: start, set-up of telemetry, serving, the reaction to
  a signal, as computations on a log of calls, with the answers of the libraries as parameters; it
  waits for ever exactly if the shutdown of the service does.

  \<^bold>\<open>The running server\<close>. \<open>Server_Machine\<close> takes the same code apart at the points where a
  task waits: streams, workers, clients and the shutdown (\<open>shutdown_signal\<close> of \<^verbatim>\<open>main.rs\<close>,
  \<open>WorkerPool::shutdown\<close>) take their steps in any order, workers may panic and clients may go.
  \<open>Server_Invariants\<close> proves for every reachable state where the requests are, what the counters
  show and how far a shutdown is; \<open>Server_Delivery\<close> states the contract of a worker (locale
  \<open>worker_contract\<close>, interpreted on the Snowflake workers) and derives which identifiers are on
  their way; \<open>Server_Progress\<close> has a rank that every step lowers, and shows that some step is
  possible; \<open>Server_Schedules\<close> shows that the sequential model is one of the schedules;
  \<open>Server_Properties\<close> has the theorems: no identifier twice, successful streams complete, no
  deadlock, a bound on the number of steps, and the race in which a shutdown cuts a stream short.

  \<^bold>\<open>PostgreSQL\<close>. \<open>Pg_Ulid\<close> (\<^verbatim>\<open>pg-ferroid/src/lib.rs\<close>) models the stored type, its
  text and binary forms and its casts; \<open>Pg_Datum\<close> the glue that moves it through the server's
  memory.

  \<^bold>\<open>Bounds\<close>. Uniqueness of a release build needs clock readings that fit the timestamp
  field, which is the hypothesis \<open>always_below\<close> (or \<open>admissible\<close> for threads); a debug build
  panics on other readings. Delivery of a stream supposes that each worker's generator can
  produce the requested number of identifiers (\<open>pool_stocked\<close>); \<open>Service_Clock\<close> derives this from
  the clock: readings that never go back, are at most \<open>J\<close> apart and pass the first one by more
  than \<open>J\<close> per identifier are enough, because an identifier uses up at most one jump.

  The machine's bound \<open>server_rank\<close> is ten steps per identifier and a few per stream, message,
  request and worker. A worker of the machine answers in one step: it is a loop that may not
  end, and a worker whose generator is pending for ever takes none.

  \<^bold>\<open>Not modelled\<close>. Of exporters, tracing layers, listeners and signal handlers only the order,
  the settings and the outcomes of the calls are modelled, their insides are third-party crates;
  tracing messages are left out; the layers and compressions that the gRPC server is configured
  with have no behaviour in this repository; the protobuf code is generated;
  \<^verbatim>\<open>rand/thread_random.rs\<close> only calls a library; of the SQL declarations of \<open>pg-ferroid\<close> only the
  functions they declare are modelled. In the machine, the checks and counters of a request are
  one step, and so is the service of one request by a worker, which no other task can observe
  half-way; the grace period of a shutdown may end at any time, and its times are the subject of
  \<open>pool_shutdown\<close>. The clones of a clock share one ticker; in \<open>new_workers\<close> each worker reads its
  own copy of the same readings. The value a load of the ticker sees is the last one stored, up to
  a delay; loading takes no time.
\<close>

section \<open>Generators on the monotonic clock\<close>

text \<open>The timestamp of an identifier is the clock reading of the poll that returned it.\<close>

lemma ready_timestamps:
  fixes g :: "('a::len word snowflake, 't) basic_snow_gen"
  assumes wf: "layout_wf TYPE('a) L"
  shows "snow_gen_inv cm b L m (bs_state g) (bs_time g) \<Longrightarrow>
    x \<in> set (ready_ids (fst (polls (basic_snow_try_poll_id cm b L) n g))) \<Longrightarrow>
    \<exists>i < n. snow_timestamp L x = reading cm (bs_time g) i"
proof (induction n arbitrary: g)
  case (Suc n)
  let ?r = "snow_decide b L (fst (cm (bs_time g))) (bs_state g)"
  let ?g = "snd (basic_snow_try_poll_id cm b L g)"
  note wf' = wf_snowflake_layoutI [OF wf]
  have g: "fst (basic_snow_try_poll_id cm b L g) = map_ok Inr ?r"
    "bs_state ?g = installed (bs_state g) ?r" "bs_time ?g = snd (cm (bs_time g))"
    by (simp_all add: basic_snow_try_poll_eq)
  have inv: "snow_gen_inv cm b L m (bs_state ?g) (bs_time ?g)"
    unfolding g(2,3) by (rule wf_snowflake_layout.gen_inv_step [OF wf' Suc.prems(1)])
  have valid: "snow_is_valid L (bs_state g)"
    and fits: "b = Debug \<or> unat (fst (cm (bs_time g))) < 2 ^ timestamp_bits L"
    using Suc.prems(1) by (auto simp: snow_gen_inv_def always_below_now)
  from Suc.prems(2) consider "fst (basic_snow_try_poll_id cm b L g) = Inr (Inr (Ready x))"
    | "x \<in> set (ready_ids (fst (polls (basic_snow_try_poll_id cm b L) n ?g)))"
    by (auto simp: Let_def case_prod_beta ready_ids_Cons split: sum.splits poll.splits)
  then show ?case
  proof cases
    case 1
    then have "?r = Inr (Ready x)" by (simp add: g(1) map_ok_Ready)
    with wf_snowflake_layout.decide_ready [OF wf' valid fits] show ?thesis
      by (intro exI [of _ 0]) (simp add: reading_0)
  next
    case 2
    from Suc.IH [OF inv 2] obtain i where "i < n" "snow_timestamp L x = reading cm (bs_time ?g) i"
      by blast
    then show ?thesis by (intro exI [of _ "Suc i"]) (simp add: reading_Suc g(3))
  qed
qed simp

lemma reading_counter:
  assumes "\<And>i. snd (cm i) = Suc i"
  shows "reading cm 0 i = fst (cm i)"
proof -
  have "((\<lambda>t. snd (cm t)) ^^ i) 0 = i" by (induction i) (simp_all add: assms)
  then show ?thesis by (simp add: reading_def)
qed

text \<open>C35: a generator on the shared monotonic clock. Whatever values the ticker has stored at the
  moments the generator polls, as long as they keep the milliseconds since Twitter's epoch within
  41 bits, the generator hands out strictly increasing identifiers of its machine, and the
  timestamp of each is the number of milliseconds between the epoch and the moment of one of
  those polls: the start of the process on the system clock plus the elapsed time the ticker
  stored.\<close>

theorem ids_carry_clock_time:
  fixes m :: u64
  assumes "m \<le> snow_max_machine_id SnowflakeTwitterId"
    and "\<And>i. current_millis_u64 b 1 (with_epoch tk TWITTER_EPOCH) (stored i) = Inr (fst (cm i)) \<and>
      snd (cm i) = Suc i"
    and "\<And>i. unat (tk_base_system_now tk) - TWITTER_EPOCH + unat (stored i) < 2 ^ 41"
  shows "\<exists>g. basic_snow_new b SnowflakeTwitterId m 0 = Inr g \<and>
    (\<forall>n. let ids = ready_ids (fst (polls (basic_snow_try_poll_id cm b SnowflakeTwitterId) n g)) in
      sorted_wrt (<) ids \<and>
      (\<forall>x \<in> set ids. snow_machine_id SnowflakeTwitterId x = m \<and>
        (\<exists>i < n. unat (snow_timestamp SnowflakeTwitterId x) =
          unat (tk_base_system_now tk) - TWITTER_EPOCH + unat (stored i))))"
proof -
  let ?L = SnowflakeTwitterId
  have off: "unat (epoch_offset (with_epoch tk TWITTER_EPOCH)) =
      unat (tk_base_system_now tk) - TWITTER_EPOCH"
    by (rule with_epoch_offset) (simp add: TWITTER_EPOCH_def)
  have now: "unat (fst (cm i)) = unat (tk_base_system_now tk) - TWITTER_EPOCH + unat (stored i)" for i
  proof -
    have "unat (epoch_offset (with_epoch tk TWITTER_EPOCH)) + unat (stored i) < 2 ^ 64"
      using assms(3) [of i] by (simp add: off)
    with current_millis_value(1) [OF this, of b 1] current_millis_value(2) [OF this, of 1] assms(2) [of i]
    show ?thesis by (simp add: off)
  qed
  have read: "reading cm 0 i = fst (cm i)" for i
    by (rule reading_counter) (simp add: assms(2))
  have clock: "b = Debug \<or> always_below cm (2 ^ timestamp_bits ?L) 0"
    using assms(3) by (simp add: always_below_def read now SnowflakeTwitterId_def)
  obtain g where g: "basic_snow_new b ?L m 0 = Inr g" "bs_time g = 0"
      and inv: "snow_gen_inv cm b ?L m (bs_state g) (bs_time g)"
    by (rule basic_snow_new_inv [OF twitter_wf assms(1) clock])
  note gen = snowflake_generationI [OF twitter_wf]
  have "sorted_wrt (<) (ready_ids (fst (polls (basic_snow_try_poll_id cm b ?L) n g)))" for n
    using snowflake_generation.basic_ready_increasing [OF gen inv] by auto
  moreover have "snow_machine_id ?L x = m \<and> (\<exists>i < n. unat (snow_timestamp ?L x) =
      unat (tk_base_system_now tk) - TWITTER_EPOCH + unat (stored i))"
    if x: "x \<in> set (ready_ids (fst (polls (basic_snow_try_poll_id cm b ?L) n g)))" for x n
  proof -
    obtain i where "i < n" "snow_timestamp ?L x = reading cm (bs_time g) i"
      using ready_timestamps [OF twitter_wf inv x] by blast
    moreover have "snow_machine_id ?L x = m"
      using snowflake_generation.basic_ready_origin [OF gen inv x] by (auto simp: snow_gen_inv_def)
    ultimately show ?thesis by (auto simp: g(2) read now)
  qed
  ultimately show ?thesis using g(1) by (auto simp: Let_def)
qed

theorem ids_carry_clock_time_witness:
  "\<exists>g. basic_snow_new Debug SnowflakeTwitterId (7 :: u64) 0 = Inr g \<and>
    (\<forall>n. let ids = ready_ids (fst (polls (basic_snow_try_poll_id
          (\<lambda>i :: nat. (711165025343 + word_of_nat (i mod 10), Suc i)) Debug SnowflakeTwitterId) n g)) in
      sorted_wrt (<) ids \<and>
      (\<forall>x \<in> set ids. snow_machine_id SnowflakeTwitterId x = 7 \<and>
        (\<exists>i < n. unat (snow_timestamp SnowflakeTwitterId x) = 711165025343 + unat (word_of_nat (i mod 10) :: u64))))"
proof -
  let ?tk = "ticker_start 2000000000000000000"
  let ?stored = "\<lambda>i :: nat. word_of_nat (i mod 10) :: u64"
  have base: "unat (tk_base_system_now ?tk) - TWITTER_EPOCH = 711165025343"
    by (simp add: ticker_start_def TWITTER_EPOCH_def)
  have stored: "unat (?stored i) < 10" for i :: nat
    by (simp add: unat_of_nat)
  have off: "epoch_offset (with_epoch ?tk TWITTER_EPOCH) = 711165025343"
    by (simp add: with_epoch_def ticker_start_def TWITTER_EPOCH_def saturating_sub_def)
  have "current_millis_u64 Debug 1 (with_epoch ?tk TWITTER_EPOCH) (?stored i) =
      Inr (711165025343 + ?stored i)" for i :: nat
    using current_millis_value(1) [of "with_epoch ?tk TWITTER_EPOCH" "?stored i" Debug 1] stored [of i]
    by (simp add: off)
  moreover have "(7 :: u64) \<le> snow_max_machine_id SnowflakeTwitterId" by code_simp
  moreover have "unat (tk_base_system_now ?tk) - TWITTER_EPOCH + unat (?stored i) < 2 ^ 41" for i :: nat
    using stored [of i] by (simp add: base)
  ultimately show ?thesis
    using ids_carry_clock_time [of 7 Debug ?tk ?stored
        "\<lambda>i :: nat. (711165025343 + word_of_nat (i mod 10), Suc i)"]
    by (simp add: base)
qed

end
